(* ===== verification/Prelude.thy ===== *)
theory Prelude
  imports Main "HOL-Library.Signed_Division"
begin

text \<open>
  Shared vocabulary of the development: the error type of the service, the arithmetic of
  Rust's \<^verbatim>\<open>i64\<close> that the code relies on (saturating operations, division that truncates
  towards zero), the byte-string operations of the standard library that the parsers use, the
  relational-table operations in which the PostgreSQL transactions are written, and the generic
  interfaces (locales) that the components instantiate.
\<close>

section \<open>Errors\<close>

text \<open>
  The variants of \<^verbatim>\<open>EnclaveError\<close> that the modelled code raises, with their messages. A
  constraint violation reported by PostgreSQL is \<open>Postgres\<close> with the violated constraint's kind.
\<close>

datatype enclave_error =
    Crypto string
  | Store string
  | Postgres string
  | Auth string
  | Embedding string
  | Config string
  | InvalidRequest string
  | NotFound
  | Conflict string
  | SignupLimited

type_synonym 'a res = "enclave_error + 'a"

section \<open>Named collections\<close>

named_theorems isotime_simps \<open>definitions of the timestamp arithmetic\<close>
named_theorems planner_simps \<open>acceptance and fold rules of the media planner\<close>
named_theorems table_simps \<open>rewrite rules for table operations\<close>

section \<open>Arithmetic of i64\<close>

definition i64_max :: int where "i64_max = 2 ^ 63 - 1"
definition i64_min :: int where "i64_min = - (2 ^ 63)"

definition is_i64 :: "int \<Rightarrow> bool" where
  "is_i64 x \<longleftrightarrow> i64_min \<le> x \<and> x \<le> i64_max"

definition saturate :: "int \<Rightarrow> int" where
  "saturate x = (if x > i64_max then i64_max else if x < i64_min then i64_min else x)"

definition saturating_add :: "int \<Rightarrow> int \<Rightarrow> int" where
  "saturating_add a b = saturate (a + b)"

definition saturating_sub :: "int \<Rightarrow> int \<Rightarrow> int" where
  "saturating_sub a b = saturate (a - b)"

definition saturating_mul :: "int \<Rightarrow> int \<Rightarrow> int" where
  "saturating_mul a b = saturate (a * b)"

lemma i64_max_value: "i64_max = 9223372036854775807"
  by (simp add: i64_max_def)

lemma i64_min_value: "i64_min = -9223372036854775808"
  by (simp add: i64_min_def)

lemma saturate_is_i64 [simp]: "is_i64 (saturate x)"
  by (simp add: saturate_def is_i64_def i64_max_value i64_min_value)

lemma saturate_id: "is_i64 x \<Longrightarrow> saturate x = x"
  by (simp add: saturate_def is_i64_def)

lemma saturate_le_iff: "b < i64_max \<Longrightarrow> i64_min \<le> b \<Longrightarrow> saturate x \<le> b \<longleftrightarrow> x \<le> b"
  by (auto simp: saturate_def)

text \<open>Truncating division agrees with the floor division of HOL on non-negative operands.\<close>

lemma sdiv_nonneg: "0 \<le> a \<Longrightarrow> 0 < b \<Longrightarrow> a sdiv b = a div (b::int)"
proof -
  assume "0 \<le> a" "0 < b"
  then show ?thesis
    by (cases "a = 0") (simp_all add: signed_divide_int_def)
qed

text \<open>The usual idiom for a floor division in a language that truncates.\<close>

lemma sdiv_floor_pred:
  assumes "0 < (k::int)"
  shows "(if 0 \<le> z then z else z - (k - 1)) sdiv k = z div k"
proof (cases "0 \<le> z")
  case True
  with assms(1) show ?thesis by (simp add: sdiv_nonneg)
next
  case False
  then have neg: "z - (k - 1) < 0" using assms(1) by simp
  have "(k - 1 - z) div k = - (z div k)"
  proof -
    define q where "q = z div k"
    define r where "r = z mod k"
    have z: "z = k * q + r" by (simp add: q_def r_def)
    have r: "0 \<le> r" "r < k" using assms(1) by (simp_all add: r_def)
    have "k - 1 - z = k * (- q) + (k - 1 - r)" by (simp add: z algebra_simps)
    then have "(k - 1 - z) div k = - q + (k - 1 - r) div k"
      using assms(1) by (metis add.commute div_mult_self2 less_irrefl)
    moreover have "(k - 1 - r) div k = 0" using r by simp
    ultimately show ?thesis by (simp add: q_def)
  qed
  moreover have "\<bar>z - (k - 1)\<bar> = k - 1 - z" using neg by simp
  ultimately show ?thesis
    using False assms(1) neg by (simp add: signed_divide_int_def sgn_if)
qed

lemma sdiv_floor:
  assumes "0 < (k::int)" and c: "c = k - 1"
  shows "(if 0 \<le> z then z else z - c) sdiv k = z div k"
  unfolding c using assms(1) by (rule sdiv_floor_pred)

section \<open>Generic list facts\<close>

text \<open>A step function that starts at or below \<open>x\<close> and ends above it crosses \<open>x\<close> somewhere.\<close>

lemma crossing_exists:
  fixes f :: "nat \<Rightarrow> int"
  assumes "f 0 \<le> x" and "x < f n"
  shows "\<exists>k<n. f k \<le> x \<and> x < f (Suc k)"
  using assms
proof (induction n)
  case 0
  then show ?case by simp
next
  case (Suc n)
  show ?case
  proof (cases "x < f n")
    case True
    with Suc obtain k where "k < n" "f k \<le> x" "x < f (Suc k)" by blast
    then show ?thesis by (intro exI [of _ k]) simp
  next
    case False
    with Suc.prems show ?thesis by (intro exI [of _ n]) simp
  qed
qed

section \<open>Relational tables\<close>

text \<open>
  A table is the list of its rows. The statements that the transactions use are filters, maps and
  appends; a primary key is a function of the row, and an \<^verbatim>\<open>INSERT\<close> that would duplicate it fails.
\<close>

definition delete_rows :: "('r \<Rightarrow> bool) \<Rightarrow> 'r list \<Rightarrow> 'r list" where
  "delete_rows P t = filter (\<lambda>r. \<not> P r) t"

definition update_rows :: "('r \<Rightarrow> bool) \<Rightarrow> ('r \<Rightarrow> 'r) \<Rightarrow> 'r list \<Rightarrow> 'r list" where
  "update_rows P f t = map (\<lambda>r. if P r then f r else r) t"

definition exists_row :: "('r \<Rightarrow> bool) \<Rightarrow> 'r list \<Rightarrow> bool" where
  "exists_row P t = list_ex P t"

definition count_rows :: "('r \<Rightarrow> bool) \<Rightarrow> 'r list \<Rightarrow> int" where
  "count_rows P t = int (length (filter P t))"

definition has_key :: "('r \<Rightarrow> 'k) \<Rightarrow> 'k \<Rightarrow> 'r list \<Rightarrow> bool" where
  "has_key key k t = list_ex (\<lambda>r. key r = k) t"

text \<open>\<^verbatim>\<open>INSERT\<close> under a primary key, and its \<^verbatim>\<open>ON CONFLICT DO NOTHING\<close> and \<^verbatim>\<open>DO UPDATE\<close> forms.\<close>

definition insert_row :: "('r \<Rightarrow> 'k) \<Rightarrow> 'r \<Rightarrow> 'r list \<Rightarrow> 'r list option" where
  "insert_row key r t = (if has_key key (key r) t then None else Some (t @ [r]))"

definition insert_ignore :: "('r \<Rightarrow> 'k) \<Rightarrow> 'r \<Rightarrow> 'r list \<Rightarrow> 'r list" where
  "insert_ignore key r t = (if has_key key (key r) t then t else t @ [r])"

definition upsert_row :: "('r \<Rightarrow> 'k) \<Rightarrow> ('r \<Rightarrow> 'r) \<Rightarrow> 'r \<Rightarrow> 'r list \<Rightarrow> 'r list" where
  "upsert_row key f r t =
     (if has_key key (key r) t then update_rows (\<lambda>q. key q = key r) f t else t @ [r])"

lemma set_delete_rows [simp, table_simps]: "set (delete_rows P t) = {r \<in> set t. \<not> P r}"
  by (simp add: delete_rows_def)

lemma set_update_rows [table_simps]:
  "set (update_rows P f t) = f ` {r \<in> set t. P r} \<union> {r \<in> set t. \<not> P r}"
  by (auto simp: update_rows_def image_iff)

lemma exists_row_iff [simp, table_simps]: "exists_row P t \<longleftrightarrow> (\<exists>r\<in>set t. P r)"
  by (simp add: exists_row_def list_ex_iff)

lemma has_key_iff [simp, table_simps]: "has_key key k t \<longleftrightarrow> k \<in> key ` set t"
  by (auto simp: has_key_def list_ex_iff)

lemma insert_row_Some [table_simps]:
  "insert_row key r t = Some t' \<longleftrightarrow> key r \<notin> key ` set t \<and> t' = t @ [r]"
  by (auto simp: insert_row_def)

lemma insert_row_None: "insert_row key r t = None \<longleftrightarrow> key r \<in> key ` set t"
  by (simp add: insert_row_def)

lemma set_insert_ignore [table_simps]:
  "set (insert_ignore key r t) = set t \<union> (if key r \<in> key ` set t then {} else {r})"
  by (simp add: insert_ignore_def)

lemma distinct_delete_rows [simp]:
  "distinct (map key t) \<Longrightarrow> distinct (map key (delete_rows P t))"
  by (simp add: delete_rows_def distinct_map_filter)

lemma map_update_rows: "(\<And>r. P r \<Longrightarrow> key (f r) = key r) \<Longrightarrow> map key (update_rows P f t) = map key t"
  by (simp add: update_rows_def)

lemma image_update_rows:
  "(\<And>r. P r \<Longrightarrow> key (f r) = key r) \<Longrightarrow> key ` set (update_rows P f t) = key ` set t"
  by (metis map_update_rows set_map)

lemma one_match_exists: "count_rows P t = 1 \<Longrightarrow> \<exists>r\<in>set t. P r"
  by (cases "filter P t") (auto simp: count_rows_def dest: filter_eq_ConsD)

text \<open>
  A table with a primary key whose rows reference two parent tables, given by the sets of the
  parents' keys.
\<close>

definition child_ok ::
  "'a set \<Rightarrow> 'b set \<Rightarrow> ('r \<Rightarrow> 'k) \<Rightarrow> ('r \<Rightarrow> 'a) \<Rightarrow> ('r \<Rightarrow> 'b) \<Rightarrow> 'r list \<Rightarrow> bool" where
  "child_ok A B key fka fkb t \<longleftrightarrow> distinct (map key t) \<and> (\<forall>r\<in>set t. fka r \<in> A \<and> fkb r \<in> B)"

lemma child_ok_Nil [simp]: "child_ok A B key fka fkb []"
  by (simp add: child_ok_def)

lemma child_ok_delete [simp]:
  "child_ok A B key fka fkb t \<Longrightarrow> child_ok A B key fka fkb (delete_rows P t)"
  by (simp add: child_ok_def)

lemma child_ok_append:
  "child_ok A B key fka fkb t \<Longrightarrow> key r \<notin> key ` set t \<Longrightarrow> fka r \<in> A \<Longrightarrow> fkb r \<in> B \<Longrightarrow>
   child_ok A B key fka fkb (t @ [r])"
  by (auto simp: child_ok_def)

lemma child_ok_update:
  "child_ok A B key fka fkb t \<Longrightarrow>
   (\<And>r. P r \<Longrightarrow> key (f r) = key r \<and> fka (f r) = fka r \<and> fkb (f r) = fkb r) \<Longrightarrow>
   child_ok A B key fka fkb (update_rows P f t)"
  by (auto simp: child_ok_def map_update_rows set_update_rows)

lemma child_ok_mono:
  "child_ok A B key fka fkb t \<Longrightarrow> A \<subseteq> A' \<Longrightarrow> B \<subseteq> B' \<Longrightarrow> child_ok A' B' key fka fkb t"
  by (auto simp: child_ok_def)

lemma child_ok_cascade_a:
  "child_ok A B key fka fkb t \<Longrightarrow> child_ok (A - {a}) B key fka fkb (delete_rows (\<lambda>r. fka r = a) t)"
  by (auto simp: child_ok_def)

lemma child_ok_cascade_b:
  "child_ok A B key fka fkb t \<Longrightarrow> (\<And>b. b \<in> B \<Longrightarrow> \<not> gone b \<Longrightarrow> b \<in> B') \<Longrightarrow>
   child_ok A B' key fka fkb (delete_rows (\<lambda>r. gone (fkb r)) t)"
  by (auto simp: child_ok_def)

lemma distinct_insert_row:
  "insert_row key r t = Some t' \<Longrightarrow> distinct (map key t) \<Longrightarrow> distinct (map key t')"
  by (auto simp: insert_row_Some)

lemma distinct_insert_ignore:
  "distinct (map key t) \<Longrightarrow> distinct (map key (insert_ignore key r t))"
  by (simp add: insert_ignore_def)

lemma distinct_upsert_row:
  "distinct (map key t) \<Longrightarrow> (\<And>q. key (f q) = key q) \<Longrightarrow> distinct (map key (upsert_row key f r t))"
  by (simp add: upsert_row_def map_update_rows)

lemma key_unique:
  "distinct (map key t) \<Longrightarrow> r \<in> set t \<Longrightarrow> q \<in> set t \<Longrightarrow> key r = key q \<Longrightarrow> r = q"
  by (auto simp: distinct_map inj_on_def)

lemma filter_key_le_1:
  "distinct (map key t) \<Longrightarrow> (\<And>r q. P r \<Longrightarrow> P q \<Longrightarrow> key r = key q) \<Longrightarrow> length (filter P t) \<le> 1"
proof (induction t)
  case (Cons a t)
  show ?case
  proof (cases "P a")
    case True
    have "\<not> P q" if "q \<in> set t" for q
    proof
      assume "P q"
      from Cons.prems(2) [OF True this] that have "key a \<in> key ` set t" by simp
      with Cons.prems(1) show False by simp
    qed
    then have "filter P t = []" by (simp add: filter_empty_conv)
    with True show ?thesis by simp
  next
    case False
    from Cons.prems(1) have "distinct (map key t)" by simp
    from Cons.IH [OF this Cons.prems(2)] False show ?thesis by simp
  qed
qed simp

text \<open>Looking a row up by its key, in a table where the key is unique.\<close>

definition lookup_row :: "('r \<Rightarrow> 'k) \<Rightarrow> 'k \<Rightarrow> 'r list \<Rightarrow> 'r option" where
  "lookup_row key k t = List.find (\<lambda>r. key r = k) t"

lemma find_Some_match: "List.find P t = Some r \<Longrightarrow> r \<in> set t \<and> P r"
  by (auto simp: find_Some_iff)

lemma lookup_row_Some: "lookup_row key k t = Some r \<Longrightarrow> r \<in> set t \<and> key r = k"
  by (auto simp: lookup_row_def find_Some_iff)

lemma lookup_row_key: "lookup_row key k t = Some r \<Longrightarrow> key r = k"
  by (drule lookup_row_Some) simp

lemma lookup_row_None: "lookup_row key k t = None \<longleftrightarrow> k \<notin> key ` set t"
  by (auto simp: lookup_row_def find_None_iff)

lemma lookup_row_unique:
  "distinct (map key t) \<Longrightarrow> r \<in> set t \<Longrightarrow> lookup_row key (key r) t = Some r"
proof -
  assume a: "distinct (map key t)" "r \<in> set t"
  then obtain q where q: "lookup_row key (key r) t = Some q"
    using lookup_row_None [of key "key r" t] by (cases "lookup_row key (key r) t") auto
  with lookup_row_Some [OF q] key_unique [OF a(1)] a(2) show ?thesis by auto
qed

lemma lookup_row_append:
  "lookup_row key k (t @ [r]) = (case lookup_row key k t of Some q \<Rightarrow> Some q
     | None \<Rightarrow> if key r = k then Some r else None)"
  by (induction t) (auto simp: lookup_row_def)

lemma lookup_row_update:
  "(\<And>r. P r \<Longrightarrow> key (f r) = key r) \<Longrightarrow>
   lookup_row key k (update_rows P f t) = map_option (\<lambda>r. if P r then f r else r) (lookup_row key k t)"
  by (induction t) (auto simp: lookup_row_def update_rows_def)

lemma lookup_row_delete:
  "(\<And>r. key r = k \<Longrightarrow> \<not> P r) \<Longrightarrow> lookup_row key k (delete_rows P t) = lookup_row key k t"
  by (induction t) (auto simp: lookup_row_def delete_rows_def)

section \<open>Runs of a state machine\<close>

text \<open>
  Fleet members interleave at the granularity of transactions. A history is a list of operations;
  \<open>hits\<close> counts the operations of a history that satisfy a predicate in the state they meet.
\<close>

fun run_ops :: "('o \<Rightarrow> 's \<Rightarrow> 's) \<Rightarrow> 'o list \<Rightarrow> 's \<Rightarrow> 's" where
  "run_ops step [] s = s"
| "run_ops step (x # xs) s = run_ops step xs (step x s)"

fun hits :: "('o \<Rightarrow> 's \<Rightarrow> 's) \<Rightarrow> ('o \<Rightarrow> 's \<Rightarrow> bool) \<Rightarrow> 'o list \<Rightarrow> 's \<Rightarrow> nat" where
  "hits step h [] s = 0"
| "hits step h (x # xs) s = (if h x s then 1 else 0) + hits step h xs (step x s)"

lemma run_ops_append: "run_ops step (xs @ ys) s = run_ops step ys (run_ops step xs s)"
  by (induction xs arbitrary: s) auto

lemma run_ops_invariant:
  "(\<And>x s. P s \<Longrightarrow> P (step x s)) \<Longrightarrow> P s \<Longrightarrow> P (run_ops step xs s)"
  by (induction xs arbitrary: s) auto

subsection \<open>Single-use capabilities\<close>

text \<open>
  The contract of a store of single-use capabilities (consents, authorization codes, refresh
  tokens): an operation only consumes a live key, consuming ends its life, and no operation brings
  a key to life except one that mints it. The invariant is what the store keeps of its own tables.
\<close>

locale one_shot =
  fixes step :: "'o \<Rightarrow> 's \<Rightarrow> 's" and inv :: "'s \<Rightarrow> bool" and live :: "'k \<Rightarrow> 's \<Rightarrow> bool"
    and consumes :: "'k \<Rightarrow> 'o \<Rightarrow> 's \<Rightarrow> bool" and mints :: "'k \<Rightarrow> 'o \<Rightarrow> bool"
  assumes inv_step: "inv s \<Longrightarrow> inv (step x s)"
    and consume_live: "inv s \<Longrightarrow> consumes k x s \<Longrightarrow> live k s"
    and consume_ends: "inv s \<Longrightarrow> consumes k x s \<Longrightarrow> \<not> live k (step x s)"
    and no_revival: "inv s \<Longrightarrow> live k (step x s) \<Longrightarrow> \<not> live k s \<Longrightarrow> mints k x"
begin

lemma dead_stays_dead:
  assumes "inv s" "\<not> live k s" "\<not> list_ex (mints k) xs"
  shows "hits step (consumes k) xs s = 0 \<and> \<not> live k (run_ops step xs s)"
  using assms
proof (induction xs arbitrary: s)
  case (Cons x xs)
  then have "\<not> live k (step x s)" using no_revival by auto
  with Cons inv_step consume_live show ?case by auto
qed simp

lemma at_most_one_consumption:
  assumes "inv s" "\<not> list_ex (mints k) xs"
  shows "hits step (consumes k) xs s \<le> 1"
  using assms
proof (induction xs arbitrary: s)
  case (Cons x xs)
  show ?case
  proof (cases "consumes k x s")
    case True
    then have "hits step (consumes k) xs (step x s) = 0"
      using dead_stays_dead [of "step x s" k xs] consume_ends inv_step Cons.prems by auto
    with True show ?thesis by simp
  next
    case False
    with Cons inv_step show ?thesis by auto
  qed
qed simp

lemma consumed_is_spent:
  assumes "inv s" "consumes k x s" "\<not> list_ex (mints k) xs"
  shows "hits step (consumes k) xs (step x s) = 0"
  using dead_stays_dead [of "step x s" k xs] consume_ends inv_step assms by auto

end

subsection \<open>One-time grants\<close>

text \<open>
  The contract of a ledger that grants an effect at most once: granting is refused once the ledger
  holds the key, a grant puts the key into the ledger, and no operation removes it.
\<close>

locale grant_ledger =
  fixes step :: "'o \<Rightarrow> 's \<Rightarrow> 's" and inv :: "'s \<Rightarrow> bool" and held :: "'k \<Rightarrow> 's \<Rightarrow> bool"
    and grants :: "'k \<Rightarrow> 'o \<Rightarrow> 's \<Rightarrow> bool"
  assumes inv_step: "inv s \<Longrightarrow> inv (step x s)"
    and grant_fresh: "inv s \<Longrightarrow> grants k x s \<Longrightarrow> \<not> held k s"
    and grant_held: "inv s \<Longrightarrow> grants k x s \<Longrightarrow> held k (step x s)"
    and held_step: "inv s \<Longrightarrow> held k s \<Longrightarrow> held k (step x s)"
begin

lemma no_grant_when_held: "inv s \<Longrightarrow> held k s \<Longrightarrow> hits step (grants k) xs s = 0"
proof (induction xs arbitrary: s)
  case (Cons x xs)
  then show ?case using grant_fresh held_step inv_step by auto
qed simp

lemma at_most_one_grant: "inv s \<Longrightarrow> hits step (grants k) xs s \<le> 1"
proof (induction xs arbitrary: s)
  case (Cons x xs)
  then show ?case using no_grant_when_held [OF inv_step grant_held] inv_step by auto
qed simp

end

subsection \<open>Meters and budgets\<close>

text \<open>
  The contract of a metered resource: an admissible operation moves the meter by its cost, and it
  has a cost only while the limit is not passed. A budget is the case where an operation spends
  one or nothing.
\<close>

fun spent :: "('o \<Rightarrow> 's \<Rightarrow> 's) \<Rightarrow> ('o \<Rightarrow> 's \<Rightarrow> int) \<Rightarrow> 'o list \<Rightarrow> 's \<Rightarrow> int" where
  "spent step cost [] s = 0"
| "spent step cost (x # xs) s = cost x s + spent step cost xs (step x s)"

lemma spent_hits: "spent step (\<lambda>x s. if h x s then 1 else 0) xs s = int (hits step h xs s)"
  by (induction xs arbitrary: s) auto

locale metered =
  fixes step :: "'o \<Rightarrow> 's \<Rightarrow> 's" and inv :: "'s \<Rightarrow> bool" and used :: "'s \<Rightarrow> int" and cost :: "'o \<Rightarrow> 's \<Rightarrow> int"
    and admissible :: "'o \<Rightarrow> bool" and limit :: int
  assumes inv_step: "inv s \<Longrightarrow> admissible x \<Longrightarrow> inv (step x s)"
    and meter: "inv s \<Longrightarrow> admissible x \<Longrightarrow> used (step x s) = used s + cost x s"
    and below: "inv s \<Longrightarrow> admissible x \<Longrightarrow> cost x s \<noteq> 0 \<Longrightarrow> used s + cost x s \<le> limit"
begin

lemma spent_run:
  "inv s \<Longrightarrow> list_all admissible xs \<Longrightarrow> inv (run_ops step xs s) \<and> used (run_ops step xs s) = used s + spent step cost xs s"
  by (induction xs arbitrary: s) (auto simp: meter inv_step)

lemma limit_run: "inv s \<Longrightarrow> list_all admissible xs \<Longrightarrow> used s \<le> limit \<Longrightarrow> used (run_ops step xs s) \<le> limit"
proof (induction xs arbitrary: s)
  case (Cons x xs)
  then have "used (step x s) \<le> limit" using meter [of s x] below [of s x] by (cases "cost x s = 0") auto
  with Cons inv_step show ?case by simp
qed simp

lemma spent_limit:
  "inv s \<Longrightarrow> list_all admissible xs \<Longrightarrow> used s \<le> limit \<Longrightarrow> spent step cost xs s \<le> limit - used s"
  using spent_run [of s xs] limit_run [of s xs] by auto

end

locale budget =
  fixes step :: "'o \<Rightarrow> 's \<Rightarrow> 's" and used :: "'s \<Rightarrow> int" and spends :: "'o \<Rightarrow> 's \<Rightarrow> bool"
    and admissible :: "'o \<Rightarrow> bool" and limit :: int
  assumes meter: "admissible x \<Longrightarrow> used (step x s) = used s + (if spends x s then 1 else 0)"
    and below: "admissible x \<Longrightarrow> spends x s \<Longrightarrow> used s < limit"

sublocale budget \<subseteq> cost: metered step "\<lambda>_. True" used "\<lambda>x s. if spends x s then 1 else 0" admissible limit
proof
  fix s x assume "admissible x"
  then show "used (step x s) = used s + (if spends x s then 1 else 0)" by (rule meter)
  from \<open>admissible x\<close> show "(if spends x s then 1 else 0) \<noteq> (0 :: int) \<Longrightarrow> used s + (if spends x s then 1 else 0) \<le> limit"
    using below [of x s] by (simp split: if_splits)
qed simp

context budget
begin

lemma meter_run: "list_all admissible xs \<Longrightarrow> used (run_ops step xs s) = used s + int (hits step spends xs s)"
  using cost.spent_run [where xs = xs and s = s] by (simp add: spent_hits)

lemma within_run: "list_all admissible xs \<Longrightarrow> used s \<le> limit \<Longrightarrow> used (run_ops step xs s) \<le> limit"
  using cost.limit_run [where xs = xs and s = s] by simp

end

subsection \<open>Tombstones\<close>

text \<open>
  The contract of a store that never lets a deleted key come back: a tombstone is permanent, and no
  operation makes a key present while its tombstone stands.
\<close>

locale tombstone =
  fixes step :: "'o \<Rightarrow> 's \<Rightarrow> 's" and dead :: "'k \<Rightarrow> 's \<Rightarrow> bool" and present :: "'k \<Rightarrow> 's \<Rightarrow> bool"
  assumes dead_step: "dead k s \<Longrightarrow> dead k (step x s)"
    and no_return: "dead k s \<Longrightarrow> present k (step x s) \<Longrightarrow> present k s"
begin

lemma dead_run: "dead k s \<Longrightarrow> dead k (run_ops step xs s)"
  by (rule run_ops_invariant) (rule dead_step)

lemma gone_for_good: "dead k s \<Longrightarrow> \<not> present k s \<Longrightarrow> \<not> present k (run_ops step xs s)"
proof -
  assume "dead k s" "\<not> present k s"
  then have "dead k (run_ops step xs s) \<and> \<not> present k (run_ops step xs s)"
    by (intro run_ops_invariant [where P = "\<lambda>s. dead k s \<and> \<not> present k s"]) (auto dest: dead_step no_return)
  then show ?thesis by simp
qed

end

end
