(* ===== verification/Rust_Str.thy ===== *)
theory Rust_Str
  imports Prelude
begin

text \<open>
  The operations of Rust's \<^verbatim>\<open>str\<close> and of its integer parsing and formatting that the repository's
  parsers use, on byte strings, with the lemmas that relate printing and parsing of decimal text.
\<close>

section \<open>Standard-library operations on byte strings\<close>

text \<open>\<^verbatim>\<open>str::split_once\<close> with a one-byte separator.\<close>

fun split_once :: "char \<Rightarrow> string \<Rightarrow> (string \<times> string) option" where
  "split_once c [] = None"
| "split_once c (x # xs) =
     (if x = c then Some ([], xs) else map_option (\<lambda>(a, b). (x # a, b)) (split_once c xs))"

text \<open>\<^verbatim>\<open>str::split\<close> with a one-byte separator; the result is never empty.\<close>

fun split_on :: "char \<Rightarrow> string \<Rightarrow> string list" where
  "split_on c [] = [[]]"
| "split_on c (x # xs) =
     (if x = c then [] # split_on c xs
      else (case split_on c xs of [] \<Rightarrow> [[x]] | p # ps \<Rightarrow> (x # p) # ps))"

definition strip_suffix1 :: "char \<Rightarrow> string \<Rightarrow> string option" where
  "strip_suffix1 c s = (if s \<noteq> [] \<and> last s = c then Some (butlast s) else None)"

definition byte :: "char \<Rightarrow> int" where
  "byte c = int (of_char c)"

definition is_ascii_digit :: "char \<Rightarrow> bool" where
  "is_ascii_digit c \<longleftrightarrow> 48 \<le> byte c \<and> byte c \<le> 57"

definition digit_value :: "char \<Rightarrow> int" where
  "digit_value c = byte c - 48"

text \<open>\<^verbatim>\<open>str::is_char_boundary\<close> at an index inside the string: not a continuation byte.\<close>

definition is_char_boundary :: "string \<Rightarrow> nat \<Rightarrow> bool" where
  "is_char_boundary s i \<longleftrightarrow>
     i = 0 \<or> i = length s \<or> (i < length s \<and> \<not> (128 \<le> byte (s ! i) \<and> byte (s ! i) < 192))"

definition digits_value :: "string \<Rightarrow> int" where
  "digits_value s = foldl (\<lambda>acc c. 10 * acc + digit_value c) 0 s"

text \<open>
  \<^verbatim>\<open>str::parse::<i64>\<close>: an optional sign, at least one digit, nothing else, and a value in range.
\<close>

definition parse_i64 :: "string \<Rightarrow> int option" where
  "parse_i64 s =
     (let (neg, ds) = (case s of c # rest \<Rightarrow>
                          if c = CHR ''+'' then (False, rest)
                          else if c = CHR ''-'' then (True, rest) else (False, s)
                        | [] \<Rightarrow> (False, []));
          v = (if neg then - digits_value ds else digits_value ds)
      in if ds \<noteq> [] \<and> list_all is_ascii_digit ds \<and> is_i64 v then Some v else None)"

text \<open>
  Formatting of \<^verbatim>\<open>{n:0w}\<close>: sign-aware zero padding to a minimum width. \<open>show_nat\<close> is the
  decimal representation.
\<close>

definition digit_char :: "nat \<Rightarrow> char" where
  "digit_char n = char_of (48 + n)"

fun show_nat :: "nat \<Rightarrow> string" where
  "show_nat n = (if n < 10 then [digit_char n] else show_nat (n div 10) @ [digit_char (n mod 10)])"

declare show_nat.simps [simp del]

definition zero_pad :: "nat \<Rightarrow> string \<Rightarrow> string" where
  "zero_pad w s = replicate (w - length s) (CHR ''0'') @ s"

definition fmt_int :: "nat \<Rightarrow> int \<Rightarrow> string" where
  "fmt_int w n =
     (if n < 0 then CHR ''-'' # zero_pad (w - 1) (show_nat (nat (- n)))
      else zero_pad w (show_nat (nat n)))"

section \<open>Decimal text\<close>

lemma byte_digit_char: "n < 10 \<Longrightarrow> byte (digit_char n) = 48 + int n"
  by (simp add: byte_def digit_char_def of_char_of)

lemma digit_char_props [simp]:
  "n < 10 \<Longrightarrow> is_ascii_digit (digit_char n)" "n < 10 \<Longrightarrow> digit_value (digit_char n) = int n"
  by (simp_all add: is_ascii_digit_def digit_value_def byte_digit_char)

lemma digits_value_append:
  "digits_value (xs @ ys) = foldl (\<lambda>acc c. 10 * acc + digit_value c) (digits_value xs) ys"
  by (simp add: digits_value_def)

lemma digits_value_show: "digits_value (show_nat n) = int n"
proof (induction n rule: show_nat.induct)
  case (1 n)
  show ?case
  proof (cases "n < 10")
    case True
    then show ?thesis by (subst show_nat.simps) (simp add: digits_value_def)
  next
    case False
    with "1.IH" have "digits_value (show_nat (n div 10)) = int (n div 10)" by simp
    with False show ?thesis
      by (subst show_nat.simps)
        (simp add: digits_value_append zdiv_int zmod_int)
  qed
qed

lemma show_nat_digits: "list_all is_ascii_digit (show_nat n)"
  by (induction n rule: show_nat.induct) (subst show_nat.simps, simp)

lemma show_nat_nonempty [simp]: "show_nat n \<noteq> []"
  by (subst show_nat.simps) simp

lemma zero_pad_props:
  "digits_value (zero_pad w s) = digits_value s"
  "list_all is_ascii_digit (zero_pad w s) \<longleftrightarrow> list_all is_ascii_digit s"
  "zero_pad w s = [] \<longleftrightarrow> w = 0 \<and> s = []"
proof -
  have z: "is_ascii_digit (CHR ''0'')" "digit_value (CHR ''0'') = 0" by code_simp+
  have "digits_value (replicate k (CHR ''0'')) = 0" for k
    by (induction k) (simp_all add: digits_value_def z)
  then show "digits_value (zero_pad w s) = digits_value s"
    by (simp add: zero_pad_def digits_value_append) (simp add: digits_value_def)
  show "list_all is_ascii_digit (zero_pad w s) \<longleftrightarrow> list_all is_ascii_digit s"
    by (auto simp: zero_pad_def list_all_iff z)
  show "zero_pad w s = [] \<longleftrightarrow> w = 0 \<and> s = []"
    by (auto simp: zero_pad_def)
qed

lemma fmt_int_nonneg:
  assumes "0 \<le> n"
  shows "digits_value (fmt_int w n) = n" and "list_all is_ascii_digit (fmt_int w n)"
    and "fmt_int w n \<noteq> []"
  using assms
  by (simp_all add: fmt_int_def zero_pad_props digits_value_show show_nat_digits)

lemma parse_i64_digits:
  assumes "ds \<noteq> []" "list_all is_ascii_digit ds" "is_i64 (digits_value ds)"
  shows "parse_i64 ds = Some (digits_value ds)"
proof -
  obtain c rest where ds: "ds = c # rest" using assms(1) by (cases ds) auto
  have "c \<noteq> CHR ''+''" "c \<noteq> CHR ''-''"
    using assms(2) by (auto simp: ds is_ascii_digit_def byte_def)
  with assms show ?thesis by (simp add: parse_i64_def ds)
qed

lemma parse_fmt_int: "0 \<le> n \<Longrightarrow> n \<le> i64_max \<Longrightarrow> parse_i64 (fmt_int w n) = Some n"
  using parse_i64_digits [of "fmt_int w n"] fmt_int_nonneg [of n w]
  by (simp add: is_i64_def i64_min_value)

lemma digit_not_in:
  assumes "list_all is_ascii_digit ds" "\<not> is_ascii_digit c"
  shows "c \<notin> set ds"
  using assms by (auto simp: list_all_iff)

lemma separators_not_digits [simp]:
  "\<not> is_ascii_digit (CHR ''-'')" "\<not> is_ascii_digit (CHR '':'')" "\<not> is_ascii_digit (CHR ''.'')"
  "\<not> is_ascii_digit (CHR ''T'')" "\<not> is_ascii_digit (CHR ''Z'')"
  by code_simp+

lemma split_on_app: "c \<notin> set xs \<Longrightarrow> split_on c (xs @ c # ys) = xs # split_on c ys"
  by (induction xs) auto

lemma split_on_none: "c \<notin> set xs \<Longrightarrow> split_on c xs = [xs]"
  by (induction xs) auto

lemma split_once_app: "c \<notin> set xs \<Longrightarrow> split_once c (xs @ c # ys) = Some (xs, ys)"
  by (induction xs) auto

lemma digit_char_0: "CHR ''0'' = digit_char 0"
  by code_simp

lemma show_nat_1: "n < 10 \<Longrightarrow> show_nat n = [digit_char n]"
  by (subst show_nat.simps) simp

lemma show_nat_step: "\<not> n < 10 \<Longrightarrow> show_nat n = show_nat (n div 10) @ [digit_char (n mod 10)]"
  by (subst show_nat.simps) simp

end
