(* ===== verification/Civil_Date.thy ===== *)
theory Civil_Date
  imports Prelude
begin

text \<open>
  The proleptic Gregorian calendar algorithms of \<^verbatim>\<open>cp/isotime.rs\<close> (Hinnant's
  \<^verbatim>\<open>days_from_civil\<close> and \<^verbatim>\<open>civil_from_days\<close>, with Rust's truncating division) and the
  proof that they are inverse bijections between day numbers and valid dates. The estimate of the
  year is monotone in the day of the era, so it is enough to evaluate it at the 400 year
  boundaries; months and days are checked on the 366 days of a year.
\<close>

section \<open>Civil dates\<close>

definition days_from_civil :: "int \<Rightarrow> int \<Rightarrow> int \<Rightarrow> int" where
  "days_from_civil y0 m d =
     (let y = (if m \<le> 2 then y0 - 1 else y0);
          era = (if y \<ge> 0 then y else y - 399) sdiv 400;
          yoe = y - era * 400;
          doy = (153 * (if m > 2 then m - 3 else m + 9) + 2) sdiv 5 + d - 1;
          doe = yoe * 365 + yoe sdiv 4 - yoe sdiv 100 + doy
      in era * 146097 + doe - 719468)"

definition civil_from_days :: "int \<Rightarrow> int \<times> int \<times> int" where
  "civil_from_days z0 =
     (let z = z0 + 719468;
          era = (if z \<ge> 0 then z else z - 146096) sdiv 146097;
          doe = z - era * 146097;
          yoe = (doe - doe sdiv 1460 + doe sdiv 36524 - doe sdiv 146096) sdiv 365;
          y = yoe + era * 400;
          doy = doe - (365 * yoe + yoe sdiv 4 - yoe sdiv 100);
          mp = (5 * doy + 2) sdiv 153;
          d = doy - (153 * mp + 2) sdiv 5 + 1;
          m = (if mp < 10 then mp + 3 else mp - 9)
      in (if m \<le> 2 then y + 1 else y, m, d))"

section \<open>Correctness of the civil-date algorithms\<close>

text \<open>First day (relative to the era) of the \<open>Y\<close>-th year of a 400-year era starting in March.\<close>

definition year_start :: "int \<Rightarrow> int" where
  "year_start Y = 365 * Y + Y div 4 - Y div 100"

text \<open>The year-of-era estimate of the algorithm, as a function of the day of the era.\<close>

definition doe_scaled :: "int \<Rightarrow> int" where
  "doe_scaled doe = doe - doe div 1460 + doe div 36524 - doe div 146096"

lemma div_Suc_int: "0 < k \<Longrightarrow> (n + 1) div k = n div k + (if k dvd n + 1 then 1 else 0)" for n k :: int
proof (cases "k dvd n + 1")
  case True
  assume "0 < k"
  from True obtain j where j: "n + 1 = k * j" by blast
  then have n: "n = k * (j - 1) + (k - 1)" by (simp add: algebra_simps)
  have "n div k = j - 1" using \<open>0 < k\<close> by (subst n) (simp add: div_pos_pos_trivial)
  then show ?thesis using True j \<open>0 < k\<close> by simp
next
  case False
  assume "0 < k"
  have r: "n mod k \<noteq> k - 1"
  proof
    assume "n mod k = k - 1"
    then have "n + 1 = k * (n div k) + k" using mult_div_mod_eq [of k n] by linarith
    then have "k dvd n + 1" by simp
    with False show False by contradiction
  qed
  moreover have "0 \<le> n mod k" "n mod k < k" using \<open>0 < k\<close> by simp_all
  ultimately have b: "0 \<le> n mod k + 1" "n mod k + 1 < k" by linarith+
  have "n + 1 = k * (n div k) + (n mod k + 1)" by simp
  then have "(n + 1) div k = n div k + (n mod k + 1) div k"
    using \<open>0 < k\<close> by (metis add.commute div_mult_self2 less_irrefl)
  with b False show ?thesis by simp
qed

lemma doe_scaled_step: "doe_scaled n \<le> doe_scaled (n + 1)"
proof -
  have "146096 dvd n + 1 \<Longrightarrow> 36524 dvd n + 1"
    by (rule dvd_trans [of 36524 146096]) simp_all
  then show ?thesis
    unfolding doe_scaled_def by (simp add: div_Suc_int)
qed

lemma doe_scaled_mono: "a \<le> b \<Longrightarrow> doe_scaled a \<le> doe_scaled b"
proof -
  assume "a \<le> b"
  have "doe_scaled a \<le> doe_scaled (a + int k)" for k
  proof (induction k)
    case (Suc k)
    from doe_scaled_step [of "a + int k"] Suc show ?case by (simp add: algebra_simps)
  qed simp
  from this [of "nat (b - a)"] \<open>a \<le> b\<close> show ?thesis by simp
qed

lemma year_breakpoints:
  "list_all (\<lambda>Y. doe_scaled (year_start Y) div 365 = Y
                \<and> doe_scaled (year_start (Y + 1) - (if Y = 399 then 0 else 1)) div 365 = Y) [0..399]"
  by code_simp

lemma year_of_era:
  assumes "0 \<le> Y" "Y < 400" "year_start Y \<le> doe"
    and "doe < year_start (Y + 1) + (if Y = 399 then 1 else 0)"
  shows "doe_scaled doe div 365 = Y"
proof -
  have "Y \<in> set [0..399]" using assms by simp
  with year_breakpoints have
    lo: "doe_scaled (year_start Y) div 365 = Y" and
    hi: "doe_scaled (year_start (Y + 1) - (if Y = 399 then 0 else 1)) div 365 = Y"
    by (auto simp: list_all_iff)
  have "Y \<le> doe_scaled doe div 365"
    using zdiv_mono1 [OF doe_scaled_mono [OF assms(3)], of 365] lo by simp
  moreover have "doe_scaled doe div 365 \<le> Y"
    using zdiv_mono1 [OF doe_scaled_mono
        [of doe "year_start (Y + 1) - (if Y = 399 then 0 else 1)"], of 365] hi assms(4)
    by (auto split: if_splits)
  ultimately show ?thesis by simp
qed
text \<open>Every day of an era lies in exactly one of its 400 years.\<close>

lemma year_exists:
  assumes "0 \<le> doe" "doe < 146097"
  obtains Y where "0 \<le> Y" "Y < 400" "year_start Y \<le> doe"
    "doe < year_start (Y + 1) + (if Y = 399 then 1 else 0)"
proof -
  define f where "f k = year_start (int k) + (if k = 400 then 1 else 0)" for k
  have "f 0 \<le> doe" and "doe < f 400" using assms by (simp_all add: f_def year_start_def)
  then obtain k where k: "k < 400" "f k \<le> doe" "doe < f (Suc k)"
    using crossing_exists [of f doe 400] by blast
  show thesis
    by (rule that [of "int k"]) (use k in \<open>auto simp: f_def algebra_simps split: if_splits\<close>)
qed

text \<open>Day of the (March based) year against month and day, checked on all 366 days.\<close>

definition month_of_doy :: "int \<Rightarrow> int" where
  "month_of_doy doy = (let mp = (5 * doy + 2) div 153 in if mp < 10 then mp + 3 else mp - 9)"

definition day_of_doy :: "int \<Rightarrow> int" where
  "day_of_doy doy = (let mp = (5 * doy + 2) div 153 in doy - (153 * mp + 2) div 5 + 1)"

definition doy_of :: "int \<Rightarrow> int \<Rightarrow> int" where
  "doy_of m d = (153 * (if m > 2 then m - 3 else m + 9) + 2) div 5 + d - 1"

lemma doy_table:
  "list_all (\<lambda>doy. doy_of (month_of_doy doy) (day_of_doy doy) = doy
      \<and> 1 \<le> month_of_doy doy \<and> month_of_doy doy \<le> 12
      \<and> 1 \<le> day_of_doy doy \<and> day_of_doy doy \<le> 31
      \<and> (month_of_doy doy \<le> 2 \<longleftrightarrow> 306 \<le> doy)) [0..365]"
  by code_simp

lemma doy_inverse:
  assumes "0 \<le> doy" "doy \<le> 365"
  shows "doy_of (month_of_doy doy) (day_of_doy doy) = doy"
    and "1 \<le> month_of_doy doy" and "month_of_doy doy \<le> 12"
    and "1 \<le> day_of_doy doy" and "day_of_doy doy \<le> 31"
    and "month_of_doy doy \<le> 2 \<longleftrightarrow> 306 \<le> doy"
  using doy_table assms by (auto simp: list_all_iff)

lemma year_length:
  assumes "0 \<le> Y" "Y < 400" "year_start Y \<le> doe"
    and "doe < year_start (Y + 1) + (if Y = 399 then 1 else 0)"
  shows "0 \<le> doe - year_start Y" and "doe - year_start Y \<le> 365"
proof -
  have "(Y + 1) div 4 \<le> Y div 4 + 1" and "(Y + 1) div 100 \<ge> Y div 100"
    by (simp_all add: zdiv_mono1 div_Suc_int)
  moreover have "Y = 399 \<Longrightarrow> (Y + 1) div 100 = Y div 100 + 1" by simp
  ultimately show "0 \<le> doe - year_start Y" and "doe - year_start Y \<le> 365"
    using assms(3,4) by (auto simp: year_start_def split: if_splits)
qed

text \<open>The two algorithms in terms of the year and day decomposition.\<close>

lemma days_from_civil_alt:
  assumes "1 \<le> m"
  shows "days_from_civil y0 m d =
     (let y = (if m \<le> 2 then y0 - 1 else y0)
      in (y div 400) * 146097 + year_start (y mod 400) + doy_of m d - 719468)"
proof -
  have pos: "0 \<le> 153 * (if m > 2 then m - 3 else m + 9) + 2" using assms by simp
  have era: "(if y \<ge> 0 then y else y - 399) sdiv 400 = y div 400" for y :: int
    by (rule sdiv_floor) simp_all
  have yoe: "y - y div 400 * 400 = y mod 400" for y :: int
    by (simp add: minus_div_mult_eq_mod)
  show ?thesis
    unfolding days_from_civil_def Let_def era yoe year_start_def doy_of_def
    using sdiv_nonneg [OF pos, of 5] by (simp add: sdiv_nonneg)
qed

lemma civil_from_days_alt:
  assumes "z + 719468 = era * 146097 + doe" "0 \<le> doe" "doe < 146097"
    and Y: "0 \<le> Y" "Y < 400" "year_start Y \<le> doe"
    "doe < year_start (Y + 1) + (if Y = 399 then 1 else 0)"
  shows "civil_from_days z =
     (let doy = doe - year_start Y; m = month_of_doy doy
      in (if m \<le> 2 then Y + era * 400 + 1 else Y + era * 400, m, day_of_doy doy))"
proof -
  have "(if z + 719468 \<ge> 0 then z + 719468 else z + 719468 - 146096) sdiv 146097
      = (z + 719468) div 146097"
    by (rule sdiv_floor) simp_all
  also have "\<dots> = era" unfolding assms(1) using assms(2,3) by simp
  finally have era: "(if z + 719468 \<ge> 0 then z + 719468 else z + 719468 - 146096) sdiv 146097 = era" .
  have doe: "z + 719468 - era * 146097 = doe" using assms(1) by simp
  have sc: "doe_scaled doe \<ge> 0"
    using doe_scaled_mono [OF assms(2)] by (simp add: doe_scaled_def)
  have yoe: "(doe - doe sdiv 1460 + doe sdiv 36524 - doe sdiv 146096) sdiv 365 = Y"
    using year_of_era [OF Y] sc assms(2) by (simp add: sdiv_nonneg doe_scaled_def)
  have doy: "doe - (365 * Y + Y sdiv 4 - Y sdiv 100) = doe - year_start Y"
    using Y(1) by (simp add: sdiv_nonneg year_start_def)
  have dpos: "0 \<le> doe - year_start Y" by (rule year_length [OF Y])
  then have mpos: "0 \<le> (5 * (doe - year_start Y) + 2) div 153" by simp
  show ?thesis
    unfolding civil_from_days_def Let_def era doe yoe doy month_of_doy_def day_of_doy_def
    using dpos mpos by (simp add: sdiv_nonneg)
qed

text \<open>A Gregorian date: the month exists and the day exists in that month of that year.\<close>

definition leap_year :: "int \<Rightarrow> bool" where
  "leap_year y \<longleftrightarrow> 4 dvd y \<and> (\<not> 100 dvd y \<or> 400 dvd y)"

definition days_in_month :: "int \<Rightarrow> int \<Rightarrow> int" where
  "days_in_month y m =
     (if m = 2 then (if leap_year y then 29 else 28) else if m \<in> {4, 6, 9, 11} then 30 else 31)"

definition valid_date :: "int \<Rightarrow> int \<Rightarrow> int \<Rightarrow> bool" where
  "valid_date y m d \<longleftrightarrow> 1 \<le> m \<and> m \<le> 12 \<and> 1 \<le> d \<and> d \<le> days_in_month y m"

lemma era_split:
  obtains era doe Y where "z + 719468 = era * 146097 + doe" "0 \<le> doe" "doe < 146097"
    "0 \<le> Y" "Y < 400" "year_start Y \<le> doe"
    "doe < year_start (Y + 1) + (if Y = 399 then 1 else 0)"
proof -
  have b: "0 \<le> (z + 719468) mod 146097" "(z + 719468) mod 146097 < 146097" by simp_all
  from year_exists [OF this] obtain Y where
    Y: "0 \<le> Y" "Y < 400" "year_start Y \<le> (z + 719468) mod 146097"
    "(z + 719468) mod 146097 < year_start (Y + 1) + (if Y = 399 then 1 else 0)" .
  show thesis
    by (rule that [OF _ b Y, of "(z + 719468) div 146097"]) simp
qed

lemma days_from_civil_from_days:
  "(case civil_from_days z of (y, m, d) \<Rightarrow> days_from_civil y m d) = z"
proof -
  obtain era doe Y where sp: "z + 719468 = era * 146097 + doe" "0 \<le> doe" "doe < 146097"
    "0 \<le> Y" "Y < 400" "year_start Y \<le> doe"
    "doe < year_start (Y + 1) + (if Y = 399 then 1 else 0)" by (rule era_split)
  define doy where "doy = doe - year_start Y"
  have doy: "0 \<le> doy" "doy \<le> 365" unfolding doy_def by (rule year_length [OF sp(4-7)])+
  note inv = doy_inverse [OF doy]
  have md: "(Y + era * 400) mod 400 = Y" "(Y + era * 400) div 400 = era" using sp(4,5) by simp_all
  have "civil_from_days z = ((if month_of_doy doy \<le> 2 then Y + era * 400 + 1 else Y + era * 400),
      month_of_doy doy, day_of_doy doy)"
    using civil_from_days_alt [OF sp] by (simp add: doy_def Let_def)
  then show ?thesis
    using sp(1,4,5) inv(1,2) by (simp add: days_from_civil_alt md doy_def)
qed

lemma civil_from_days_ranges:
  assumes "civil_from_days z = (y, m, d)"
  shows "1 \<le> m" and "m \<le> 12" and "1 \<le> d" and "d \<le> 31"
proof -
  obtain era doe Y where sp: "z + 719468 = era * 146097 + doe" "0 \<le> doe" "doe < 146097"
    "0 \<le> Y" "Y < 400" "year_start Y \<le> doe"
    "doe < year_start (Y + 1) + (if Y = 399 then 1 else 0)" by (rule era_split)
  note inv = doy_inverse [OF year_length [OF sp(4-7)]]
  show "1 \<le> m" and "m \<le> 12" and "1 \<le> d" and "d \<le> 31"
    using assms inv civil_from_days_alt [OF sp] by (simp_all add: Let_def)
qed

lemma date_table:
  "list_all (\<lambda>m. list_all (\<lambda>d. d \<le> (if m = 2 then 29 else if m \<in> {4, 6, 9, 11} then 30 else 31) \<longrightarrow>
      month_of_doy (doy_of m d) = m \<and> day_of_doy (doy_of m d) = d
      \<and> 0 \<le> doy_of m d \<and> doy_of m d \<le> 365 \<and> (doy_of m d = 365 \<longrightarrow> m = 2 \<and> d = 29))
      [1..31]) [1..12]"
  by code_simp

lemma doy_of_valid:
  assumes "valid_date y m d"
  shows "month_of_doy (doy_of m d) = m" and "day_of_doy (doy_of m d) = d"
    and "0 \<le> doy_of m d" and "doy_of m d \<le> 365"
    and "doy_of m d = 365 \<Longrightarrow> m = 2 \<and> leap_year y"
proof -
  from assms have m: "m \<in> set [1..12]" and d: "d \<in> set [1..31]"
    and le: "d \<le> (if m = 2 then 29 else if m \<in> {4, 6, 9, 11} then 30 else 31)"
    by (auto simp: valid_date_def days_in_month_def split: if_splits)
  note t = date_table [unfolded list_all_iff, THEN bspec, OF m, THEN bspec, OF d, THEN mp, OF le]
  show "month_of_doy (doy_of m d) = m" and "day_of_doy (doy_of m d) = d"
    and "0 \<le> doy_of m d" and "doy_of m d \<le> 365"
    using t by simp_all
  show "m = 2 \<and> leap_year y" if "doy_of m d = 365"
    using t that assms by (auto simp: valid_date_def days_in_month_def split: if_splits)
qed

text \<open>A March-based year has 366 days exactly when the following January lies in a leap year.\<close>

lemma year_span:
  assumes "0 \<le> Y" "Y < 400"
  shows "year_start (Y + 1) + (if Y = 399 then 1 else 0) - year_start Y
      = (if leap_year (Y + era * 400 + 1) then 366 else 365)"
proof -
  have dv: "k dvd Y + era * 400 + 1 \<longleftrightarrow> k dvd Y + 1" if "k dvd 400" for k :: int
  proof -
    have "Y + era * 400 + 1 = (Y + 1) + era * 400" by simp
    moreover have "k dvd era * 400" using that by simp
    ultimately show ?thesis by (metis dvd_add_left_iff)
  qed
  have "400 dvd Y + 1 \<longleftrightarrow> Y = 399"
    using assms by presburger
  then show ?thesis
    by (auto simp: year_start_def leap_year_def dv div_Suc_int)
qed

lemma civil_from_days_from_civil:
  assumes "valid_date y m d"
  shows "civil_from_days (days_from_civil y m d) = (y, m, d)"
proof -
  note v = doy_of_valid [OF assms]
  define y' where "y' = (if m \<le> 2 then y - 1 else y)"
  define Y where "Y = y' mod 400"
  define doe where "doe = year_start Y + doy_of m d"
  have Y: "0 \<le> Y" "Y < 400" by (simp_all add: Y_def)
  have Yera: "Y + y' div 400 * 400 = y'" by (simp add: Y_def)
  have "1 \<le> m" using assms by (simp add: valid_date_def)
  then have eq: "days_from_civil y m d + 719468 = y' div 400 * 146097 + doe"
    by (simp add: days_from_civil_alt doe_def Y_def y'_def Let_def)
  have span: "doy_of m d < year_start (Y + 1) + (if Y = 399 then 1 else 0) - year_start Y"
    unfolding year_span [OF Y, of "y' div 400"] Yera using v(3-5) by (force simp: y'_def)
  then have lt: "doe < year_start (Y + 1) + (if Y = 399 then 1 else 0)" by (simp add: doe_def)
  have ge: "year_start Y \<le> doe" using v by (simp add: doe_def)
  have "0 \<le> year_start Y" "year_start (Y + 1) + (if Y = 399 then 1 else 0) \<le> 146097"
    using Y by (auto simp: year_start_def)
  then have "0 \<le> doe" "doe < 146097" using ge lt by linarith+
  from civil_from_days_alt [OF eq this Y ge lt] v show ?thesis
    using Yera by (auto simp: doe_def Let_def y'_def)
qed

lemma civil_from_days_valid:
  "case civil_from_days z of (y, m, d) \<Rightarrow> valid_date y m d"
proof -
  obtain era doe Y where sp: "z + 719468 = era * 146097 + doe" "0 \<le> doe" "doe < 146097"
    "0 \<le> Y" "Y < 400" "year_start Y \<le> doe"
    "doe < year_start (Y + 1) + (if Y = 399 then 1 else 0)" by (rule era_split)
  define doy where "doy = doe - year_start Y"
  have doy: "0 \<le> doy" "doy \<le> 365" unfolding doy_def by (rule year_length [OF sp(4-7)])+
  have leap: "doy = 365 \<Longrightarrow> leap_year (Y + era * 400 + 1)"
    using sp(7) year_span [OF sp(4,5), of era] by (auto simp: doy_def split: if_splits)
  have tab: "list_all (\<lambda>doy. day_of_doy doy \<le> (if month_of_doy doy = 2
       then (if doy = 365 then 29 else 28) else days_in_month 0 (month_of_doy doy))) [0..365]"
    by code_simp
  then have "day_of_doy doy \<le> (if month_of_doy doy = 2
       then (if doy = 365 then 29 else 28) else days_in_month 0 (month_of_doy doy))"
    using doy by (auto simp: list_all_iff)
  then show ?thesis
    using civil_from_days_alt [OF sp] doy_inverse [OF doy] leap
    by (auto simp: doy_def Let_def valid_date_def days_in_month_def split: if_splits)
qed

text \<open>The year of a day is between 1 and 9999 exactly for the days from 0001-01-01 to 9999-12-31.\<close>

definition civil_year_start :: "int \<Rightarrow> int" where
  "civil_year_start y = 365 * y + y div 4 - y div 100 + y div 400"

lemma era_year_start: "(y div 400) * 146097 + year_start (y mod 400) = civil_year_start y"
proof -
  have k: "(y mod 400) div k = y div k - (400 div k) * (y div 400)" if "k dvd 400" "0 < k" for k :: int
  proof -
    from that(1) obtain j where j: "400 = k * j" by blast
    then have "400 div k = j" using that(2) by (metis nonzero_mult_div_cancel_left less_irrefl)
    have "y = k * (j * (y div 400)) + y mod 400"
      using mult_div_mod_eq [of 400 y] unfolding j by (simp add: mult.assoc)
    then have "y div k = (k * (j * (y div 400)) + y mod 400) div k" by simp
    also have "\<dots> = j * (y div 400) + (y mod 400) div k" using that(2) by simp
    finally show ?thesis using \<open>400 div k = j\<close> by simp
  qed
  have "year_start (y mod 400) = 365 * (y mod 400) + (y div 4 - 100 * (y div 400)) - (y div 100 - 4 * (y div 400))"
    using k [of 4] k [of 100] by (simp add: year_start_def)
  moreover have "y mod 400 = y - 400 * (y div 400)" using mult_div_mod_eq [of 400 y] by linarith
  ultimately show ?thesis by (simp add: civil_year_start_def)
qed

lemma civil_year_start_step: "civil_year_start y + 365 \<le> civil_year_start (y + 1)"
proof -
  have "400 dvd y + 1 \<Longrightarrow> 100 dvd y + 1" by (rule dvd_trans [of 100 400]) simp_all
  moreover have "100 dvd y + 1 \<Longrightarrow> 4 dvd y + 1" by (rule dvd_trans [of 4 100]) simp_all
  ultimately show ?thesis by (auto simp: civil_year_start_def div_Suc_int)
qed

lemma civil_year_start_mono: "a \<le> b \<Longrightarrow> civil_year_start a \<le> civil_year_start b"
proof -
  assume "a \<le> b"
  have "civil_year_start a \<le> civil_year_start (a + int k)" for k
  proof (induction k)
    case (Suc k)
    from civil_year_start_step [of "a + int k"] Suc show ?case by (simp add: algebra_simps)
  qed simp
  from this [of "nat (b - a)"] \<open>a \<le> b\<close> show ?thesis by simp
qed

lemma civil_from_days_position:
  assumes "civil_from_days z = (y, m, d)"
  obtains Y doy where "z + 719468 = civil_year_start Y + doy" "0 \<le> doy" "doy \<le> 365"
    "m \<le> 2 \<longleftrightarrow> 306 \<le> doy" "y = (if m \<le> 2 then Y + 1 else Y)"
proof -
  have v: "valid_date y m d" using civil_from_days_valid [of z] assms by simp
  have m1: "1 \<le> m" using v by (simp add: valid_date_def)
  have z: "z = days_from_civil y m d" using days_from_civil_from_days [of z] assms by simp
  note dv = doy_of_valid [OF v]
  have "m \<le> 2 \<longleftrightarrow> 306 \<le> doy_of m d"
    using doy_inverse(6) [OF dv(3,4)] dv(1) by simp
  then show thesis
    by (intro that [of "if m \<le> 2 then y - 1 else y" "doy_of m d"])
      (use dv(3,4) in \<open>simp_all add: z days_from_civil_alt [OF m1] Let_def era_year_start\<close>)
qed

lemma year_in_range_iff:
  assumes "civil_from_days z = (y, m, d)"
  shows "1 \<le> y \<and> y \<le> 9999 \<longleftrightarrow> -719162 \<le> z \<and> z \<le> 2932896"
proof -
  obtain Y doy where p: "z + 719468 = civil_year_start Y + doy" "0 \<le> doy" "doy \<le> 365"
    "m \<le> 2 \<longleftrightarrow> 306 \<le> doy" "y = (if m \<le> 2 then Y + 1 else Y)"
    using civil_from_days_position [OF assms] by blast
  have low: "Y \<le> -1 \<Longrightarrow> civil_year_start Y \<le> -366" and low0: "0 \<le> Y \<Longrightarrow> 0 \<le> civil_year_start Y"
    and low1: "1 \<le> Y \<Longrightarrow> 365 \<le> civil_year_start Y"
    and hi0: "Y \<le> 9998 \<Longrightarrow> civil_year_start Y \<le> 3651694"
    and hi: "Y \<le> 9999 \<Longrightarrow> civil_year_start Y \<le> 3652059"
    and hi1: "10000 \<le> Y \<Longrightarrow> 3652425 \<le> civil_year_start Y"
    and hi2: "9999 \<le> Y \<Longrightarrow> 3652059 \<le> civil_year_start Y"
    and low2: "Y \<le> 0 \<Longrightarrow> civil_year_start Y \<le> 0"
    using civil_year_start_mono [of Y 0] civil_year_start_mono [of Y "-1"] civil_year_start_mono [of 0 Y] civil_year_start_mono [of 1 Y]
      civil_year_start_mono [of Y 9998] civil_year_start_mono [of Y 9999]
      civil_year_start_mono [of 10000 Y] civil_year_start_mono [of 9999 Y]
    by (simp_all add: civil_year_start_def)
  show ?thesis
  proof (cases "m \<le> 2")
    case True
    then have "306 \<le> doy" "y = Y + 1" using p(4,5) by simp_all
    moreover have "Y \<le> -1 \<or> 0 \<le> Y" "Y \<le> 9998 \<or> 9999 \<le> Y" by linarith+
    ultimately show ?thesis using p(1-3) low low0 hi0 hi2 by auto
  next
    case False
    then have "doy < 306" "y = Y" using p(4,5) by simp_all
    moreover have "Y \<le> 0 \<or> 1 \<le> Y" "Y \<le> 9999 \<or> 10000 \<le> Y" by linarith+
    ultimately show ?thesis using p(1-3) low1 low2 hi hi1 by auto
  qed
qed

end
