(* ===== verification/Isotime.thy ===== *)
theory Isotime
  imports Civil_Date Rust_Str
begin

text \<open>
  The RFC 3339 arithmetic of \<^verbatim>\<open>cp/isotime.rs\<close>: civil dates, parsing and formatting of
  millisecond timestamps, and normalisation to canonical UTC text. A Rust \<^verbatim>\<open>&str\<close> is the list
  of its UTF-8 bytes (\<open>char\<close> is a byte); all separators the parser looks for are ASCII, so
  splitting bytes is splitting characters. \<^verbatim>\<open>i64\<close> values are \<open>int\<close>; the parser bounds
  every field before any arithmetic, and \<open>parse_epoch_millis_bounds\<close> shows that no
  intermediate value comes near the range of \<^verbatim>\<open>i64\<close>. Not modelled: \<^verbatim>\<open>add_seconds\<close>, whose
  offset is a floating-point number.
\<close>

section \<open>Parsing and formatting\<close>

definition parse_time_and_offset :: "string \<Rightarrow> (string \<times> int) option" where
  "parse_time_and_offset time_part =
     (case strip_suffix1 (CHR ''Z'') time_part of
        Some t \<Rightarrow> Some (t, 0)
      | None \<Rightarrow>
        if 6 \<le> length time_part then
          let split = length time_part - 6 in
          if \<not> is_char_boundary time_part split then None
          else
            let rest = take split time_part; offset_str = drop split time_part;
                sign_byte = hd offset_str in
            if sign_byte = CHR ''+'' \<or> sign_byte = CHR ''-'' then
              (case split_on (CHR '':'') (tl offset_str) of
                 p0 # p1 # _ \<Rightarrow>
                   (case parse_i64 p0 of None \<Rightarrow> None
                    | Some oh \<Rightarrow>
                      (case parse_i64 p1 of None \<Rightarrow> None
                       | Some om \<Rightarrow>
                         if \<not> (0 \<le> oh \<and> oh \<le> 23) \<or> \<not> (0 \<le> om \<and> om \<le> 59) then None
                         else Some (rest, (if sign_byte = CHR ''+'' then 1 else -1)
                                            * (oh * 3600 + om * 60))))
               | _ \<Rightarrow> None)
            else Some (time_part, 0)
        else Some (time_part, 0))"

text \<open>The first three fractional digits as milliseconds; missing digits count as zero.\<close>

definition frac_millis :: "string \<Rightarrow> int" where
  "frac_millis frac =
     (let digits = filter is_ascii_digit frac;
          d = (\<lambda>i. if i < length digits then digit_value (digits ! i) else 0)
      in d 0 * 100 + d 1 * 10 + d 2)"

definition parse_date :: "string \<Rightarrow> (int \<times> int \<times> int) option" where
  "parse_date date =
     (case split_on (CHR ''-'') date of
        a # b # c # _ \<Rightarrow>
          (case parse_i64 a of None \<Rightarrow> None | Some y \<Rightarrow>
          (case parse_i64 b of None \<Rightarrow> None | Some mo \<Rightarrow>
          (case parse_i64 c of None \<Rightarrow> None | Some d \<Rightarrow>
             if \<not> (1 \<le> y \<and> y \<le> 9999) \<or> \<not> (1 \<le> mo \<and> mo \<le> 12) \<or> \<not> (1 \<le> d \<and> d \<le> 31)
             then None else Some (y, mo, d))))
      | _ \<Rightarrow> None)"

definition parse_hms :: "string \<Rightarrow> (int \<times> int \<times> int) option" where
  "parse_hms hms =
     (case split_on (CHR '':'') hms of
        a # b # more \<Rightarrow>
          (case parse_i64 a of None \<Rightarrow> None | Some h \<Rightarrow>
          (case parse_i64 b of None \<Rightarrow> None | Some mi \<Rightarrow>
          (case parse_i64 (case more of [] \<Rightarrow> ''0'' | c # _ \<Rightarrow> c) of None \<Rightarrow> None | Some s \<Rightarrow>
             if \<not> (0 \<le> h \<and> h \<le> 24) \<or> \<not> (0 \<le> mi \<and> mi \<le> 59) \<or> \<not> (0 \<le> s \<and> s \<le> 60)
             then None else Some (h, mi, s))))
      | _ \<Rightarrow> None)"

definition parse_epoch_millis :: "string \<Rightarrow> int option" where
  "parse_epoch_millis ts =
     (case split_once (CHR ''T'') ts of None \<Rightarrow> None
      | Some (date, time_part) \<Rightarrow>
     (case parse_time_and_offset time_part of None \<Rightarrow> None
      | Some (time, offset_secs) \<Rightarrow>
     (case parse_date date of None \<Rightarrow> None
      | Some (y, mo, d) \<Rightarrow>
     (let (hms, frac) = (case split_once (CHR ''.'') time of Some (a, b) \<Rightarrow> (a, b)
                          | None \<Rightarrow> (time, [])) in
      case parse_hms hms of None \<Rightarrow> None
      | Some (h, mi, s) \<Rightarrow>
        let millis = (if frac \<noteq> [] then frac_millis frac else 0);
            days = days_from_civil y mo d
        in Some ((days * 86400 + h * 3600 + mi * 60 + s - offset_secs) * 1000 + millis)))))"

text \<open>\<^verbatim>\<open>div_euclid\<close> and \<^verbatim>\<open>rem_euclid\<close> by a positive divisor are HOL's \<open>div\<close> and \<open>mod\<close>.\<close>

definition civil_utc :: "int \<Rightarrow> int \<times> int \<times> int \<times> int \<times> int \<times> int" where
  "civil_utc epoch_millis =
     (let total_secs = epoch_millis div 1000;
          days = total_secs div 86400;
          sod = total_secs mod 86400;
          (y, mo, d) = civil_from_days days
      in (y, mo, d, sod sdiv 3600, (sod smod 3600) sdiv 60, sod smod 60))"

definition format_epoch_millis :: "int \<Rightarrow> string" where
  "format_epoch_millis epoch_millis =
     (let total_secs = epoch_millis div 1000;
          millis = epoch_millis mod 1000;
          days = total_secs div 86400;
          sod = total_secs mod 86400;
          (y, mo, d) = civil_from_days days;
          h = sod sdiv 3600; mi = (sod smod 3600) sdiv 60; s = sod smod 60
      in fmt_int 4 y @ ''-'' @ fmt_int 2 mo @ ''-'' @ fmt_int 2 d @ ''T'' @
         fmt_int 2 h @ '':'' @ fmt_int 2 mi @ '':'' @ fmt_int 2 s @ ''.'' @ fmt_int 3 millis @ ''Z'')"

definition normalize_to_utc :: "string \<Rightarrow> string" where
  "normalize_to_utc ts =
     (case parse_epoch_millis ts of Some ms \<Rightarrow> format_epoch_millis ms | None \<Rightarrow> ts)"

section \<open>Fixed-width fields\<close>

lemma fmt_3:
  assumes "n < 1000"
  shows "zero_pad 3 (show_nat n) = [digit_char (n div 100), digit_char (n div 10 mod 10), digit_char (n mod 10)]"
proof -
  have "n div 10 div 10 = n div 100" by (simp flip: div_mult2_eq)
  consider "n < 10" | "\<not> n < 10" "n < 100" | "\<not> n < 10" "\<not> n div 10 < 10" by linarith
  then show ?thesis
  proof cases
    case 1
    then show ?thesis by (simp add: show_nat_1 zero_pad_def digit_char_0 numeral_2_eq_2)
  next
    case 2
    then have "n div 10 < 10" by simp
    with 2 show ?thesis
      by (simp add: show_nat_step [of n] show_nat_1 zero_pad_def digit_char_0)
  next
    case 3
    moreover have "n div 10 div 10 < 10" using assms by simp
    ultimately show ?thesis
      by (simp add: show_nat_step [of n] show_nat_step [of "n div 10"] show_nat_1 zero_pad_def
          flip: div_mult2_eq)
  qed
qed

lemma frac_fmt:
  assumes "0 \<le> ms" "ms < 1000"
  shows "frac_millis (fmt_int 3 ms) = ms"
proof -
  define n where "n = nat ms"
  have n: "n < 1000" "ms = int n" using assms by (simp_all add: n_def)
  have "n div 100 < 10" using n by simp
  then have "frac_millis (zero_pad 3 (show_nat n))
      = int (n div 100) * 100 + int (n div 10 mod 10) * 10 + int (n mod 10)"
    unfolding fmt_3 [OF n(1)] by (simp add: frac_millis_def Let_def)
  also have "\<dots> = int n"
  proof -
    have "n div 100 = n div 10 div 10" by (simp flip: div_mult2_eq)
    then have "n div 100 * 10 + n div 10 mod 10 = n div 10" by simp
    then have "n div 100 * 100 + n div 10 mod 10 * 10 = n div 10 * 10" by simp
    then have "n div 100 * 100 + n div 10 mod 10 * 10 + n mod 10 = n" by simp
    from arg_cong [OF this, of int] show ?thesis
      by (simp only: of_nat_add of_nat_mult of_nat_numeral)
  qed
  finally show ?thesis using n by (simp add: fmt_int_def)
qed

lemma smod_nonneg: "0 \<le> a \<Longrightarrow> 0 < b \<Longrightarrow> a smod b = a mod (b::int)"
proof -
  assume "0 \<le> a" "0 < b"
  then show ?thesis
    by (cases "a = 0") (simp_all add: signed_modulo_int_def)
qed

lemma fmt_sep [simp]:
  assumes "0 \<le> n"
  shows "CHR ''-'' \<notin> set (fmt_int w n)" "CHR '':'' \<notin> set (fmt_int w n)"
    "CHR ''.'' \<notin> set (fmt_int w n)" "CHR ''T'' \<notin> set (fmt_int w n)"
  using digit_not_in [OF fmt_int_nonneg(2) [OF assms]] by auto

section \<open>Round trip of the timestamp text\<close>

lemma parse_date_fmt:
  assumes "1 \<le> y" "y \<le> 9999" "1 \<le> mo" "mo \<le> 12" "1 \<le> d" "d \<le> 31"
  shows "parse_date (fmt_int 4 y @ ''-'' @ fmt_int 2 mo @ ''-'' @ fmt_int 2 d) = Some (y, mo, d)"
  using assms
  by (simp add: parse_date_def split_on_app split_on_none parse_fmt_int i64_max_value)

lemma parse_hms_fmt:
  assumes "0 \<le> h" "h \<le> 24" "0 \<le> mi" "mi \<le> 59" "0 \<le> s" "s \<le> 60"
  shows "parse_hms (fmt_int 2 h @ '':'' @ fmt_int 2 mi @ '':'' @ fmt_int 2 s) = Some (h, mi, s)"
  using assms
  by (simp add: parse_hms_def split_on_app split_on_none parse_fmt_int i64_max_value)

lemma time_zulu:
  "parse_time_and_offset (t @ ''Z'') = Some (t, 0)"
  by (simp add: parse_time_and_offset_def strip_suffix1_def)

text \<open>Splitting a millisecond count into day, second of the day and milliseconds is lossless.\<close>

lemma millis_recompose:
  "(ms div 1000 div 86400 * 86400 + (sod div 3600) * 3600 + (sod mod 3600) div 60 * 60
     + sod mod 60) * 1000 + ms mod 1000 = (ms::int)"
  if "sod = ms div 1000 mod 86400"
proof -
  have "sod mod 60 = (sod mod 3600) mod 60" by (simp add: mod_mod_cancel)
  then have "(sod mod 3600) div 60 * 60 + sod mod 60 = sod mod 3600" by simp
  then have "(sod div 3600) * 3600 + (sod mod 3600) div 60 * 60 + sod mod 60 = sod"
    by (simp add: add.assoc)
  then have "ms div 1000 div 86400 * 86400 + (sod div 3600) * 3600 + (sod mod 3600) div 60 * 60
     + sod mod 60 = ms div 1000 div 86400 * 86400 + sod"
    by (simp only: add.assoc)
  also have "\<dots> = ms div 1000" by (simp add: that)
  finally show ?thesis by simp
qed

lemma parse_format_epoch_millis_fields:
  assumes "civil_from_days (ms div 1000 div 86400) = (y, mo, d)" and y: "1 \<le> y" "y \<le> 9999"
  shows "parse_epoch_millis (format_epoch_millis ms) = Some ms"
proof -
  define sod where "sod = ms div 1000 mod 86400"
  define h where "h = sod div 3600"
  define mi where "mi = sod mod 3600 div 60"
  define s where "s = sod mod 60"
  have sod: "0 \<le> sod" "sod < 86400" by (simp_all add: sod_def)
  have hms: "0 \<le> h" "h \<le> 24" "0 \<le> mi" "mi \<le> 59" "0 \<le> s" "s \<le> 60"
  proof -
    have "t div 60 \<le> 59" if "t < 3600" for t :: int using that by presburger
    then show "mi \<le> 59" by (simp add: mi_def)
    show "h \<le> 24" using sod(2) unfolding h_def by presburger
    show "s \<le> 60" using pos_mod_bound [of 60 sod] unfolding s_def by linarith
  qed (use sod in \<open>simp_all add: h_def mi_def s_def pos_imp_zdiv_nonneg_iff\<close>)
  note mdr = civil_from_days_ranges [OF assms(1)]
  have msr: "0 \<le> ms mod 1000" "ms mod 1000 < 1000" by simp_all
  have shape: "format_epoch_millis ms =
     (fmt_int 4 y @ ''-'' @ fmt_int 2 mo @ ''-'' @ fmt_int 2 d) @ CHR ''T'' #
     (((fmt_int 2 h @ '':'' @ fmt_int 2 mi @ '':'' @ fmt_int 2 s) @ CHR ''.'' # fmt_int 3 (ms mod 1000)) @ ''Z'')"
    using sod assms(1)
    by (simp add: format_epoch_millis_def Let_def sdiv_nonneg smod_nonneg
        flip: sod_def h_def mi_def s_def)
  have again: "(days_from_civil y mo d * 86400 + h * 3600 + mi * 60 + s) * 1000 + ms mod 1000 = ms"
    using days_from_civil_from_days [of "ms div 1000 div 86400"] assms(1)
      millis_recompose [OF sod_def] by (simp add: h_def mi_def s_def)
  have t1: "split_once (CHR ''T'') (format_epoch_millis ms) = Some
     (fmt_int 4 y @ ''-'' @ fmt_int 2 mo @ ''-'' @ fmt_int 2 d,
      ((fmt_int 2 h @ '':'' @ fmt_int 2 mi @ '':'' @ fmt_int 2 s) @ CHR ''.'' # fmt_int 3 (ms mod 1000)) @ ''Z'')"
    unfolding shape by (rule split_once_app) (use y mdr in simp)
  have t2: "split_once (CHR ''.'') ((fmt_int 2 h @ '':'' @ fmt_int 2 mi @ '':'' @ fmt_int 2 s)
        @ CHR ''.'' # fmt_int 3 (ms mod 1000))
      = Some (fmt_int 2 h @ '':'' @ fmt_int 2 mi @ '':'' @ fmt_int 2 s, fmt_int 3 (ms mod 1000))"
    by (rule split_once_app) (use hms in simp)
  show ?thesis
    unfolding parse_epoch_millis_def t1
    using parse_date_fmt [OF y mdr] parse_hms_fmt [OF hms] frac_fmt [OF msr] again
      fmt_int_nonneg(3) [OF msr(1), of 3]
    by (simp add: time_zulu t2 Let_def del: append_assoc append_Cons append.simps)
qed

lemma T_not_in_fmt: "CHR ''T'' \<notin> set (fmt_int w n)"
proof (cases "0 \<le> n")
  case False
  have "CHR ''T'' \<notin> set (zero_pad k (show_nat j))" for k j
    by (rule digit_not_in) (simp_all add: zero_pad_props show_nat_digits)
  with False show ?thesis by (simp add: fmt_int_def)
qed simp

lemma parse_date_out_of_range:
  assumes "\<not> (1 \<le> y \<and> y \<le> 9999)"
  shows "parse_date (fmt_int 4 y @ CHR ''-'' # rest) = None"
proof (cases "0 \<le> y")
  case True
  have "parse_i64 (fmt_int 4 y) \<in> {None, Some y}"
    using fmt_int_nonneg [OF True, of 4]
    by (cases "fmt_int 4 y") (auto simp: parse_i64_def Let_def is_ascii_digit_def byte_def)
  then show ?thesis
    using assms True by (auto simp: parse_date_def split_on_app split: option.splits list.splits)
next
  case False
  then have "\<exists>p. split_on (CHR ''-'') (fmt_int 4 y @ CHR ''-'' # rest) = [] # p"
    by (simp add: fmt_int_def)
  moreover have "parse_i64 [] = None" by (simp add: parse_i64_def)
  ultimately show ?thesis by (auto simp: parse_date_def split: list.splits)
qed

lemma parse_format_out_of_range:
  assumes c: "civil_from_days (ms div 1000 div 86400) = (y, mo, d)"
    and "\<not> (1 \<le> y \<and> y \<le> 9999)"
  shows "parse_epoch_millis (format_epoch_millis ms) = None"
proof -
  have "\<exists>t. format_epoch_millis ms =
      (fmt_int 4 y @ CHR ''-'' # fmt_int 2 mo @ ''-'' @ fmt_int 2 d) @ CHR ''T'' # t"
    using c by (simp add: format_epoch_millis_def Let_def)
  then obtain t where "format_epoch_millis ms =
      (fmt_int 4 y @ CHR ''-'' # fmt_int 2 mo @ ''-'' @ fmt_int 2 d) @ CHR ''T'' # t" ..
  then have "split_once (CHR ''T'') (format_epoch_millis ms) =
      Some (fmt_int 4 y @ CHR ''-'' # fmt_int 2 mo @ ''-'' @ fmt_int 2 d, t)"
    by (simp only:) (rule split_once_app, simp add: T_not_in_fmt)
  then show ?thesis
    by (simp add: parse_epoch_millis_def parse_date_out_of_range [OF assms(2)]
        split: option.splits prod.splits)
qed

lemma parse_format_epoch_millis:
  "parse_epoch_millis (format_epoch_millis ms) =
     (if -62135596800000 \<le> ms \<and> ms \<le> 253402300799999 then Some ms else None)"
proof -
  obtain y mo d where c: "civil_from_days (ms div 1000 div 86400) = (y, mo, d)"
    by (cases "civil_from_days (ms div 1000 div 86400)") auto
  define q where "q = ms div 1000 div 86400"
  define r where "r = ms mod 86400000"
  have q: "q = ms div 86400000" by (simp add: q_def flip: zdiv_zmult2_eq)
  have "ms = 86400000 * q + r" "0 \<le> r" "r < 86400000" by (simp_all add: q r_def)
  then have "-719162 \<le> q \<and> q \<le> 2932896 \<longleftrightarrow> -62135596800000 \<le> ms \<and> ms \<le> 253402300799999"
    by linarith
  then have "-719162 \<le> ms div 1000 div 86400 \<and> ms div 1000 div 86400 \<le> 2932896
      \<longleftrightarrow> -62135596800000 \<le> ms \<and> ms \<le> 253402300799999" by (simp only: q_def)
  with year_in_range_iff [OF c]
  have iff: "1 \<le> y \<and> y \<le> 9999 \<longleftrightarrow> -62135596800000 \<le> ms \<and> ms \<le> 253402300799999" by simp
  show ?thesis
  proof (cases "1 \<le> y \<and> y \<le> 9999")
    case True
    with parse_format_epoch_millis_fields [OF c] iff show ?thesis by simp
  next
    case False
    have "parse_epoch_millis (format_epoch_millis ms) = None"
      by (rule parse_format_out_of_range [OF c False])
    with False iff show ?thesis by simp
  qed
qed

section \<open>Bounds\<close>

lemma frac_millis_bounds: "0 \<le> frac_millis f \<and> frac_millis f \<le> 999"
proof -
  define ds where "ds = filter is_ascii_digit f"
  have "0 \<le> (if i < length ds then digit_value (ds ! i) else 0)
      \<and> (if i < length ds then digit_value (ds ! i) else 0) \<le> 9" for i
    using nth_mem [of i ds] by (auto simp: ds_def is_ascii_digit_def digit_value_def)
  from this [of 0] this [of 1] this [of 2] show ?thesis
    unfolding frac_millis_def Let_def ds_def [symmetric] by linarith
qed

lemma parse_time_and_offset_bounds:
  "parse_time_and_offset t = Some (u, off) \<Longrightarrow> -86340 \<le> off \<and> off \<le> 86340"
  by (auto simp: parse_time_and_offset_def Let_def split: option.splits if_splits list.splits)

lemma parse_date_bounds:
  "parse_date t = Some (y, mo, d) \<Longrightarrow> 1 \<le> y \<and> y \<le> 9999 \<and> 1 \<le> mo \<and> mo \<le> 12 \<and> 1 \<le> d \<and> d \<le> 31"
  by (auto simp: parse_date_def split: option.splits if_splits list.splits)

lemma parse_hms_bounds:
  "parse_hms t = Some (h, mi, s) \<Longrightarrow> 0 \<le> h \<and> h \<le> 24 \<and> 0 \<le> mi \<and> mi \<le> 59 \<and> 0 \<le> s \<and> s \<le> 60"
  by (auto simp: parse_hms_def split: option.splits if_splits list.splits)

lemma days_from_civil_bounds:
  assumes "1 \<le> y" "y \<le> 9999" "1 \<le> m" "m \<le> 12" "1 \<le> d" "d \<le> 31"
  shows "-719468 \<le> days_from_civil y m d" and "days_from_civil y m d \<le> 2932958"
proof -
  define y' where "y' = (if m \<le> 2 then y - 1 else y)"
  have "0 \<le> y'" "y' \<le> 9999" using assms by (simp_all add: y'_def)
  then have "0 \<le> civil_year_start y'" "civil_year_start y' \<le> 3652059"
    using civil_year_start_mono [of 0 y'] civil_year_start_mono [of y' 9999]
    by (simp_all add: civil_year_start_def)
  moreover have "0 \<le> doy_of m d" "doy_of m d \<le> 367"
    using assms by (auto simp: doy_of_def)
  moreover have "days_from_civil y m d = civil_year_start y' + doy_of m d - 719468"
    using days_from_civil_alt [OF assms(3), of y d] by (simp add: Let_def y'_def era_year_start)
  ultimately show "-719468 \<le> days_from_civil y m d" and "days_from_civil y m d \<le> 2932958"
    by linarith+
qed

lemma parse_epoch_millis_bounds:
  assumes "parse_epoch_millis ts = Some ms"
  shows "-62162121540000 \<le> ms" and "ms \<le> 253407747540999"
proof -
  obtain date tp where 1: "split_once (CHR ''T'') ts = Some (date, tp)"
    using assms by (auto simp: parse_epoch_millis_def split: option.splits)
  obtain time off where 2: "parse_time_and_offset tp = Some (time, off)"
    using assms 1 by (auto simp: parse_epoch_millis_def split: option.splits)
  obtain y mo d where 3: "parse_date date = Some (y, mo, d)"
    using assms 1 2 by (auto simp: parse_epoch_millis_def split: option.splits)
  obtain hms frac where 4: "(case split_once (CHR ''.'') time of Some (a, b) \<Rightarrow> (a, b)
      | None \<Rightarrow> (time, [])) = (hms, frac)" by fastforce
  obtain h mi s where 5: "parse_hms hms = Some (h, mi, s)"
    using assms 1 2 3 4 by (auto simp: parse_epoch_millis_def Let_def split: option.splits)
  define fm where "fm = (if frac \<noteq> [] then frac_millis frac else 0)"
  define t where "t = days_from_civil y mo d * 86400 + h * 3600 + mi * 60 + s - off"
  have "ms = t * 1000 + fm" unfolding t_def
    using assms unfolding parse_epoch_millis_def 1 2 3 4 5 option.case prod.case Let_def fm_def
    by (simp only: 5 option.case prod.case option.inject)
  moreover have "0 \<le> fm" "fm \<le> 999" using frac_millis_bounds [of frac] by (simp_all add: fm_def)
  moreover have "-719468 \<le> days_from_civil y mo d" "days_from_civil y mo d \<le> 2932958"
    using days_from_civil_bounds [of y mo d] parse_date_bounds [OF 3] by simp_all
  moreover have "-86340 \<le> off" "off \<le> 86340"
    using parse_time_and_offset_bounds [OF 2] by simp_all
  moreover have "0 \<le> h" "h \<le> 24" "0 \<le> mi" "mi \<le> 59" "0 \<le> s" "s \<le> 60"
    using parse_hms_bounds [OF 5] by simp_all
  moreover from calculation have "-62162121540 \<le> t" "t \<le> 253407747540"
    unfolding t_def by linarith+
  ultimately show "-62162121540000 \<le> ms" and "ms \<le> 253407747540999" by linarith+
qed

section \<open>Canonical text\<close>

text \<open>
  The interface the rest of the service relies on: an encoder and a decoder where decoding an
  encoding never yields a different value. It is what makes "parse, then format, then compare"
  a test for canonical text, and normalisation idempotent.
\<close>

locale canonical_codec =
  fixes enc :: "'a \<Rightarrow> 't" and dec :: "'t \<Rightarrow> 'a option"
  assumes dec_enc: "dec (enc x) = Some y \<Longrightarrow> y = x"
begin

lemma normalize_idem:
  "(case dec (case dec t of Some x \<Rightarrow> enc x | None \<Rightarrow> t) of Some x \<Rightarrow> enc x
     | None \<Rightarrow> (case dec t of Some x \<Rightarrow> enc x | None \<Rightarrow> t))
   = (case dec t of Some x \<Rightarrow> enc x | None \<Rightarrow> t)"
  by (auto split: option.splits dest: dec_enc)

lemma normalize_meaning:
  assumes "dec t = Some x" and "dec (enc x) \<noteq> None"
  shows "dec (case dec t of Some x \<Rightarrow> enc x | None \<Rightarrow> t) = dec t"
  using assms dec_enc by fastforce

lemma canonical_iff:
  "(\<exists>x. dec t = Some x \<and> enc x = t) \<longleftrightarrow> (\<exists>x. t = enc x \<and> dec (enc x) \<noteq> None)"
  using dec_enc by fastforce

end

interpretation iso: canonical_codec format_epoch_millis parse_epoch_millis
  by unfold_locales (simp add: parse_format_epoch_millis split: if_splits)

section \<open>Properties\<close>

text \<open>C34. The civil-date conversions are inverse to each other: every day number has a valid
  proleptic Gregorian date that maps back to it, and every valid date is the date of its day number.\<close>

theorem civil_dates_bijective:
  "(case civil_from_days z of (y, m, d) \<Rightarrow> valid_date y m d \<and> days_from_civil y m d = z)
   \<and> (\<forall>y m d. valid_date y m d \<longrightarrow> civil_from_days (days_from_civil y m d) = (y, m, d))"
  using days_from_civil_from_days [of z] civil_from_days_valid [of z] civil_from_days_from_civil
  by (auto split: prod.splits)

theorem civil_dates_bijective_witness:
  "valid_date 2024 2 29 \<and> civil_from_days (days_from_civil 2024 2 29) = (2024, 2, 29)"
  using civil_dates_bijective [of 0] by (auto simp: valid_date_def days_in_month_def leap_year_def)

text \<open>C33. Parsing the formatted text of an instant gives the instant back exactly for the years 1 to
  9999, and is refused for every other instant.\<close>

theorem timestamp_round_trip:
  "parse_epoch_millis (format_epoch_millis ms) =
     (if -62135596800000 \<le> ms \<and> ms \<le> 253402300799999 then Some ms else None)"
  by (rule parse_format_epoch_millis)

text \<open>No text, however hostile, parses to a number of milliseconds anywhere near the limits of
  a signed 64-bit integer: the field checks bound the result before the multiplications.\<close>

theorem parse_never_overflows:
  assumes "parse_epoch_millis ts = Some ms"
  shows "is_i64 ms \<and> -62162121540000 \<le> ms \<and> ms \<le> 253407747540999"
  using parse_epoch_millis_bounds [OF assms] by (simp add: is_i64_def i64_max_value i64_min_value)

theorem parse_never_overflows_witness:
  "is_i64 253402300799999"
proof -
  have "parse_epoch_millis (format_epoch_millis 253402300799999) = Some 253402300799999"
    by (simp add: parse_format_epoch_millis)
  from parse_never_overflows [OF this] show ?thesis by blast
qed

text \<open>Normalisation is idempotent, and it never changes which instant a text denotes when the
  instant lies in the years 1 to 9999.\<close>

theorem normalize_idempotent:
  "normalize_to_utc (normalize_to_utc ts) = normalize_to_utc ts
   \<and> (case parse_epoch_millis ts of None \<Rightarrow> normalize_to_utc ts = ts
      | Some ms \<Rightarrow> parse_epoch_millis (normalize_to_utc ts) =
          (if -62135596800000 \<le> ms \<and> ms \<le> 253402300799999 then Some ms else None))"
  using iso.normalize_idem [of ts]
  by (auto simp: normalize_to_utc_def parse_format_epoch_millis split: option.splits)

end
