(* ===== verification/Media_Planner.thy ===== *)
theory Media_Planner
  imports Prelude "HOL-Library.Product_Lexorder" "HOL-Library.Multiset" "HOL-Library.Sublist"
begin

text \<open>
  Deterministic planning of bounded provider work, \<^verbatim>\<open>cp/media_planner.rs\<close>: the window that the
  oldest pending event opens, the policy that holds back an opening fragment, the projection of a
  model turn onto its source events, and the order in which worker slots are given out. The fold
  of \<^verbatim>\<open>plan_first\<close> with its \<^verbatim>\<open>continue\<close> and \<^verbatim>\<open>break\<close> is \<open>plan_loop\<close>; the panic on an
  empty candidate list is \<open>None\<close>. The \<^verbatim>\<open>#[cfg(test)]\<close> cost simulation is not modelled.
\<close>

section \<open>Data\<close>

datatype work_class = Audio | Screen

definition MAX_AUDIO_WINDOW_MS :: int where "MAX_AUDIO_WINDOW_MS = 5 * 60 * 1000"
definition MAX_AUDIO_GAP_MS :: int where "MAX_AUDIO_GAP_MS = 1000"
definition MAX_AUDIO_BYTES :: int where "MAX_AUDIO_BYTES = 20 * 1024 * 1024"
definition MIN_AUDIO_WINDOW_MS :: int where "MIN_AUDIO_WINDOW_MS = 5000"
definition AUDIO_FRAGMENT_HOLD_MS :: int where "AUDIO_FRAGMENT_HOLD_MS = MAX_AUDIO_WINDOW_MS"
definition MAX_SCREEN_SPAN_MS :: int where "MAX_SCREEN_SPAN_MS = 90 * 1000"
definition MAX_SCREEN_FRAMES :: nat where "MAX_SCREEN_FRAMES = 8"
definition MAX_SCREEN_BYTES :: int where "MAX_SCREEN_BYTES = 16 * 1024 * 1024"
definition MAX_SCREEN_PIXELS :: int where "MAX_SCREEN_PIXELS = 24000000"

lemmas planner_bounds = MAX_AUDIO_WINDOW_MS_def MAX_AUDIO_GAP_MS_def MAX_AUDIO_BYTES_def
  MIN_AUDIO_WINDOW_MS_def AUDIO_FRAGMENT_HOLD_MS_def MAX_SCREEN_SPAN_MS_def MAX_SCREEN_FRAMES_def
  MAX_SCREEN_BYTES_def MAX_SCREEN_PIXELS_def

record planning_event =
  job_id :: int
  ev_event_id :: string
  ev_class :: work_class
  capture_session_id :: string
  stream_id :: string
  ev_sequence :: int
  ev_started_ms :: int
  ev_ended_ms :: int
  byte_length :: int
  pixel_count :: int
  route_key :: string

record work_plan =
  plan_class :: work_class
  member_job_ids :: "int list"
  head_job_id :: int
  plan_started_ms :: int
  plan_ended_ms :: int
  total_bytes :: int
  total_pixels :: int

section \<open>Planning\<close>

definition sort_key_of :: "planning_event \<Rightarrow> int \<times> int \<times> int" where
  "sort_key_of e = (ev_started_ms e, ev_sequence e, job_id e)"

text \<open>The members accepted so far and the running end, bytes and pixels of the fold.\<close>

record fold_state =
  fs_members :: "planning_event list"
  fs_ended :: int
  fs_bytes :: int
  fs_pixels :: int

definition same_lane :: "planning_event \<Rightarrow> planning_event \<Rightarrow> bool" where
  "same_lane first c \<longleftrightarrow> ev_class c = ev_class first
     \<and> capture_session_id c = capture_session_id first \<and> stream_id c = stream_id first"

definition accepted :: "planning_event \<Rightarrow> fold_state \<Rightarrow> planning_event \<Rightarrow> bool" where
  "accepted first st c \<longleftrightarrow>
     ev_ended_ms c > ev_started_ms c
     \<and> (case ev_class first of
          Audio \<Rightarrow> route_key c = route_key first
            \<and> saturating_sub (ev_started_ms c) (fs_ended st) \<le> MAX_AUDIO_GAP_MS
            \<and> saturating_sub (ev_ended_ms c) (ev_started_ms first) \<le> MAX_AUDIO_WINDOW_MS
            \<and> saturating_add (fs_bytes st) (byte_length c) \<le> MAX_AUDIO_BYTES
        | Screen \<Rightarrow> length (fs_members st) < MAX_SCREEN_FRAMES
            \<and> saturating_sub (ev_started_ms c) (ev_started_ms first) \<le> MAX_SCREEN_SPAN_MS
            \<and> saturating_add (fs_bytes st) (byte_length c) \<le> MAX_SCREEN_BYTES
            \<and> saturating_add (fs_pixels st) (pixel_count c) \<le> MAX_SCREEN_PIXELS)"

definition push :: "fold_state \<Rightarrow> planning_event \<Rightarrow> fold_state" where
  "push st c = \<lparr>fs_members = fs_members st @ [c], fs_ended = max (fs_ended st) (ev_ended_ms c),
     fs_bytes = saturating_add (fs_bytes st) (byte_length c),
     fs_pixels = saturating_add (fs_pixels st) (pixel_count c)\<rparr>"

fun plan_loop :: "planning_event \<Rightarrow> fold_state \<Rightarrow> planning_event list \<Rightarrow> fold_state" where
  "plan_loop first st [] = st"
| "plan_loop first st (c # cs) =
     (if \<not> same_lane first c then plan_loop first st cs
      else if \<not> accepted first st c then st
      else plan_loop first (push st c) cs)"

definition init_fold :: "planning_event \<Rightarrow> fold_state" where
  "init_fold first = \<lparr>fs_members = [], fs_ended = ev_ended_ms first, fs_bytes = 0, fs_pixels = 0\<rparr>"

definition plan_first :: "planning_event list \<Rightarrow> work_plan option" where
  "plan_first candidates =
     (case sort_key sort_key_of candidates of
        [] \<Rightarrow> None
      | first # rest \<Rightarrow>
        let st = plan_loop first (init_fold first) (first # rest)
        in Some \<lparr>plan_class = ev_class first, member_job_ids = map job_id (fs_members st),
                 head_job_id = job_id first, plan_started_ms = ev_started_ms first,
                 plan_ended_ms = fs_ended st, total_bytes = fs_bytes st, total_pixels = fs_pixels st\<rparr>)"

definition audio_fragment_hold :: "work_plan \<Rightarrow> bool \<Rightarrow> bool \<Rightarrow> int option \<Rightarrow> bool" where
  "audio_fragment_hold plan opens_stream session_finished newest_receipt_age_ms \<longleftrightarrow>
     plan_class plan = Audio
     \<and> member_job_ids plan \<noteq> []
     \<and> saturating_sub (plan_ended_ms plan) (plan_started_ms plan) < MIN_AUDIO_WINDOW_MS
     \<and> opens_stream \<and> \<not> session_finished
     \<and> (case newest_receipt_age_ms of Some age \<Rightarrow> age < AUDIO_FRAGMENT_HOLD_MS | None \<Rightarrow> False)"

section \<open>Projection and scheduling\<close>

record source_interval =
  src_event_id :: string
  src_start_ms :: int
  src_end_ms :: int

record projected_interval =
  proj_event_id :: string
  window_start_ms :: int
  window_end_ms :: int
  event_start_ms :: int
  event_end_ms :: int

definition project_one :: "int \<Rightarrow> int \<Rightarrow> source_interval \<Rightarrow> projected_interval option" where
  "project_one turn_start_ms turn_end_ms source =
     (let start = max turn_start_ms (src_start_ms source);
          stop = min turn_end_ms (src_end_ms source)
      in if stop > start
         then Some \<lparr>proj_event_id = src_event_id source, window_start_ms = start,
                    window_end_ms = stop, event_start_ms = start - src_start_ms source,
                    event_end_ms = stop - src_start_ms source\<rparr>
         else None)"

definition project_interval :: "source_interval list \<Rightarrow> int \<Rightarrow> int \<Rightarrow> projected_interval list" where
  "project_interval sources turn_start_ms turn_end_ms =
     List.map_filter (project_one turn_start_ms turn_end_ms) sources"

definition schedule_classes :: "bool \<Rightarrow> bool \<Rightarrow> nat \<Rightarrow> work_class list" where
  "schedule_classes audio_pending screen_pending slots =
     (let s1 = (if audio_pending \<and> 0 < slots then [Audio] else []);
          s2 = (if screen_pending \<and> length s1 < slots then s1 @ [Screen] else s1)
      in s2)"

section \<open>The fold\<close>

lemma sat_sub_le [planner_simps]:
  "b < i64_max \<Longrightarrow> i64_min \<le> b \<Longrightarrow> saturating_sub x y \<le> b \<longleftrightarrow> x - y \<le> b"
  by (simp add: saturating_sub_def saturate_le_iff)

lemma bounds_are_i64 [planner_simps]:
  "MAX_AUDIO_GAP_MS < i64_max" "i64_min \<le> MAX_AUDIO_GAP_MS"
  "MAX_AUDIO_WINDOW_MS < i64_max" "i64_min \<le> MAX_AUDIO_WINDOW_MS"
  "MAX_SCREEN_SPAN_MS < i64_max" "i64_min \<le> MAX_SCREEN_SPAN_MS"
  by (simp_all add: planner_bounds i64_max_value i64_min_value)

lemma push_simps [simp]:
  "fs_members (push st c) = fs_members st @ [c]"
  "fs_ended (push st c) = max (fs_ended st) (ev_ended_ms c)"
  "fs_bytes (push st c) = saturating_add (fs_bytes st) (byte_length c)"
  "fs_pixels (push st c) = saturating_add (fs_pixels st) (pixel_count c)"
  by (simp_all add: push_def)

lemma same_lane_refl [simp]: "same_lane e e"
  by (simp add: same_lane_def)

text \<open>
  The invariant of the fold: what every member has passed, and the totals that the acceptance
  test of the last member established.
\<close>

definition fold_inv :: "planning_event \<Rightarrow> fold_state \<Rightarrow> bool" where
  "fold_inv first st \<longleftrightarrow>
     list_all (\<lambda>c. same_lane first c \<and> ev_started_ms c < ev_ended_ms c) (fs_members st)
     \<and> (case ev_class first of
          Audio \<Rightarrow> list_all (\<lambda>c. route_key c = route_key first
                     \<and> ev_ended_ms c - ev_started_ms first \<le> MAX_AUDIO_WINDOW_MS) (fs_members st)
            \<and> fs_bytes st \<le> MAX_AUDIO_BYTES
        | Screen \<Rightarrow> list_all (\<lambda>c. ev_started_ms c - ev_started_ms first \<le> MAX_SCREEN_SPAN_MS)
              (fs_members st)
            \<and> length (fs_members st) \<le> MAX_SCREEN_FRAMES
            \<and> fs_bytes st \<le> MAX_SCREEN_BYTES \<and> fs_pixels st \<le> MAX_SCREEN_PIXELS)"

lemma fold_inv_init: "fold_inv first (init_fold first)"
  by (simp add: fold_inv_def init_fold_def planner_bounds split: work_class.splits)

lemma fold_inv_push:
  "fold_inv first st \<Longrightarrow> same_lane first c \<Longrightarrow> accepted first st c \<Longrightarrow> fold_inv first (push st c)"
  by (auto simp: fold_inv_def accepted_def planner_simps split: work_class.splits)

lemma fold_inv_loop: "fold_inv first st \<Longrightarrow> fold_inv first (plan_loop first st cs)"
  by (induction first st cs rule: plan_loop.induct) (auto intro: fold_inv_push)

lemma plan_loop_subseq:
  "\<exists>ms. fs_members (plan_loop first st cs) = fs_members st @ ms \<and> subseq ms cs"
proof (induction first st cs rule: plan_loop.induct)
  case (1 first st)
  show ?case by (intro exI [of _ "[]"]) simp
next
  case (2 first st c cs)
  show ?case
  proof (cases "same_lane first c \<and> accepted first st c")
    case True
    with "2.IH"(2) obtain ms where
      "fs_members (plan_loop first (push st c) cs) = fs_members st @ [c] @ ms" "subseq ms cs" by auto
    with True show ?thesis by (intro exI [of _ "c # ms"]) simp
  next
    case False
    with "2.IH"(1) show ?thesis
      by (cases "same_lane first c") (auto intro: exI [of _ "[]"])
  qed
qed

text \<open>The running end is the latest end seen, starting from the state's.\<close>

lemma plan_loop_ended:
  "fs_ended (plan_loop first st cs) =
     fold max (map ev_ended_ms (drop (length (fs_members st)) (fs_members (plan_loop first st cs))))
       (fs_ended st)"
proof (induction first st cs rule: plan_loop.induct)
  case (2 first st c cs)
  from plan_loop_subseq [of first "push st c" cs] obtain ms where
    ms: "fs_members (plan_loop first (push st c) cs) = fs_members st @ c # ms" by auto
  show ?case
    using "2.IH" ms by (simp add: max.commute)
qed simp

text \<open>Events of other lanes neither end the window nor enter it.\<close>

lemma plan_loop_filter: "plan_loop first st (filter (same_lane first) cs) = plan_loop first st cs"
  by (induction first st cs rule: plan_loop.induct) auto

section \<open>The plan\<close>

lemma plan_first_cases:
  assumes "plan_first cs = Some p"
  obtains first rest st where "sort_key sort_key_of cs = first # rest"
    and "st = plan_loop first (init_fold first) (first # rest)"
    and "p = \<lparr>plan_class = ev_class first, member_job_ids = map job_id (fs_members st),
          head_job_id = job_id first, plan_started_ms = ev_started_ms first,
          plan_ended_ms = fs_ended st, total_bytes = fs_bytes st, total_pixels = fs_pixels st\<rparr>"
  using assms by (auto simp: plan_first_def Let_def split: list.splits)

lemma sorted_head:
  assumes "sort_key f cs = x # xs"
  shows "x \<in> set cs" and "\<forall>e\<in>set cs. f x \<le> f e"
proof -
  have s: "set cs = insert x (set xs)" using assms by (metis set_sort list.simps(15))
  then show "x \<in> set cs" by simp
  have "sorted (map f (x # xs))" using sorted_sort_key [of f cs] by (simp only: assms)
  then show "\<forall>e\<in>set cs. f x \<le> f e" by (auto simp: s)
qed

text \<open>The loop visits the head first: either it becomes the first member or the plan is empty.\<close>

lemma plan_loop_head:
  "fs_members (plan_loop first (init_fold first) (first # rest)) =
     (if accepted first (init_fold first) first
      then first # drop 1 (fs_members (plan_loop first (push (init_fold first) first) rest)) else [])"
  using plan_loop_subseq [of first "push (init_fold first) first" rest]
  by (auto simp: init_fold_def)

lemma fold_max_le: "fold max xs a \<le> b \<longleftrightarrow> a \<le> b \<and> list_all (\<lambda>x. x \<le> b) xs" for a b :: int
  by (induction xs arbitrary: a) auto

text \<open>
  C36. The plan is anchored on the least candidate by (start, sequence, job id), its members are a
  subsequence of the candidates in that order, all in the head's class, session and stream, with a
  positive interval, and a non-empty plan starts with the head itself.
\<close>

theorem plan_first_anchored:
  assumes "plan_first cs = Some p"
  shows "\<exists>first ms. first \<in> set cs \<and> (\<forall>e\<in>set cs. sort_key_of first \<le> sort_key_of e)
    \<and> head_job_id p = job_id first \<and> plan_started_ms p = ev_started_ms first
    \<and> member_job_ids p = map job_id ms \<and> subseq ms (sort_key sort_key_of cs)
    \<and> list_all (\<lambda>c. same_lane first c \<and> ev_started_ms c < ev_ended_ms c) ms
    \<and> (ms \<noteq> [] \<longrightarrow> hd ms = first)"
proof -
  obtain first rest st where so: "sort_key sort_key_of cs = first # rest"
    and st: "st = plan_loop first (init_fold first) (first # rest)"
    and p: "p = \<lparr>plan_class = ev_class first, member_job_ids = map job_id (fs_members st),
          head_job_id = job_id first, plan_started_ms = ev_started_ms first,
          plan_ended_ms = fs_ended st, total_bytes = fs_bytes st, total_pixels = fs_pixels st\<rparr>"
    by (rule plan_first_cases [OF assms])
  have "subseq (fs_members st) (first # rest)"
    using plan_loop_subseq [of first "init_fold first" "first # rest"]
    by (auto simp: st init_fold_def simp del: plan_loop.simps)
  moreover have "list_all (\<lambda>c. same_lane first c \<and> ev_started_ms c < ev_ended_ms c) (fs_members st)"
    using fold_inv_loop [OF fold_inv_init] by (simp add: st fold_inv_def del: plan_loop.simps)
  moreover have "fs_members st \<noteq> [] \<longrightarrow> hd (fs_members st) = first"
    by (simp add: st plan_loop_head del: plan_loop.simps)
  ultimately show ?thesis
    using sorted_head [OF so] by (intro exI [of _ first] exI [of _ "fs_members st"]) (simp add: p so)
qed


text \<open>A plan is empty exactly when its head cannot enter a window of its own: a deterministic
  refusal that the claim boundary can name by \<open>head_job_id\<close>.
\<close>

theorem plan_first_empty_iff:
  assumes "plan_first cs = Some p" and "first = hd (sort_key sort_key_of cs)"
  shows "member_job_ids p = [] \<longleftrightarrow> \<not> accepted first (init_fold first) first"
proof -
  obtain f rest st where so: "sort_key sort_key_of cs = f # rest"
    and st: "st = plan_loop f (init_fold f) (f # rest)" and "member_job_ids p = map job_id (fs_members st)"
    using plan_first_cases [OF assms(1)] by (metis work_plan.select_convs(2))
  then show ?thesis by (simp add: assms(2) st plan_loop_head del: plan_loop.simps)
qed

text \<open>
  C37. Planning does not depend on the order in which the repository returns the candidates.
\<close>

theorem plan_first_order_independent:
  assumes "mset cs = mset ds" and "distinct (map job_id cs)"
  shows "plan_first cs = plan_first ds"
proof -
  have "inj_on sort_key_of (set cs)"
    using assms(2) by (auto simp: inj_on_def sort_key_of_def distinct_map)
  then have "sort_key sort_key_of cs = sort_key sort_key_of ds"
    by (intro sort_key_inj_key_eq) (simp_all add: assms(1))
  then show ?thesis by (simp add: plan_first_def)
qed

text \<open>Interleaved events of other streams, sessions or classes cannot fragment the head's window:
  planning over all candidates equals planning over the head's lane alone.
\<close>

theorem plan_first_lane_only:
  assumes "cs \<noteq> []" and "first = hd (sort_key sort_key_of cs)"
  shows "plan_first cs = plan_first (filter (same_lane first) cs)"
proof -
  obtain rest where so: "sort_key sort_key_of cs = first # rest"
    using assms by (cases "sort_key sort_key_of cs") (auto dest: arg_cong [of _ _ length])
  have "sort_key sort_key_of (filter (same_lane first) cs) = filter (same_lane first) (first # rest)"
    by (simp only: so flip: filter_sort)
  then have "sort_key sort_key_of (filter (same_lane first) cs) = first # filter (same_lane first) rest"
    by simp
  moreover have "plan_loop first (init_fold first) (first # filter (same_lane first) rest)
      = plan_loop first (init_fold first) (first # rest)"
    using plan_loop_filter [of first "init_fold first" "first # rest"] by simp
  ultimately show ?thesis by (simp add: plan_first_def so del: plan_loop.simps)
qed

section \<open>Projection\<close>

text \<open>The sources of a window tile it: each starts where the previous one ended.\<close>

fun tiles :: "int \<Rightarrow> source_interval list \<Rightarrow> int \<Rightarrow> bool" where
  "tiles a [] b \<longleftrightarrow> a = b"
| "tiles a (s # ss) b \<longleftrightarrow> src_start_ms s = a \<and> a \<le> src_end_ms s \<and> tiles (src_end_ms s) ss b"

definition piece_length :: "projected_interval \<Rightarrow> int" where
  "piece_length q = window_end_ms q - window_start_ms q"

lemma tiles_le: "tiles a ss b \<Longrightarrow> a \<le> b"
  by (induction a ss b rule: tiles.induct) auto

lemma project_interval_Cons:
  "project_interval (s # ss) ts te =
     (case project_one ts te s of None \<Rightarrow> project_interval ss ts te
      | Some q \<Rightarrow> q # project_interval ss ts te)"
  by (simp add: project_interval_def map_filter_simps split: option.split)

lemma piece_length_project_one:
  "(case project_one ts te s of None \<Rightarrow> 0 | Some q \<Rightarrow> piece_length q)
     = max 0 (min te (src_end_ms s) - max ts (src_start_ms s))"
  by (auto simp: project_one_def Let_def piece_length_def max_def min_def)

lemma projected_total:
  "tiles a ss b \<Longrightarrow> sum_list (map piece_length (project_interval ss ts te)) = max 0 (min te b - max ts a)"
  if "ts \<le> te" for a
proof (induction ss arbitrary: a)
  case Nil
  then show ?case using that by (simp add: project_interval_def map_filter_simps)
next
  case (Cons s ss)
  then have t: "src_start_ms s = a" "a \<le> src_end_ms s" "tiles (src_end_ms s) ss b" by auto
  have "sum_list (map piece_length (project_interval (s # ss) ts te))
      = max 0 (min te (src_end_ms s) - max ts a) + sum_list (map piece_length (project_interval ss ts te))"
    using piece_length_project_one [of ts te s] t(1)
    by (simp add: project_interval_Cons split: option.splits)
  also have "\<dots> = max 0 (min te (src_end_ms s) - max ts a) + max 0 (min te b - max ts (src_end_ms s))"
    using Cons.IH [OF t(3)] by simp
  also have "\<dots> = max 0 (min te b - max ts a)"
    using t(2) tiles_le [OF t(3)] that by (auto simp: max_def min_def)
  finally show ?case .
qed

text \<open>
  C38. Splitting a turn at source boundaries loses no time: over sources that tile the window, the
  projected pieces of a turn inside it add up to the turn, and each piece lies inside the turn and
  inside its source event.
\<close>

theorem project_interval_exact:
  assumes "tiles a sources b" and "a \<le> ts" and "ts \<le> te" and "te \<le> b"
  shows "sum_list (map piece_length (project_interval sources ts te)) = te - ts
    \<and> (\<forall>q\<in>set (project_interval sources ts te). ts \<le> window_start_ms q
        \<and> window_start_ms q < window_end_ms q \<and> window_end_ms q \<le> te
        \<and> (\<exists>s\<in>set sources. proj_event_id q = src_event_id s \<and> 0 \<le> event_start_ms q
             \<and> event_end_ms q \<le> src_end_ms s - src_start_ms s
             \<and> event_end_ms q - event_start_ms q = piece_length q))"
proof
  show "sum_list (map piece_length (project_interval sources ts te)) = te - ts"
    using projected_total [OF assms(3,1)] assms by simp
  show "\<forall>q\<in>set (project_interval sources ts te). ts \<le> window_start_ms q
        \<and> window_start_ms q < window_end_ms q \<and> window_end_ms q \<le> te
        \<and> (\<exists>s\<in>set sources. proj_event_id q = src_event_id s \<and> 0 \<le> event_start_ms q
             \<and> event_end_ms q \<le> src_end_ms s - src_start_ms s
             \<and> event_end_ms q - event_start_ms q = piece_length q)"
    by (fastforce simp: project_interval_def map_filter_def project_one_def Let_def piece_length_def
        split: if_splits)
qed

text \<open>Slots: the schedule fits the slots, contains only pending classes, gives pending audio the
  first slot, and serves every pending class when there are two slots.
\<close>

theorem schedule_classes_correct:
  "length (schedule_classes a s n) \<le> n \<and> distinct (schedule_classes a s n)
   \<and> (Audio \<in> set (schedule_classes a s n) \<longleftrightarrow> a \<and> 0 < n)
   \<and> (Screen \<in> set (schedule_classes a s n) \<longleftrightarrow> s \<and> (if a then 1 else 0) < n)
   \<and> take 1 (schedule_classes a s n) =
       (if a \<and> 0 < n then [Audio] else if s \<and> 0 < n then [Screen] else [])"
  by (auto simp: schedule_classes_def Let_def)

section \<open>Concrete inputs\<close>

text \<open>Two adjacent microphone segments, an interleaved system-audio segment, and an overlong event.\<close>

definition sample_event :: "int \<Rightarrow> string \<Rightarrow> int \<Rightarrow> int \<Rightarrow> planning_event" where
  "sample_event i stream s e = \<lparr>job_id = i, ev_event_id = ''e'', ev_class = Audio,
     capture_session_id = ''session'', stream_id = stream, ev_sequence = i, ev_started_ms = s,
     ev_ended_ms = e, byte_length = 100, pixel_count = 0, route_key = ''default''\<rparr>"

definition sample_events :: "planning_event list" where
  "sample_events = [sample_event 2 ''mic'' 60000 120000, sample_event 3 ''system'' 30000 90000,
     sample_event 1 ''mic'' 0 60000]"

lemmas sample_simps = sample_events_def sample_event_def sort_key_of_def plan_first_def Let_def
  same_lane_def accepted_def init_fold_def push_def saturating_add_def saturating_sub_def
  saturate_def i64_max_value i64_min_value planner_bounds

lemma sample_plan:
  "plan_first sample_events = Some \<lparr>plan_class = Audio, member_job_ids = [1, 2], head_job_id = 1,
     plan_started_ms = 0, plan_ended_ms = 120000, total_bytes = 200, total_pixels = 0\<rparr>"
  by (simp add: sample_simps)

theorem plan_first_anchored_witness:
  "\<exists>p. plan_first sample_events = Some p
    \<and> (\<exists>first ms. first \<in> set sample_events \<and> head_job_id p = job_id first \<and> member_job_ids p = map job_id ms
        \<and> subseq ms (sort_key sort_key_of sample_events) \<and> (ms \<noteq> [] \<longrightarrow> hd ms = first))"
  using sample_plan plan_first_anchored [OF sample_plan] by blast


theorem plan_first_empty_iff_witness:
  "\<exists>p. plan_first [sample_event 7 ''mic'' 0 301000] = Some p \<and> member_job_ids p = [] \<and> head_job_id p = 7"
proof -
  obtain p where p: "plan_first [sample_event 7 ''mic'' 0 301000] = Some p" "head_job_id p = 7"
    by (auto simp: sample_simps)
  have "\<not> accepted (sample_event 7 ''mic'' 0 301000) (init_fold (sample_event 7 ''mic'' 0 301000))
      (sample_event 7 ''mic'' 0 301000)"
    by (simp add: sample_simps)
  with plan_first_empty_iff [OF p(1) refl] have "member_job_ids p = []" by simp
  with p show ?thesis by blast
qed

theorem plan_first_order_independent_witness:
  "plan_first sample_events = plan_first (rev sample_events) \<and> plan_first sample_events \<noteq> None"
proof -
  have "distinct (map job_id sample_events)" by (simp add: sample_events_def sample_event_def)
  from plan_first_order_independent [OF _ this, of "rev sample_events"]
  have "plan_first sample_events = plan_first (rev sample_events)" by simp
  moreover have "plan_first sample_events \<noteq> None" by (simp add: sample_plan)
  ultimately show ?thesis by blast
qed

theorem plan_first_lane_only_witness:
  "plan_first sample_events = plan_first (filter (same_lane (sample_event 1 ''mic'' 0 60000)) sample_events)"
proof (rule plan_first_lane_only)
  show "sample_events \<noteq> []" by (simp add: sample_events_def)
  show "sample_event 1 ''mic'' 0 60000 = hd (sort_key sort_key_of sample_events)"
    by (simp add: sample_simps)
qed

definition sample_sources :: "source_interval list" where
  "sample_sources = [\<lparr>src_event_id = ''a'', src_start_ms = 0, src_end_ms = 60000\<rparr>,
     \<lparr>src_event_id = ''b'', src_start_ms = 60000, src_end_ms = 120000\<rparr>]"

theorem project_interval_exact_witness:
  "tiles 0 sample_sources 120000
   \<and> sum_list (map piece_length (project_interval sample_sources 59500 60500)) = 1000"
proof -
  have t: "tiles 0 sample_sources 120000" by (simp add: sample_sources_def)
  from project_interval_exact [OF this, of 59500 60500] t show ?thesis by simp
qed

end
