(* ===== verification/Schema.thy ===== *)
theory Schema
  imports Prelude "HOL-Library.Word"
begin

text \<open>
  The PostgreSQL tables that the identity, OAuth, account-lifecycle, entitlement, admission and
  model-usage repositories share (\<^verbatim>\<open>migrations/0001\<close>, \<^verbatim>\<open>0002\<close>, \<^verbatim>\<open>0003\<close>, \<^verbatim>\<open>0004\<close>,
  \<^verbatim>\<open>0005\<close>, \<^verbatim>\<open>0013\<close>, \<^verbatim>\<open>0018\<close>, \<^verbatim>\<open>0023\<close>, \<^verbatim>\<open>0024\<close> and \<^verbatim>\<open>0025\<close>). One row
  type per table, restricted to the columns that some modelled statement reads or writes with
  effect; bookkeeping columns that are only written (\<^verbatim>\<open>updated_at\<close>, \<^verbatim>\<open>last_seen_at\<close> and the
  like) are left out. Timestamps are microseconds since the epoch and \<open>now\<close> is an argument of
  every transaction, the value of PostgreSQL's \<^verbatim>\<open>now()\<close> for it. A transaction is a function on
  \<open>db\<close>: advisory locks and \<^verbatim>\<open>FOR UPDATE\<close> make the modelled transactions on one key mutually
  exclusive, so a fleet history is a sequence of them, and a transaction that is not committed
  leaves \<open>db\<close> as it was.
\<close>

type_synonym timestamp = int

definition seconds :: "int \<Rightarrow> timestamp" where "seconds s = s * 1000000"

definition day_of :: "timestamp \<Rightarrow> int" where "day_of t = t div 86400000000"

text \<open>
  \<^verbatim>\<open>duration_seconds\<close>: whole seconds, refused beyond the range of \<^verbatim>\<open>i64\<close>. The argument is
  \<^verbatim>\<open>Duration::as_secs\<close>.
\<close>

definition duration_seconds :: "nat \<Rightarrow> int res" where
  "duration_seconds secs =
     (if int secs > i64_max
      then Inl (Store ''persistence duration exceeds PostgreSQL interval range'')
      else Inr (int secs))"

section \<open>Accounts and identities\<close>

datatype account_status = Active | DeletionRequested | Deleting | Deleted | Unavailable

text \<open>The text of the status column, and the decoding of \<^verbatim>\<open>AccountStatus::from_database\<close>.\<close>

fun status_text :: "account_status \<Rightarrow> string" where
  "status_text Active = ''active''"
| "status_text DeletionRequested = ''deletion_requested''"
| "status_text Deleting = ''deleting''"
| "status_text Deleted = ''deleted''"
| "status_text Unavailable = ''unavailable''"

definition from_database :: "string \<Rightarrow> account_status" where
  "from_database value =
     (if value = ''active'' then Active
      else if value = ''deletion_requested'' then DeletionRequested
      else if value = ''deleting'' then Deleting
      else if value = ''deleted'' then Deleted
      else Unavailable)"

lemma from_database_text [simp]: "from_database (status_text s) = s"
  by (cases s) (simp_all add: from_database_def)

record account_row =
  acc_id :: string
  acc_email :: string
  acc_status :: account_status
  acc_provider :: string
  acc_subject :: string
  acc_created :: timestamp

record identity_row =
  idn_provider :: string
  idn_subject :: string
  idn_account :: string
  idn_email :: string

record apple_row =
  apl_account :: string
  apl_client :: string
  apl_token :: string
  apl_revoked :: "timestamp option"

section \<open>OAuth\<close>

record client_row =
  cl_id :: string
  cl_name :: "string option"
  cl_redirects :: "string list"
  cl_created :: timestamp

record consent_row =
  con_hash :: string
  con_account :: string
  con_client :: string
  con_redirect :: string
  con_expires :: timestamp

record code_row =
  cod_hash :: string
  cod_account :: string
  cod_client :: string
  cod_expires :: timestamp

record refresh_row =
  ref_hash :: string
  ref_account :: string
  ref_client :: string
  ref_expires :: timestamp
  ref_revoked :: "timestamp option"

section \<open>Account deletion and what it drains\<close>

record deletion_row =
  del_account :: string
  del_operation :: string
  del_status :: string
  del_reason :: string
  del_retry :: "int option"
  del_hard :: "timestamp option"
  del_updated :: timestamp

text \<open>
  The three outbound channels (e-mail, webhook, push) have a table of deliveries, a table of the
  fences that stand while a provider request is in flight, and one lane each in
  \<^verbatim>\<open>provider_send_lanes\<close>. The delivery tables share their columns: \<open>dl_target\<close> is the subscription
  of a webhook delivery and the installation binding of a push delivery, \<open>dl_id\<close> its
  \<^verbatim>\<open>event_id\<close> or \<^verbatim>\<open>delivery_id\<close>. A claim is the token with the end of its lease, which the
  tables require to be null together. The primary key of a fence is its account and \<open>fen_item\<close>,
  the event, installation or delivery; \<open>fen_request\<close> is the frozen destination.
\<close>

datatype outbound_state = OPending | OProcessing | ORetryWait | ODelivered | OFailed | OCancelled | OAmbiguous

record delivery_row =
  dl_account :: string
  dl_episode :: int
  dl_target :: string
  dl_version :: int
  dl_id :: string
  dl_state :: outbound_state
  dl_attempts :: int
  dl_next :: timestamp
  dl_claim :: "(string \<times> timestamp) option"
  dl_completed :: "string option"
  dl_status :: "int option"
  dl_created :: timestamp
  dl_updated :: timestamp

record push_delivery_row = delivery_row +
  dl_handoff :: string
  dl_collapse :: string

record 'f fence_row =
  fen_account :: string
  fen_item :: string
  fen_claim :: string
  fen_expires :: timestamp
  fen_request :: 'f

record webhook_request =
  wr_subscription :: string
  wr_endpoint :: string
  wr_secret :: string
  wr_include :: bool

record email_request =
  er_recipient :: string
  er_include :: bool

type_synonym push_generation = int

record lane_row =
  ln_owner :: "(string \<times> timestamp) option"
  ln_next :: timestamp
  ln_circuit :: "timestamp option"

record ('x, 'f) channel =
  ch_deliveries :: "'x delivery_row_scheme list"
  ch_fences :: "'f fence_row list"
  ch_lane :: lane_row

record episode_row =
  epi_account :: string
  epi_id :: int
  epi_complete :: bool
  epi_finalized :: "timestamp option"
  epi_revision :: int

record upload_row =
  upl_account :: string
  upl_event :: string
  upl_expires :: timestamp

record webhook_row =
  wh_account :: string
  wh_id :: string
  wh_enabled :: bool
  wh_endpoint :: string
  wh_secret :: string
  wh_include :: bool
  wh_name :: string
  wh_created :: timestamp

record email_pref_row =
  ep_account :: string
  ep_enabled :: bool
  ep_include_content :: bool
  ep_consented :: "timestamp option"

record push_row =
  pu_account :: string
  pu_id :: string
  pu_enabled :: bool
  pu_topic :: string
  pu_environment :: string
  pu_token :: string
  pu_generation :: int
  pu_platform :: string
  pu_seen :: timestamp

section \<open>Quotas, admission and model usage\<close>

record usage_row =
  us_account :: string
  us_day :: int
  us_requests :: int
  us_output :: int
  us_audio :: int
  us_screen :: int
  us_derived :: int

record lease_row =
  ls_scope :: string
  ls_holder :: string
  ls_expires :: timestamp

text \<open>
  Token counts of a usage event, in the order of the columns; \<open>None\<close> is SQL's \<^verbatim>\<open>NULL\<close>.
\<close>

record token_counts =
  tk_prompt :: "int option"
  tk_input_text :: "int option"
  tk_input_audio :: "int option"
  tk_input_image :: "int option"
  tk_cached :: "int option"
  tk_cached_text :: "int option"
  tk_cached_audio :: "int option"
  tk_cached_image :: "int option"
  tk_output :: "int option"
  tk_thought :: "int option"
  tk_total :: "int option"

definition no_tokens :: token_counts where
  "no_tokens = \<lparr>tk_prompt = None, tk_input_text = None, tk_input_audio = None,
     tk_input_image = None, tk_cached = None, tk_cached_text = None, tk_cached_audio = None,
     tk_cached_image = None, tk_output = None, tk_thought = None, tk_total = None\<rparr>"

datatype outcome = Started | Metered | UsageMissing | Ambiguous | NotBilled

datatype delivery_state = Pending | Delivered

record event_row =
  ve_account :: string
  ve_event :: string
  ve_fingerprint :: "8 word list"
  ve_operation :: string
  ve_requested_model :: string
  ve_returned_model :: "string option"
  ve_location :: string
  ve_traffic :: string
  ve_http_status :: "int option"
  ve_tokens :: token_counts
  ve_outcome :: outcome
  ve_delivery :: delivery_state
  ve_attempts :: int
  ve_claim :: "(string \<times> timestamp) option"
  ve_observed :: timestamp

text \<open>A billing period is its text \<^verbatim>\<open>YYYY-MM\<close>.\<close>

record coverage_row =
  vc_account :: string
  vc_period :: string
  vc_sequence :: int
  vc_pending :: int
  vc_lost :: int
  vc_delivery :: delivery_state
  vc_claim :: "(string \<times> timestamp) option"
  vc_updated :: timestamp

section \<open>Billing and recording authorisation\<close>

record detach_row =
  dt_id :: string
  dt_attempts :: int
  dt_last :: "timestamp option"

text \<open>The active recording lease of an account, the requests for one, and the refused requests.\<close>

record recording_lease_row =
  rl_account :: string
  rl_id :: string
  rl_expires :: timestamp

datatype lease_state = LPending | LGranted | LConflict

record lease_request_row =
  lr_account :: string
  lr_request :: string
  lr_requested :: "string option"
  lr_issued :: string
  lr_expires :: timestamp
  lr_state :: lease_state
  lr_summary :: "string option"
  lr_created :: timestamp

record lease_denial_row =
  ld_account :: string
  ld_request :: string
  ld_requested :: "string option"
  ld_issued :: string
  ld_expires :: timestamp
  ld_code :: string
  ld_summary :: string
  ld_created :: timestamp

text \<open>Delivery credits and what is reserved of them, by event.\<close>

record balance_row =
  ba_account :: string
  ba_events :: int
  ba_bytes :: int

record reservation_row =
  rv_account :: string
  rv_event :: string
  rv_bytes :: int

datatype batch_state = AwaitingCredit | Reserved | Completed

text \<open>
  A reference-batch receipt with its rows of \<^verbatim>\<open>capture_reference_batch_events\<close>, which are written with
  the receipt, read in the order of their ordinal and deleted with it.
\<close>

record batch_row =
  bt_account :: string
  bt_id :: string
  bt_digest :: string
  bt_stream :: string
  bt_first :: int
  bt_last :: int
  bt_count :: int
  bt_state :: batch_state
  bt_events :: "string list"
  bt_updated :: timestamp

section \<open>The database\<close>

record db =
  accounts :: "account_row list"
  auth_identities :: "identity_row list"
  deleted_accounts :: "string list"
  deleted_identities :: "(string \<times> string) list"
  signup_daily :: "(int \<times> int) list"
  apple_credentials :: "apple_row list"
  oauth_clients :: "client_row list"
  oauth_consents :: "consent_row list"
  oauth_codes :: "code_row list"
  refresh_tokens :: "refresh_row list"
  deletion_operations :: "deletion_row list"
  email_channel :: "(unit, email_request) channel"
  webhook_channel :: "(unit, webhook_request) channel"
  push_channel :: "(\<lparr>dl_handoff :: string, dl_collapse :: string\<rparr>, push_generation) channel"
  episodes :: "episode_row list"
  final_briefs :: "(string \<times> int) list"
  upload_intents :: "upload_row list"
  reviewer_fixtures :: "string list"
  billing_accounts :: "(string \<times> string) list"
  billing_detach_outbox :: "detach_row list"
  recording_leases :: "recording_lease_row list"
  lease_requests :: "lease_request_row list"
  lease_denials :: "lease_denial_row list"
  delivery_balances :: "balance_row list"
  delivery_reservations :: "reservation_row list"
  offline_receipts :: "(string \<times> string) list"
  batch_receipts :: "batch_row list"
  erasure_fences :: "string list"
  erased_events :: "(string \<times> string) list"
  erased_streams :: "(string \<times> string) list"
  webhook_subscriptions :: "webhook_row list"
  email_preferences :: "email_pref_row list"
  push_installations :: "push_row list"
  push_generations :: int
  usage_daily :: "usage_row list"
  concurrency_leases :: "lease_row list"
  vertex_events :: "event_row list"
  vertex_coverage :: "coverage_row list"

type_synonym 'a tx = "'a res \<times> db"

definition empty_channel :: "('x, 'f) channel" where
  "empty_channel = \<lparr>ch_deliveries = [], ch_fences = [],
     ch_lane = \<lparr>ln_owner = None, ln_next = 0, ln_circuit = None\<rparr>\<rparr>"

lemma empty_channel_simps [simp]:
  "ch_deliveries empty_channel = []" "ch_fences empty_channel = []"
  "ch_lane empty_channel = \<lparr>ln_owner = None, ln_next = 0, ln_circuit = None\<rparr>"
  by (simp_all add: empty_channel_def)

definition empty_db :: db where
  "empty_db = \<lparr>accounts = [], auth_identities = [], deleted_accounts = [], deleted_identities = [],
     signup_daily = [], apple_credentials = [], oauth_clients = [], oauth_consents = [],
     oauth_codes = [], refresh_tokens = [], deletion_operations = [], email_channel = empty_channel,
     webhook_channel = empty_channel, push_channel = empty_channel, episodes = [], final_briefs = [], upload_intents = [], reviewer_fixtures = [],
     billing_accounts = [], billing_detach_outbox = [], recording_leases = [], lease_requests = [], lease_denials = [],
     delivery_balances = [], delivery_reservations = [], offline_receipts = [], batch_receipts = [],
     erasure_fences = [], erased_events = [], erased_streams = [], webhook_subscriptions = [],
     email_preferences = [], push_installations = [], push_generations = 0, usage_daily = [], concurrency_leases = [],
     vertex_events = [], vertex_coverage = []\<rparr>"

text \<open>\<^verbatim>\<open>SELECT EXISTS(... accounts WHERE id = $1 AND status = 'active')\<close>.\<close>

definition account_active :: "db \<Rightarrow> string \<Rightarrow> bool" where
  "account_active d a \<longleftrightarrow> exists_row (\<lambda>r. acc_id r = a \<and> acc_status r = Active) (accounts d)"

definition client_exists :: "db \<Rightarrow> string \<Rightarrow> bool" where
  "client_exists d c \<longleftrightarrow> exists_row (\<lambda>r. cl_id r = c) (oauth_clients d)"

definition account_status_of :: "db \<Rightarrow> string \<Rightarrow> account_status option" where
  "account_status_of d a = map_option acc_status (lookup_row acc_id a (accounts d))"

text \<open>
  \<^verbatim>\<open>DELETE FROM accounts WHERE id = $1\<close> with its \<^verbatim>\<open>ON DELETE CASCADE\<close> references.
\<close>

definition drop_deliveries :: "string \<Rightarrow> ('x, 'f) channel \<Rightarrow> ('x, 'f) channel" where
  "drop_deliveries a c = c\<lparr>ch_deliveries := delete_rows (\<lambda>r. dl_account r = a) (ch_deliveries c)\<rparr>"

definition delete_account :: "string \<Rightarrow> db \<Rightarrow> db" where
  "delete_account a d = d\<lparr>
     accounts := delete_rows (\<lambda>r. acc_id r = a) (accounts d),
     auth_identities := delete_rows (\<lambda>r. idn_account r = a) (auth_identities d),
     apple_credentials := delete_rows (\<lambda>r. apl_account r = a) (apple_credentials d),
     oauth_consents := delete_rows (\<lambda>r. con_account r = a) (oauth_consents d),
     oauth_codes := delete_rows (\<lambda>r. cod_account r = a) (oauth_codes d),
     refresh_tokens := delete_rows (\<lambda>r. ref_account r = a) (refresh_tokens d),
     email_channel := drop_deliveries a (email_channel d),
     webhook_channel := drop_deliveries a (webhook_channel d),
     push_channel := drop_deliveries a (push_channel d),
     episodes := delete_rows (\<lambda>r. epi_account r = a) (episodes d),
     final_briefs := delete_rows (\<lambda>r. fst r = a) (final_briefs d),
     upload_intents := delete_rows (\<lambda>r. upl_account r = a) (upload_intents d),
     reviewer_fixtures := delete_rows (\<lambda>r. r = a) (reviewer_fixtures d),
     billing_accounts := delete_rows (\<lambda>r. fst r = a) (billing_accounts d),
     recording_leases := delete_rows (\<lambda>r. rl_account r = a) (recording_leases d),
     lease_requests := delete_rows (\<lambda>r. lr_account r = a) (lease_requests d),
     lease_denials := delete_rows (\<lambda>r. ld_account r = a) (lease_denials d),
     delivery_balances := delete_rows (\<lambda>r. ba_account r = a) (delivery_balances d),
     delivery_reservations := delete_rows (\<lambda>r. rv_account r = a) (delivery_reservations d),
     offline_receipts := delete_rows (\<lambda>r. fst r = a) (offline_receipts d),
     batch_receipts := delete_rows (\<lambda>r. bt_account r = a) (batch_receipts d),
     erasure_fences := delete_rows (\<lambda>r. r = a) (erasure_fences d),
     erased_events := delete_rows (\<lambda>r. fst r = a) (erased_events d),
     erased_streams := delete_rows (\<lambda>r. fst r = a) (erased_streams d),
     webhook_subscriptions := delete_rows (\<lambda>r. wh_account r = a) (webhook_subscriptions d),
     email_preferences := delete_rows (\<lambda>r. ep_account r = a) (email_preferences d),
     push_installations := delete_rows (\<lambda>r. pu_account r = a) (push_installations d),
     usage_daily := delete_rows (\<lambda>r. us_account r = a) (usage_daily d),
     vertex_events := delete_rows (\<lambda>r. ve_account r = a) (vertex_events d),
     vertex_coverage := delete_rows (\<lambda>r. vc_account r = a) (vertex_coverage d)\<rparr>"

text \<open>Deleting OAuth clients cascades to the rows that reference them.\<close>

definition delete_clients :: "(client_row \<Rightarrow> bool) \<Rightarrow> db \<Rightarrow> db" where
  "delete_clients P d =
     (let gone = (\<lambda>c. exists_row (\<lambda>r. cl_id r = c \<and> P r) (oauth_clients d)) in
      d\<lparr>oauth_clients := delete_rows P (oauth_clients d),
        oauth_consents := delete_rows (\<lambda>r. gone (con_client r)) (oauth_consents d),
        oauth_codes := delete_rows (\<lambda>r. gone (cod_client r)) (oauth_codes d),
        refresh_tokens := delete_rows (\<lambda>r. gone (ref_client r)) (refresh_tokens d)\<rparr>)"

section \<open>Schema constraints\<close>

text \<open>
  The primary keys, unique constraints and foreign keys of the identity and OAuth tables. They
  hold in every database PostgreSQL can hold; the transactions are shown to keep them, which is
  what makes the model's lists stand for tables.
\<close>

definition account_ids :: "db \<Rightarrow> string set" where
  "account_ids d = acc_id ` set (accounts d)"

definition client_ids :: "db \<Rightarrow> string set" where
  "client_ids d = cl_id ` set (oauth_clients d)"

definition identity_ok :: "db \<Rightarrow> bool" where
  "identity_ok d \<longleftrightarrow>
     distinct (map acc_id (accounts d))
   \<and> distinct (map (\<lambda>r. (acc_provider r, acc_subject r)) (accounts d))
   \<and> child_ok (account_ids d) UNIV (\<lambda>r. (idn_provider r, idn_subject r)) idn_account (\<lambda>_. ()) (auth_identities d)
   \<and> distinct (map (\<lambda>r. (idn_account r, idn_provider r)) (auth_identities d))
   \<and> child_ok (account_ids d) UNIV (\<lambda>r. (apl_account r, apl_client r)) apl_account (\<lambda>_. ()) (apple_credentials d)
   \<and> distinct (map fst (signup_daily d))
   \<and> distinct (map del_account (deletion_operations d))"

definition oauth_ok :: "db \<Rightarrow> bool" where
  "oauth_ok d \<longleftrightarrow>
     distinct (map cl_id (oauth_clients d))
   \<and> child_ok (account_ids d) (client_ids d) con_hash con_account con_client (oauth_consents d)
   \<and> child_ok (account_ids d) (client_ids d) cod_hash cod_account cod_client (oauth_codes d)
   \<and> child_ok (account_ids d) (client_ids d) ref_hash ref_account ref_client (refresh_tokens d)"

definition schema_ok :: "db \<Rightarrow> bool" where
  "schema_ok d \<longleftrightarrow> identity_ok d \<and> oauth_ok d"

lemma schema_ok_empty: "schema_ok empty_db"
  by (simp add: schema_ok_def identity_ok_def oauth_ok_def empty_db_def)

lemma account_active_iff:
  "account_active d a \<longleftrightarrow> (\<exists>r\<in>set (accounts d). acc_id r = a \<and> acc_status r = Active)"
  by (simp add: account_active_def)

lemma account_active_id: "account_active d a \<Longrightarrow> a \<in> account_ids d"
  by (auto simp: account_active_iff account_ids_def)

lemma client_exists_iff: "client_exists d c \<longleftrightarrow> c \<in> client_ids d"
  by (auto simp: client_exists_def client_ids_def)

end
