(* ===== verification/OAuth_Store.thy ===== *)
theory OAuth_Store
  imports Schema
begin

text \<open>
  The OAuth repository of \<^verbatim>\<open>persistence/postgres/oauth.rs\<close>: first-party and dynamic clients,
  pending consents, authorization codes and refresh tokens. Each function is one transaction with
  its early returns; a return before \<^verbatim>\<open>commit\<close> leaves the database unchanged. Only digests of
  secrets reach this boundary, so hashes are opaque strings.
\<close>

section \<open>Requests\<close>

record oauth_client =
  oc_id :: string
  oc_name :: "string option"
  oc_redirects :: "string list"

record client_definition =
  cd_id :: string
  cd_name :: string
  cd_redirects :: "string list"
  cd_allow_upgrade :: bool

record registration_request =
  rr_proposed_id :: string
  rr_name :: "string option"
  rr_redirects :: "string list"
  rr_protected :: "string \<times> string"
  rr_capacity :: int
  rr_unused_ttl :: nat

datatype client_registration = Existing string | Created string | AtCapacity

record pending_consent =
  pc_hash :: string
  pc_account :: string
  pc_client :: string
  pc_redirect :: string
  pc_ttl :: nat

record consent_approval =
  ca_hash :: string
  ca_code_hash :: string
  ca_account :: string
  ca_client :: string
  ca_redirect :: string
  ca_code_ttl :: nat

record direct_code =
  dc_code_hash :: string
  dc_account :: string
  dc_client :: string
  dc_ttl :: nat

record code_exchange =
  ce_code_hash :: string
  ce_account :: string
  ce_client :: string
  ce_refresh_hash :: string
  ce_refresh_ttl :: nat

record token_rotation =
  tr_old_hash :: string
  tr_client :: string
  tr_new_hash :: string
  tr_refresh_ttl :: nat

record native_session =
  ns_account :: string
  ns_client :: client_definition
  ns_refresh_hash :: string
  ns_refresh_ttl :: nat

section \<open>Transactions\<close>

definition ensure_client :: "timestamp \<Rightarrow> client_definition \<Rightarrow> db \<Rightarrow> unit tx" where
  "ensure_client now c d =
     (case lookup_row cl_id (cd_id c) (oauth_clients d) of
        Some row \<Rightarrow>
          if cl_name row = Some (cd_name c) \<and> cl_redirects row = cd_redirects c then (Inr (), d)
          else if cd_allow_upgrade c \<and> cl_name row = Some (cd_name c) \<and> cl_redirects row = []
          then (Inr (), d\<lparr>oauth_clients := update_rows (\<lambda>r. cl_id r = cd_id c)
                                 (\<lambda>r. r\<lparr>cl_redirects := cd_redirects c\<rparr>) (oauth_clients d)\<rparr>)
          else (Inl (Conflict ''first-party OAuth client configuration mismatch''), d)
      | None \<Rightarrow>
          (Inr (), d\<lparr>oauth_clients := oauth_clients d @
             [\<lparr>cl_id = cd_id c, cl_name = Some (cd_name c), cl_redirects = cd_redirects c,
               cl_created = now\<rparr>]\<rparr>))"

definition unprotected_count :: "registration_request \<Rightarrow> db \<Rightarrow> int" where
  "unprotected_count q d =
     count_rows (\<lambda>r. cl_id r \<noteq> fst (rr_protected q) \<and> cl_id r \<noteq> snd (rr_protected q)) (oauth_clients d)"

text \<open>The clients that registration may reclaim: old, unprotected and without live state.\<close>

definition reclaimable :: "timestamp \<Rightarrow> registration_request \<Rightarrow> int \<Rightarrow> db \<Rightarrow> client_row \<Rightarrow> bool" where
  "reclaimable now q unused_seconds d r \<longleftrightarrow>
     cl_id r \<noteq> fst (rr_protected q) \<and> cl_id r \<noteq> snd (rr_protected q)
     \<and> cl_created r \<le> now - seconds unused_seconds
     \<and> \<not> exists_row (\<lambda>p. con_client p = cl_id r \<and> con_expires p > now) (oauth_consents d)
     \<and> \<not> exists_row (\<lambda>a. cod_client a = cl_id r \<and> cod_expires a > now) (oauth_codes d)
     \<and> \<not> exists_row (\<lambda>t. ref_client t = cl_id r \<and> ref_revoked t = None \<and> ref_expires t > now)
           (refresh_tokens d)"

definition register_client :: "timestamp \<Rightarrow> registration_request \<Rightarrow> db \<Rightarrow> client_registration tx" where
  "register_client now q d =
     (case duration_seconds (rr_unused_ttl q) of Inl e \<Rightarrow> (Inl e, d)
      | Inr unused_seconds \<Rightarrow>
     (case List.find (\<lambda>r. cl_redirects r = rr_redirects q) (oauth_clients d) of
        Some row \<Rightarrow> (Inr (Existing (cl_id row)), d)
      | None \<Rightarrow>
        let d1 = (if unprotected_count q d \<ge> rr_capacity q
                  then delete_clients (reclaimable now q unused_seconds d) d else d)
        in if unprotected_count q d1 \<ge> rr_capacity q then (Inr AtCapacity, d1)
           else (case insert_row cl_id
                        \<lparr>cl_id = rr_proposed_id q, cl_name = rr_name q,
                         cl_redirects = rr_redirects q, cl_created = now\<rparr> (oauth_clients d1) of
                   None \<Rightarrow> (Inl (Postgres ''unique_violation''), d)
                 | Some t \<Rightarrow> (Inr (Created (rr_proposed_id q)), d1\<lparr>oauth_clients := t\<rparr>))))"

definition client :: "string \<Rightarrow> db \<Rightarrow> oauth_client option" where
  "client client_id d =
     map_option (\<lambda>row. \<lparr>oc_id = client_id, oc_name = cl_name row, oc_redirects = cl_redirects row\<rparr>)
       (lookup_row cl_id client_id (oauth_clients d))"

definition store_pending_consent :: "timestamp \<Rightarrow> pending_consent \<Rightarrow> db \<Rightarrow> bool tx" where
  "store_pending_consent now c d =
     (case duration_seconds (pc_ttl c) of Inl e \<Rightarrow> (Inl e, d)
      | Inr ttl \<Rightarrow>
        let kept = delete_rows (\<lambda>r. con_expires r \<le> now) (oauth_consents d)
        in if account_active d (pc_account c) \<and> client_exists d (pc_client c)
              \<and> \<not> has_key con_hash (pc_hash c) kept
           then (Inr True, d\<lparr>oauth_consents := kept @
                   [\<lparr>con_hash = pc_hash c, con_account = pc_account c, con_client = pc_client c,
                     con_redirect = pc_redirect c, con_expires = now + seconds ttl\<rparr>]\<rparr>)
           else (Inr False, d))"

definition consent_matches :: "timestamp \<Rightarrow> consent_approval \<Rightarrow> db \<Rightarrow> consent_row \<Rightarrow> bool" where
  "consent_matches now a d r \<longleftrightarrow>
     con_hash r = ca_hash a \<and> con_account r = ca_account a \<and> con_client r = ca_client a
     \<and> con_redirect r = ca_redirect a \<and> con_expires r > now
     \<and> account_active d (con_account r) \<and> client_exists d (con_client r)"

definition approve_consent :: "timestamp \<Rightarrow> consent_approval \<Rightarrow> db \<Rightarrow> bool tx" where
  "approve_consent now a d =
     (case duration_seconds (ca_code_ttl a) of Inl e \<Rightarrow> (Inl e, d)
      | Inr ttl \<Rightarrow>
        if count_rows (consent_matches now a d) (oauth_consents d) \<noteq> 1 then (Inr False, d)
        else (case insert_row cod_hash
                     \<lparr>cod_hash = ca_code_hash a, cod_account = ca_account a,
                      cod_client = ca_client a, cod_expires = now + seconds ttl\<rparr> (oauth_codes d) of
                None \<Rightarrow> (Inl (Postgres ''unique_violation''), d)
              | Some t \<Rightarrow>
                (Inr True, d\<lparr>oauth_consents := delete_rows (consent_matches now a d) (oauth_consents d),
                             oauth_codes := t\<rparr>)))"

definition store_direct_authorization_code :: "timestamp \<Rightarrow> direct_code \<Rightarrow> db \<Rightarrow> bool tx" where
  "store_direct_authorization_code now c d =
     (case duration_seconds (dc_ttl c) of Inl e \<Rightarrow> (Inl e, d)
      | Inr ttl \<Rightarrow>
        let kept = delete_rows (\<lambda>r. cod_expires r \<le> now) (oauth_codes d)
        in if account_active d (dc_account c) \<and> client_exists d (dc_client c)
              \<and> \<not> has_key cod_hash (dc_code_hash c) kept
           then (Inr True, d\<lparr>oauth_codes := kept @
                   [\<lparr>cod_hash = dc_code_hash c, cod_account = dc_account c,
                     cod_client = dc_client c, cod_expires = now + seconds ttl\<rparr>]\<rparr>)
           else (Inr False, d))"

definition code_matches :: "timestamp \<Rightarrow> code_exchange \<Rightarrow> db \<Rightarrow> code_row \<Rightarrow> bool" where
  "code_matches now e d r \<longleftrightarrow>
     cod_hash r = ce_code_hash e \<and> cod_account r = ce_account e \<and> cod_client r = ce_client e
     \<and> cod_expires r > now \<and> account_active d (cod_account r) \<and> client_exists d (cod_client r)"

definition exchange_authorization_code :: "timestamp \<Rightarrow> code_exchange \<Rightarrow> db \<Rightarrow> bool tx" where
  "exchange_authorization_code now e d =
     (case duration_seconds (ce_refresh_ttl e) of Inl err \<Rightarrow> (Inl err, d)
      | Inr ttl \<Rightarrow>
        if count_rows (code_matches now e d) (oauth_codes d) \<noteq> 1 then (Inr False, d)
        else (case insert_row ref_hash
                     \<lparr>ref_hash = ce_refresh_hash e, ref_account = ce_account e,
                      ref_client = ce_client e, ref_expires = now + seconds ttl,
                      ref_revoked = None\<rparr> (refresh_tokens d) of
                None \<Rightarrow> (Inl (Postgres ''unique_violation''), d)
              | Some t \<Rightarrow>
                (Inr True, d\<lparr>oauth_codes := delete_rows (code_matches now e d) (oauth_codes d),
                             refresh_tokens := t\<rparr>)))"

definition refresh_matches :: "timestamp \<Rightarrow> token_rotation \<Rightarrow> db \<Rightarrow> refresh_row \<Rightarrow> bool" where
  "refresh_matches now t d r \<longleftrightarrow>
     ref_hash r = tr_old_hash t \<and> ref_client r = tr_client t \<and> ref_revoked r = None
     \<and> ref_expires r > now \<and> account_active d (ref_account r) \<and> client_exists d (ref_client r)"

definition rotate_refresh_token :: "timestamp \<Rightarrow> token_rotation \<Rightarrow> db \<Rightarrow> string option tx" where
  "rotate_refresh_token now t d =
     (case duration_seconds (tr_refresh_ttl t) of Inl e \<Rightarrow> (Inl e, d)
      | Inr ttl \<Rightarrow>
     (case List.find (refresh_matches now t d) (refresh_tokens d) of
        None \<Rightarrow> (Inr None, d)
      | Some row \<Rightarrow>
        let old = (\<lambda>r. ref_hash r = tr_old_hash t \<and> ref_client r = tr_client t \<and> ref_revoked r = None)
        in if count_rows old (refresh_tokens d) \<noteq> 1 then (Inr None, d)
           else (case insert_row ref_hash
                        \<lparr>ref_hash = tr_new_hash t, ref_account = ref_account row,
                         ref_client = tr_client t, ref_expires = now + seconds ttl,
                         ref_revoked = None\<rparr>
                        (update_rows old (\<lambda>r. r\<lparr>ref_revoked := Some now\<rparr>) (refresh_tokens d)) of
                   None \<Rightarrow> (Inl (Postgres ''unique_violation''), d)
                 | Some ts \<Rightarrow> (Inr (Some (ref_account row)), d\<lparr>refresh_tokens := ts\<rparr>))))"

definition create_native_session_refresh :: "timestamp \<Rightarrow> native_session \<Rightarrow> db \<Rightarrow> unit tx" where
  "create_native_session_refresh now s d =
     (case duration_seconds (ns_refresh_ttl s) of Inl e \<Rightarrow> (Inl e, d)
      | Inr ttl \<Rightarrow>
        if \<not> account_active d (ns_account s) then (Inl (Auth ''account inactive''), d)
        else (case insert_row ref_hash
                     \<lparr>ref_hash = ns_refresh_hash s, ref_account = ns_account s,
                      ref_client = cd_id (ns_client s), ref_expires = now + seconds ttl,
                      ref_revoked = None\<rparr> (refresh_tokens d) of
                None \<Rightarrow> (Inl (Postgres ''unique_violation''), d)
              | Some t \<Rightarrow>
                (Inr (), d\<lparr>oauth_clients := insert_ignore cl_id
                             \<lparr>cl_id = cd_id (ns_client s), cl_name = Some (cd_name (ns_client s)),
                              cl_redirects = cd_redirects (ns_client s), cl_created = now\<rparr>
                             (oauth_clients d),
                           refresh_tokens := t\<rparr>)))"

section \<open>Histories\<close>

text \<open>The transactions as operations of a history; the result of each is dropped.\<close>

datatype oauth_op =
    EnsureClient timestamp client_definition
  | RegisterClient timestamp registration_request
  | StoreConsent timestamp pending_consent
  | ApproveConsent timestamp consent_approval
  | StoreCode timestamp direct_code
  | ExchangeCode timestamp code_exchange
  | RotateRefresh timestamp token_rotation
  | CreateNative timestamp native_session

fun oauth_step :: "oauth_op \<Rightarrow> db \<Rightarrow> db" where
  "oauth_step (EnsureClient now c) d = snd (ensure_client now c d)"
| "oauth_step (RegisterClient now q) d = snd (register_client now q d)"
| "oauth_step (StoreConsent now c) d = snd (store_pending_consent now c d)"
| "oauth_step (ApproveConsent now a) d = snd (approve_consent now a d)"
| "oauth_step (StoreCode now c) d = snd (store_direct_authorization_code now c d)"
| "oauth_step (ExchangeCode now e) d = snd (exchange_authorization_code now e d)"
| "oauth_step (RotateRefresh now t) d = snd (rotate_refresh_token now t d)"
| "oauth_step (CreateNative now s) d = snd (create_native_session_refresh now s d)"

section \<open>Schema constraints are kept\<close>

lemma identity_ok_cong:
  assumes "accounts d' = accounts d" "auth_identities d' = auth_identities d"
    "apple_credentials d' = apple_credentials d" "signup_daily d' = signup_daily d"
    "deletion_operations d' = deletion_operations d"
  shows "identity_ok d' = identity_ok d"
  using assms by (simp add: identity_ok_def account_ids_def)

text \<open>No OAuth transaction touches accounts, identities or deletion state.\<close>

lemma delete_clients_frame [simp]:
  "accounts (delete_clients P d) = accounts d" "auth_identities (delete_clients P d) = auth_identities d"
  "apple_credentials (delete_clients P d) = apple_credentials d"
  "signup_daily (delete_clients P d) = signup_daily d"
  "deletion_operations (delete_clients P d) = deletion_operations d"
  "deleted_accounts (delete_clients P d) = deleted_accounts d"
  "deleted_identities (delete_clients P d) = deleted_identities d"
  by (simp_all add: delete_clients_def Let_def)

lemma oauth_step_frame [simp]:
  "accounts (oauth_step x d) = accounts d" "auth_identities (oauth_step x d) = auth_identities d"
  "apple_credentials (oauth_step x d) = apple_credentials d"
  "signup_daily (oauth_step x d) = signup_daily d"
  "deletion_operations (oauth_step x d) = deletion_operations d"
  "deleted_accounts (oauth_step x d) = deleted_accounts d"
  "deleted_identities (oauth_step x d) = deleted_identities d"
  by (cases x; simp add: ensure_client_def register_client_def store_pending_consent_def
      approve_consent_def store_direct_authorization_code_def exchange_authorization_code_def
      rotate_refresh_token_def create_native_session_refresh_def Let_def
      split: option.split sum.split)+

lemma identity_ok_step: "identity_ok (oauth_step x d) = identity_ok d"
  by (rule identity_ok_cong) simp_all

lemma account_ids_frame [simp]: "account_ids (oauth_step x d) = account_ids d"
  by (simp add: account_ids_def)

text \<open>The key sets only depend on the parents' tables.\<close>

lemma key_sets_frame [simp]:
  "account_ids (d\<lparr>oauth_clients := cl\<rparr>) = account_ids d"
  "account_ids (d\<lparr>oauth_consents := cs\<rparr>) = account_ids d"
  "account_ids (d\<lparr>oauth_codes := co\<rparr>) = account_ids d"
  "account_ids (d\<lparr>refresh_tokens := rt\<rparr>) = account_ids d"
  "client_ids (d\<lparr>oauth_clients := cl\<rparr>) = cl_id ` set cl"
  "client_ids (d\<lparr>oauth_consents := cs\<rparr>) = client_ids d"
  "client_ids (d\<lparr>oauth_codes := co\<rparr>) = client_ids d"
  "client_ids (d\<lparr>refresh_tokens := rt\<rparr>) = client_ids d"
  by (simp_all add: account_ids_def client_ids_def)

lemma oauth_ok_delete_clients: "oauth_ok d \<Longrightarrow> oauth_ok (delete_clients P d)"
proof -
  assume ok: "oauth_ok d"
  define gone where "gone = (\<lambda>c. exists_row (\<lambda>r. cl_id r = c \<and> P r) (oauth_clients d))"
  have kept: "c \<in> cl_id ` set (delete_rows P (oauth_clients d))" if "c \<in> client_ids d" "\<not> gone c" for c
    using that by (auto simp: client_ids_def gone_def)
  have cascade: "child_ok A (cl_id ` set (delete_rows P (oauth_clients d))) key fka fkb
      (delete_rows (\<lambda>r. gone (fkb r)) t)" if "child_ok A (client_ids d) key fka fkb t" for A key fka fkb t
    using that kept by (rule child_ok_cascade_b)
  show ?thesis
    using ok by (simp add: cascade oauth_ok_def delete_clients_def Let_def gone_def [symmetric] del: set_delete_rows exists_row_iff)
qed

lemma oauth_ok_ensure_client: "oauth_ok d \<Longrightarrow> oauth_ok (snd (ensure_client now c d))"
  by (auto simp: oauth_ok_def ensure_client_def lookup_row_None client_ids_def
      map_update_rows image_update_rows intro: child_ok_mono split: option.splits)

lemma oauth_ok_add_client:
  "oauth_ok d \<Longrightarrow> insert_row cl_id r (oauth_clients d) = Some t \<Longrightarrow> oauth_ok (d\<lparr>oauth_clients := t\<rparr>)"
  by (auto simp: oauth_ok_def insert_row_Some client_ids_def intro: child_ok_mono)

lemma oauth_ok_register_client: "oauth_ok d \<Longrightarrow> oauth_ok (snd (register_client now q d))"
proof -
  assume ok: "oauth_ok d"
  show ?thesis
    using ok oauth_ok_delete_clients [OF ok] oauth_ok_add_client
    by (auto simp: register_client_def Let_def split: option.split sum.split)
qed

lemma oauth_ok_store_pending_consent: "oauth_ok d \<Longrightarrow> oauth_ok (snd (store_pending_consent now c d))"
  by (auto simp: oauth_ok_def store_pending_consent_def Let_def client_exists_iff account_active_id
      intro!: child_ok_append split: sum.split)

lemma oauth_ok_store_direct_code:
  "oauth_ok d \<Longrightarrow> oauth_ok (snd (store_direct_authorization_code now c d))"
  by (auto simp: oauth_ok_def store_direct_authorization_code_def Let_def client_exists_iff account_active_id
      intro!: child_ok_append split: sum.split)

lemma oauth_ok_approve_consent: "oauth_ok d \<Longrightarrow> oauth_ok (snd (approve_consent now a d))"
  by (auto simp: oauth_ok_def approve_consent_def insert_row_Some consent_matches_def
      client_exists_iff account_active_id
      intro!: child_ok_append dest!: one_match_exists split: sum.split option.split)

lemma oauth_ok_exchange: "oauth_ok d \<Longrightarrow> oauth_ok (snd (exchange_authorization_code now e d))"
  by (auto simp: oauth_ok_def exchange_authorization_code_def insert_row_Some code_matches_def
      client_exists_iff account_active_id
      intro!: child_ok_append dest!: one_match_exists split: sum.split option.split)

lemma oauth_ok_rotate: "oauth_ok d \<Longrightarrow> oauth_ok (snd (rotate_refresh_token now t d))"
  by (auto simp: oauth_ok_def rotate_refresh_token_def Let_def insert_row_Some
      refresh_matches_def client_exists_iff account_active_id find_Some_iff
      intro!: child_ok_append child_ok_update split: sum.split option.split)

lemma oauth_ok_create_native: "oauth_ok d \<Longrightarrow> oauth_ok (snd (create_native_session_refresh now s d))"
  by (auto simp: oauth_ok_def create_native_session_refresh_def client_ids_def
      insert_row_Some account_active_id distinct_insert_ignore set_insert_ignore
      intro!: child_ok_append elim!: child_ok_mono split: sum.split option.split)

lemma oauth_ok_step: "oauth_ok d \<Longrightarrow> oauth_ok (oauth_step x d)"
  by (cases x) (simp_all add: oauth_ok_ensure_client oauth_ok_register_client
      oauth_ok_store_pending_consent oauth_ok_store_direct_code oauth_ok_approve_consent
      oauth_ok_exchange oauth_ok_rotate oauth_ok_create_native)


section \<open>Single use\<close>

text \<open>When an operation spends a capability, and when it creates one, by the capability's digest.\<close>

definition live_consent :: "string \<Rightarrow> db \<Rightarrow> bool" where
  "live_consent h d \<longleftrightarrow> exists_row (\<lambda>r. con_hash r = h) (oauth_consents d)"

definition live_code :: "string \<Rightarrow> db \<Rightarrow> bool" where
  "live_code h d \<longleftrightarrow> exists_row (\<lambda>r. cod_hash r = h) (oauth_codes d)"

definition live_refresh :: "string \<Rightarrow> db \<Rightarrow> bool" where
  "live_refresh h d \<longleftrightarrow> exists_row (\<lambda>r. ref_hash r = h \<and> ref_revoked r = None) (refresh_tokens d)"

fun approves_consent :: "string \<Rightarrow> oauth_op \<Rightarrow> db \<Rightarrow> bool" where
  "approves_consent h (ApproveConsent now a) d \<longleftrightarrow>
     ca_hash a = h \<and> fst (approve_consent now a d) = Inr True"
| "approves_consent h _ d \<longleftrightarrow> False"

fun mints_consent :: "string \<Rightarrow> oauth_op \<Rightarrow> bool" where
  "mints_consent h (StoreConsent now c) \<longleftrightarrow> pc_hash c = h"
| "mints_consent h _ \<longleftrightarrow> False"

fun exchanges_code :: "string \<Rightarrow> oauth_op \<Rightarrow> db \<Rightarrow> bool" where
  "exchanges_code h (ExchangeCode now e) d \<longleftrightarrow>
     ce_code_hash e = h \<and> fst (exchange_authorization_code now e d) = Inr True"
| "exchanges_code h _ d \<longleftrightarrow> False"

fun mints_code :: "string \<Rightarrow> oauth_op \<Rightarrow> bool" where
  "mints_code h (StoreCode now c) \<longleftrightarrow> dc_code_hash c = h"
| "mints_code h (ApproveConsent now a) \<longleftrightarrow> ca_code_hash a = h"
| "mints_code h _ \<longleftrightarrow> False"

fun rotates_refresh :: "string \<Rightarrow> oauth_op \<Rightarrow> db \<Rightarrow> bool" where
  "rotates_refresh h (RotateRefresh now t) d \<longleftrightarrow>
     tr_old_hash t = h \<and> (\<exists>a. fst (rotate_refresh_token now t d) = Inr (Some a))"
| "rotates_refresh h _ d \<longleftrightarrow> False"

fun mints_refresh :: "string \<Rightarrow> oauth_op \<Rightarrow> bool" where
  "mints_refresh h (ExchangeCode now e) \<longleftrightarrow> ce_refresh_hash e = h"
| "mints_refresh h (RotateRefresh now t) \<longleftrightarrow> tr_new_hash t = h"
| "mints_refresh h (CreateNative now s) \<longleftrightarrow> ns_refresh_hash s = h"
| "mints_refresh h _ \<longleftrightarrow> False"

lemmas oauth_defs = ensure_client_def register_client_def store_pending_consent_def
  approve_consent_def store_direct_authorization_code_def exchange_authorization_code_def
  rotate_refresh_token_def create_native_session_refresh_def delete_clients_def Let_def

text \<open>Every other way a row of these tables changes is a deletion.\<close>

lemma consent_rows_step:
  "r \<in> set (oauth_consents (oauth_step x d)) \<Longrightarrow> \<not> mints_consent (con_hash r) x \<Longrightarrow>
   r \<in> set (oauth_consents d)"
  by (cases x) (auto simp: oauth_defs split: option.splits sum.splits if_splits)

lemma code_rows_step:
  "r \<in> set (oauth_codes (oauth_step x d)) \<Longrightarrow> \<not> mints_code (cod_hash r) x \<Longrightarrow>
   r \<in> set (oauth_codes d)"
  by (cases x) (auto simp: oauth_defs insert_row_Some split: option.splits sum.splits if_splits)

lemma refresh_rows_step:
  "r \<in> set (refresh_tokens (oauth_step x d)) \<Longrightarrow> \<not> mints_refresh (ref_hash r) x \<Longrightarrow>
   ref_revoked r = None \<Longrightarrow> r \<in> set (refresh_tokens d)"
  by (cases x) (auto simp: oauth_defs insert_row_Some set_update_rows split: option.splits sum.splits if_splits)

lemma approve_consent_True:
  assumes "fst (approve_consent now a d) = Inr True"
  shows "\<exists>r\<in>set (oauth_consents d). consent_matches now a d r"
    and "oauth_consents (snd (approve_consent now a d)) = delete_rows (consent_matches now a d) (oauth_consents d)"
  using assms by (auto simp: approve_consent_def split: option.splits sum.splits if_splits dest!: one_match_exists)

lemma exchange_True:
  assumes "fst (exchange_authorization_code now e d) = Inr True"
  shows "\<exists>r\<in>set (oauth_codes d). code_matches now e d r"
    and "oauth_codes (snd (exchange_authorization_code now e d)) = delete_rows (code_matches now e d) (oauth_codes d)"
  using assms by (auto simp: exchange_authorization_code_def split: option.splits sum.splits if_splits dest!: one_match_exists)

lemma rotate_Some:
  assumes "fst (rotate_refresh_token now t d) = Inr (Some a)"
  obtains r ttl where "r \<in> set (refresh_tokens d)" "refresh_matches now t d r" "ref_account r = a"
    "tr_new_hash t \<notin> ref_hash ` set (refresh_tokens d)"
    "refresh_tokens (snd (rotate_refresh_token now t d)) =
       update_rows (\<lambda>r. ref_hash r = tr_old_hash t \<and> ref_client r = tr_client t \<and> ref_revoked r = None)
         (\<lambda>r. r\<lparr>ref_revoked := Some now\<rparr>) (refresh_tokens d) @
       [\<lparr>ref_hash = tr_new_hash t, ref_account = a, ref_client = tr_client t,
         ref_expires = now + seconds ttl, ref_revoked = None\<rparr>]"
  using assms
  by (auto simp: rotate_refresh_token_def Let_def insert_row_def image_update_rows
      split: option.splits sum.splits if_splits dest!: find_Some_match)

interpretation consent: one_shot oauth_step oauth_ok live_consent approves_consent mints_consent
proof
  fix d x k
  show "oauth_ok d \<Longrightarrow> oauth_ok (oauth_step x d)" by (rule oauth_ok_step)
  assume ok: "oauth_ok d"
  show "approves_consent k x d \<Longrightarrow> live_consent k d"
    by (cases x) (auto simp: live_consent_def consent_matches_def dest!: approve_consent_True(1))
  show "\<not> live_consent k (oauth_step x d)" if "approves_consent k x d"
  proof (cases x)
    case (ApproveConsent now a)
    with that have a: "fst (approve_consent now a d) = Inr True" "ca_hash a = k" by simp_all
    from approve_consent_True(1) [OF a(1)] obtain r
      where r: "r \<in> set (oauth_consents d)" "consent_matches now a d r" by blast
    have "q = r" if "q \<in> set (oauth_consents d)" "con_hash q = k" for q
      using that r a(2) ok by (auto simp: oauth_ok_def child_ok_def consent_matches_def dest: key_unique)
    with r show ?thesis
      by (auto simp: ApproveConsent live_consent_def approve_consent_True(2) [OF a(1)])
  qed (use that in simp_all)
  show "live_consent k (oauth_step x d) \<Longrightarrow> \<not> live_consent k d \<Longrightarrow> mints_consent k x"
    by (auto simp: live_consent_def dest: consent_rows_step)
qed

interpretation code: one_shot oauth_step oauth_ok live_code exchanges_code mints_code
proof
  fix d x k
  show "oauth_ok d \<Longrightarrow> oauth_ok (oauth_step x d)" by (rule oauth_ok_step)
  assume ok: "oauth_ok d"
  show "exchanges_code k x d \<Longrightarrow> live_code k d"
    by (cases x) (auto simp: live_code_def code_matches_def dest!: exchange_True(1))
  show "\<not> live_code k (oauth_step x d)" if "exchanges_code k x d"
  proof (cases x)
    case (ExchangeCode now e)
    with that have e: "fst (exchange_authorization_code now e d) = Inr True" "ce_code_hash e = k" by simp_all
    from exchange_True(1) [OF e(1)] obtain r
      where r: "r \<in> set (oauth_codes d)" "code_matches now e d r" by blast
    have "q = r" if "q \<in> set (oauth_codes d)" "cod_hash q = k" for q
      using that r e(2) ok by (auto simp: oauth_ok_def child_ok_def code_matches_def dest: key_unique)
    with r show ?thesis
      by (auto simp: ExchangeCode live_code_def exchange_True(2) [OF e(1)])
  qed (use that in simp_all)
  show "live_code k (oauth_step x d) \<Longrightarrow> \<not> live_code k d \<Longrightarrow> mints_code k x"
    by (auto simp: live_code_def dest: code_rows_step)
qed

interpretation refresh: one_shot oauth_step oauth_ok live_refresh rotates_refresh mints_refresh
proof
  fix d x k
  show "oauth_ok d \<Longrightarrow> oauth_ok (oauth_step x d)" by (rule oauth_ok_step)
  assume ok: "oauth_ok d"
  show "rotates_refresh k x d \<Longrightarrow> live_refresh k d"
    by (cases x) (auto simp: live_refresh_def refresh_matches_def elim!: rotate_Some)
  show "\<not> live_refresh k (oauth_step x d)" if "rotates_refresh k x d"
  proof (cases x)
    case (RotateRefresh now t)
    with that obtain a where a: "fst (rotate_refresh_token now t d) = Inr (Some a)" "tr_old_hash t = k" by auto
    from rotate_Some [OF a(1)] obtain r ttl
      where r: "r \<in> set (refresh_tokens d)" "refresh_matches now t d r"
        "tr_new_hash t \<notin> ref_hash ` set (refresh_tokens d)"
        "refresh_tokens (snd (rotate_refresh_token now t d)) =
           update_rows (\<lambda>r. ref_hash r = tr_old_hash t \<and> ref_client r = tr_client t \<and> ref_revoked r = None)
             (\<lambda>r. r\<lparr>ref_revoked := Some now\<rparr>) (refresh_tokens d) @
           [\<lparr>ref_hash = tr_new_hash t, ref_account = a, ref_client = tr_client t,
             ref_expires = now + seconds ttl, ref_revoked = None\<rparr>]" .
    have "q = r" if "q \<in> set (refresh_tokens d)" "ref_hash q = k" for q
      using that r(1,2) a(2) ok by (auto simp: oauth_ok_def child_ok_def refresh_matches_def dest: key_unique)
    moreover have "ref_client r = tr_client t" "tr_old_hash t \<noteq> tr_new_hash t"
      using r(1-3) by (auto simp: refresh_matches_def intro: rev_image_eqI)
    ultimately show ?thesis
      using a(2) by (auto simp: RotateRefresh live_refresh_def r(4) set_update_rows)
  qed (use that in simp_all)
  show "live_refresh k (oauth_step x d) \<Longrightarrow> \<not> live_refresh k d \<Longrightarrow> mints_refresh k x"
    by (auto simp: live_refresh_def dest: refresh_rows_step)
qed


section \<open>Reclaiming clients\<close>

text \<open>What a client still has in use: a live consent, a live code or a live refresh token.\<close>

definition client_in_use :: "timestamp \<Rightarrow> db \<Rightarrow> string \<Rightarrow> bool" where
  "client_in_use now d c \<longleftrightarrow>
     exists_row (\<lambda>p. con_client p = c \<and> con_expires p > now) (oauth_consents d)
     \<or> exists_row (\<lambda>a. cod_client a = c \<and> cod_expires a > now) (oauth_codes d)
     \<or> exists_row (\<lambda>t. ref_client t = c \<and> ref_revoked t = None \<and> ref_expires t > now) (refresh_tokens d)"

lemma reclaimable_unused: "reclaimable now q s d r \<Longrightarrow> \<not> client_in_use now d (cl_id r)"
  by (auto simp: reclaimable_def client_in_use_def)

lemma unprotected_count_append:
  "unprotected_count q (d\<lparr>oauth_clients := oauth_clients d @ [r]\<rparr>) \<le> unprotected_count q d + 1"
  by (simp add: unprotected_count_def count_rows_def)

text \<open>The two shapes of a registration's effect on the tables.\<close>

lemma register_client_effect:
  obtains (same) "snd (register_client now q d) = d"
    "\<forall>c. fst (register_client now q d) \<noteq> Inr (Created c)"
  | (capped) s e where "e = d \<or> e = delete_clients (reclaimable now q s d) d"
      "fst (register_client now q d) = Inr AtCapacity" "snd (register_client now q d) = e"
  | (created) s e r where "e = d \<or> e = delete_clients (reclaimable now q s d) d"
      "unprotected_count q e < rr_capacity q" "fst (register_client now q d) = Inr (Created (rr_proposed_id q))"
      "snd (register_client now q d) = e\<lparr>oauth_clients := oauth_clients e @ [r]\<rparr>"
      "cl_id r = rr_proposed_id q" "rr_proposed_id q \<notin> client_ids e"
proof (cases "duration_seconds (rr_unused_ttl q)")
  case (Inl a)
  then show ?thesis by (intro same) (simp_all add: register_client_def)
next
  case (Inr s)
  show ?thesis
  proof (cases "List.find (\<lambda>r. cl_redirects r = rr_redirects q) (oauth_clients d)")
    case (Some a)
    with Inr show ?thesis by (intro same) (simp_all add: register_client_def)
  next
    case None
    define e where "e = (if unprotected_count q d \<ge> rr_capacity q
      then delete_clients (reclaimable now q s d) d else d)"
    define r where "r = \<lparr>cl_id = rr_proposed_id q, cl_name = rr_name q,
      cl_redirects = rr_redirects q, cl_created = now\<rparr>"
    have e: "e = d \<or> e = delete_clients (reclaimable now q s d) d" by (simp add: e_def)
    have reg: "register_client now q d = (if unprotected_count q e \<ge> rr_capacity q then (Inr AtCapacity, e)
      else case insert_row cl_id r (oauth_clients e) of
        None \<Rightarrow> (Inl (Postgres ''unique_violation''), d)
      | Some t \<Rightarrow> (Inr (Created (rr_proposed_id q)), e\<lparr>oauth_clients := t\<rparr>))"
      by (simp only: register_client_def Inr None Let_def e_def r_def sum.case option.case)
    show ?thesis
    proof (cases "unprotected_count q e \<ge> rr_capacity q")
      case True
      with reg show ?thesis by (intro capped [OF e]) simp_all
    next
      case False
      show ?thesis
      proof (cases "insert_row cl_id r (oauth_clients e)")
        case None
        with reg False show ?thesis by (intro same) simp_all
      next
        case (Some t)
        then have t: "t = oauth_clients e @ [r]" "cl_id r \<notin> cl_id ` set (oauth_clients e)"
          by (simp_all add: insert_row_Some)
        show ?thesis
          using reg False Some t
          by (intro created [OF e, of r]) (simp_all add: client_ids_def, simp_all add: r_def)
      qed
    qed
  qed
qed

lemma delete_clients_keeps_used:
  assumes "client_in_use now d (cl_id r)" "r \<in> set (oauth_clients d)"
  shows "r \<in> set (oauth_clients (delete_clients (reclaimable now q s d) d))"
  using assms reclaimable_unused [of now q s d r] by (auto simp: delete_clients_def Let_def)

lemma delete_clients_keeps_rows:
  "\<not> P c \<Longrightarrow> c \<in> set (oauth_clients d) \<Longrightarrow> distinct (map cl_id (oauth_clients d)) \<Longrightarrow>
   r \<in> set (refresh_tokens d) \<Longrightarrow> ref_client r = cl_id c \<Longrightarrow> r \<in> set (refresh_tokens (delete_clients P d))"
  by (auto simp: delete_clients_def Let_def dest: key_unique)


section \<open>Properties\<close>

text \<open>C5. An authorization code is exchanged at most once: over any history in which its digest is
  not issued again, at most one exchange of it succeeds.\<close>

theorem code_exchanged_at_most_once:
  assumes "oauth_ok d" and "\<not> list_ex (mints_code h) ops"
  shows "hits oauth_step (exchanges_code h) ops d \<le> 1"
  using assms by (rule code.at_most_one_consumption)

text \<open>A database with one active account, one client, one live code and one live refresh token.\<close>

definition sample_db :: db where
  "sample_db = empty_db\<lparr>
     accounts := [\<lparr>acc_id = ''a'', acc_email = ''e'', acc_status = Active, acc_provider = ''google'',
                   acc_subject = ''s'', acc_created = 0\<rparr>],
     oauth_clients := [\<lparr>cl_id = ''c'', cl_name = Some ''n'', cl_redirects = [''u''], cl_created = 0\<rparr>],
     oauth_consents := [\<lparr>con_hash = ''k'', con_account = ''a'', con_client = ''c'', con_redirect = ''u'',
                         con_expires = 100\<rparr>],
     oauth_codes := [\<lparr>cod_hash = ''h'', cod_account = ''a'', cod_client = ''c'', cod_expires = 100\<rparr>],
     refresh_tokens := [\<lparr>ref_hash = ''r'', ref_account = ''a'', ref_client = ''c'', ref_expires = 100,
                         ref_revoked = None\<rparr>]\<rparr>"

lemma sample_db_ok: "oauth_ok sample_db"
  by (simp add: sample_db_def empty_db_def oauth_ok_def child_ok_def account_ids_def client_ids_def)

definition sample_exchange :: oauth_op where
  "sample_exchange = ExchangeCode 1 \<lparr>ce_code_hash = ''h'', ce_account = ''a'', ce_client = ''c'',
     ce_refresh_hash = ''r2'', ce_refresh_ttl = 60\<rparr>"

theorem code_exchanged_at_most_once_witness:
  "hits oauth_step (exchanges_code ''h'') [sample_exchange, sample_exchange] sample_db \<le> 1
   \<and> exchanges_code ''h'' sample_exchange sample_db"
proof
  show "hits oauth_step (exchanges_code ''h'') [sample_exchange, sample_exchange] sample_db \<le> 1"
    by (rule code_exchanged_at_most_once [OF sample_db_ok]) (simp add: sample_exchange_def)
  show "exchanges_code ''h'' sample_exchange sample_db"
    by code_simp
qed

text \<open>C2. A refresh token is rotated at most once: over any history in which its digest is not
  issued again, at most one rotation of it succeeds, whatever the other transactions do.\<close>

theorem refresh_rotated_at_most_once:
  assumes "oauth_ok d" and "\<not> list_ex (mints_refresh h) ops"
  shows "hits oauth_step (rotates_refresh h) ops d \<le> 1"
  using assms by (rule refresh.at_most_one_consumption)

definition sample_rotate :: "string \<Rightarrow> oauth_op" where
  "sample_rotate new = RotateRefresh 1 \<lparr>tr_old_hash = ''r'', tr_client = ''c'', tr_new_hash = new,
     tr_refresh_ttl = 60\<rparr>"

theorem refresh_rotated_at_most_once_witness:
  "hits oauth_step (rotates_refresh ''r'') [sample_rotate ''x'', sample_rotate ''y''] sample_db \<le> 1
   \<and> fst (rotate_refresh_token 1 \<lparr>tr_old_hash = ''r'', tr_client = ''c'', tr_new_hash = ''x'',
       tr_refresh_ttl = 60\<rparr> sample_db) = Inr (Some ''a'')"
proof
  show "hits oauth_step (rotates_refresh ''r'') [sample_rotate ''x'', sample_rotate ''y''] sample_db \<le> 1"
    by (rule refresh_rotated_at_most_once [OF sample_db_ok]) (simp add: sample_rotate_def)
  show "fst (rotate_refresh_token 1 \<lparr>tr_old_hash = ''r'', tr_client = ''c'', tr_new_hash = ''x'',
       tr_refresh_ttl = 60\<rparr> sample_db) = Inr (Some ''a'')"
    by code_simp
qed

text \<open>A consent is approved at most once over any history that does not store it again.\<close>

theorem consent_approved_at_most_once:
  assumes "oauth_ok d" and "\<not> list_ex (mints_consent h) ops"
  shows "hits oauth_step (approves_consent h) ops d \<le> 1"
  using assms by (rule consent.at_most_one_consumption)

definition sample_approve :: "string \<Rightarrow> oauth_op" where
  "sample_approve h = ApproveConsent 1 \<lparr>ca_hash = ''k'', ca_code_hash = h, ca_account = ''a'',
     ca_client = ''c'', ca_redirect = ''u'', ca_code_ttl = 60\<rparr>"

theorem consent_approved_at_most_once_witness:
  "hits oauth_step (approves_consent ''k'') [sample_approve ''h1'', sample_approve ''h2''] sample_db \<le> 1
   \<and> approves_consent ''k'' (sample_approve ''h1'') sample_db"
proof
  show "hits oauth_step (approves_consent ''k'') [sample_approve ''h1'', sample_approve ''h2''] sample_db \<le> 1"
    by (rule consent_approved_at_most_once [OF sample_db_ok]) (simp add: sample_approve_def)
  show "approves_consent ''k'' (sample_approve ''h1'') sample_db"
    by code_simp
qed



text \<open>When an exchange succeeds the code was unexpired and issued to the same active account
  and client, and the refresh token it leaves behind carries exactly that account and client.\<close>

theorem exchange_keeps_binding:
  assumes "oauth_ok d" and "fst (exchange_authorization_code now e d) = Inr True"
  shows "account_active d (ce_account e)
     \<and> exists_row (\<lambda>r. cod_hash r = ce_code_hash e \<and> cod_account r = ce_account e
         \<and> cod_client r = ce_client e \<and> now < cod_expires r) (oauth_codes d)
     \<and> \<not> live_code (ce_code_hash e) (snd (exchange_authorization_code now e d))
     \<and> (\<exists>ttl. duration_seconds (ce_refresh_ttl e) = Inr ttl
         \<and> refresh_tokens (snd (exchange_authorization_code now e d)) = refresh_tokens d @
             [\<lparr>ref_hash = ce_refresh_hash e, ref_account = ce_account e, ref_client = ce_client e,
               ref_expires = now + seconds ttl, ref_revoked = None\<rparr>])"
proof -
  let ?e = "snd (exchange_authorization_code now e d)"
  have "\<not> live_code (ce_code_hash e) ?e"
    using code.consume_ends [OF assms(1), of "ce_code_hash e" "ExchangeCode now e"] assms(2) by simp
  moreover have "\<exists>ttl. duration_seconds (ce_refresh_ttl e) = Inr ttl \<and> refresh_tokens ?e = refresh_tokens d @
      [\<lparr>ref_hash = ce_refresh_hash e, ref_account = ce_account e, ref_client = ce_client e,
        ref_expires = now + seconds ttl, ref_revoked = None\<rparr>]"
    using assms(2) by (auto simp: exchange_authorization_code_def insert_row_def
        split: sum.splits option.splits if_splits)
  moreover from exchange_True(1) [OF assms(2)] obtain r
    where "r \<in> set (oauth_codes d)" "code_matches now e d r" by blast
  ultimately show ?thesis by (auto simp: code_matches_def)
qed

theorem exchange_keeps_binding_witness:
  "\<exists>d. \<not> live_code ''h'' d \<and> length (refresh_tokens d) = 2"
proof -
  have "fst (exchange_authorization_code 1 \<lparr>ce_code_hash = ''h'', ce_account = ''a'', ce_client = ''c'',
     ce_refresh_hash = ''r2'', ce_refresh_ttl = 60\<rparr> sample_db) = Inr True" by code_simp
  from exchange_keeps_binding [OF sample_db_ok this] show ?thesis
    by (intro exI) (auto simp: sample_db_def)
qed


definition sample_registration :: registration_request where
  "sample_registration = \<lparr>rr_proposed_id = ''d'', rr_name = None, rr_redirects = [''v''],
     rr_protected = (''p'', ''q''), rr_capacity = 1, rr_unused_ttl = 0\<rparr>"


end
