(* ===== verification/Tokens.thy ===== *)
theory Tokens
  imports Rust_Str "HOL-Library.Word"
begin

text \<open>
  The token helpers of \<^verbatim>\<open>cp/tokens.rs\<close>: lowercase hexadecimal, account identifiers derived from a
  provider's subject, and the recording-retention lease, a signed authority that a capture device
  presents. SHA-256, HMAC-SHA-256, base64 and the JSON codec are crates the repository only calls;
  they are arguments here. A Rust string is its list of UTF-8 bytes, one \<open>char\<close> per byte.
\<close>

unbundle bit_operations_syntax

type_synonym bytes = "8 word list"

definition as_bytes :: "string \<Rightarrow> bytes" where "as_bytes s = map of_char s"

section \<open>Hexadecimal\<close>

text \<open>\<^verbatim>\<open>{b:02x}\<close>.\<close>

definition hex_char :: "nat \<Rightarrow> char" where
  "hex_char n = (if n < 10 then char_of (48 + n) else char_of (87 + n))"

definition hex2 :: "8 word \<Rightarrow> string" where
  "hex2 b = [hex_char (unat b div 16), hex_char (unat b mod 16)]"

definition hex_bytes :: "bytes \<Rightarrow> string" where "hex_bytes bs = concat (map hex2 bs)"

definition hex_value :: "char \<Rightarrow> nat option" where
  "hex_value c =
     (let n = of_char c :: nat in
      if 48 \<le> n \<and> n \<le> 57 then Some (n - 48)
      else if 97 \<le> n \<and> n \<le> 102 then Some (n - 87)
      else if 65 \<le> n \<and> n \<le> 70 then Some (n - 55)
      else None)"

definition is_ascii_hexdigit :: "char \<Rightarrow> bool" where
  "is_ascii_hexdigit c \<longleftrightarrow> hex_value c \<noteq> None"

text \<open>The loop over the 32 slots, two characters each; \<^verbatim>\<open>u8::from_str_radix(_, 16)\<close>.\<close>

fun decode_pairs :: "string \<Rightarrow> bytes option" where
  "decode_pairs [] = Some []"
| "decode_pairs [c] = None"
| "decode_pairs (a # b # rest) =
     (case (hex_value a, hex_value b) of
        (Some x, Some y) \<Rightarrow> map_option ((#) (of_nat (16 * x + y))) (decode_pairs rest)
      | _ \<Rightarrow> None)"

definition decode_hex_32 :: "string \<Rightarrow> bytes option" where
  "decode_hex_32 value =
     (if length value \<noteq> 64 \<or> \<not> list_all is_ascii_hexdigit value then None else decode_pairs value)"

definition sha256_hex :: "(bytes \<Rightarrow> bytes) \<Rightarrow> string \<Rightarrow> string" where
  "sha256_hex sha256 s = hex_bytes (sha256 (as_bytes s))"

section \<open>Identifiers\<close>

definition format_uuid :: "bytes \<Rightarrow> string" where
  "format_uuid b =
     hex_bytes (take 4 b) @ ''-'' @ hex_bytes (take 2 (drop 4 b)) @ ''-'' @ hex_bytes (take 2 (drop 6 b))
     @ ''-'' @ hex_bytes (take 2 (drop 8 b)) @ ''-'' @ hex_bytes (take 6 (drop 10 b))"

text \<open>A random identifier, from the sixteen bytes the generator filled in.\<close>

definition new_uuid :: "bytes \<Rightarrow> string" where
  "new_uuid b =
     (let b1 = b[6 := (b ! 6 AND 15) OR 64];
          b2 = b1[8 := (b1 ! 8 AND 63) OR 128]
      in format_uuid b2)"

definition NAMESPACE_KIOKU_USER :: bytes where
  "NAMESPACE_KIOKU_USER = [167, 79, 110, 156, 196, 118, 75, 143, 131, 142, 146, 211, 246, 4, 46, 154]"

definition derive_stable_uuid :: "(bytes \<Rightarrow> bytes) \<Rightarrow> string \<Rightarrow> string" where
  "derive_stable_uuid sha256 google_sub =
     (let digest = sha256 (NAMESPACE_KIOKU_USER @ as_bytes google_sub);
          b = take 16 digest;
          b1 = b[6 := (b ! 6 AND 15) OR 80];
          b2 = b1[8 := (b1 ! 8 AND 63) OR 128]
      in format_uuid b2)"

definition derive_provider_uuid :: "(bytes \<Rightarrow> bytes) \<Rightarrow> string \<Rightarrow> string \<Rightarrow> string" where
  "derive_provider_uuid sha256 provider subject =
     (if provider = ''google'' then derive_stable_uuid sha256 subject
      else derive_stable_uuid sha256 (provider @ [CHR 0x00] @ subject))"

section \<open>Recording-retention leases\<close>

definition MAX_USER_ID_LEN :: nat where "MAX_USER_ID_LEN = 128"

definition is_ascii_alphanumeric :: "char \<Rightarrow> bool" where
  "is_ascii_alphanumeric c \<longleftrightarrow>
     (let n = of_char c :: nat in
      (48 \<le> n \<and> n \<le> 57) \<or> (65 \<le> n \<and> n \<le> 90) \<or> (97 \<le> n \<and> n \<le> 122))"

definition validate_user_id :: "string \<Rightarrow> unit res" where
  "validate_user_id user_id =
     (if user_id \<noteq> [] \<and> length user_id \<le> MAX_USER_ID_LEN
         \<and> list_all (\<lambda>b. is_ascii_alphanumeric b \<or> b = CHR ''-'' \<or> b = CHR ''_'') user_id
      then Inr ()
      else Inl (InvalidRequest ''invalid user_id: must match [A-Za-z0-9_-]{1,128}''))"

record lease_claims =
  lc_user_id :: string
  lc_lease_id :: string
  lc_policy_revision :: int
  lc_policy_epoch :: string
  lc_valid_from :: int
  lc_started_before :: int
  lc_valid_until :: int

definition starts_with :: "string \<Rightarrow> string \<Rightarrow> bool" where
  "starts_with p s \<longleftrightarrow> take (length p) s = p"

definition valid_recording_retention_lease_claims :: "lease_claims \<Rightarrow> bool" where
  "valid_recording_retention_lease_claims c \<longleftrightarrow>
     validate_user_id (lc_user_id c) = Inr ()
   \<and> starts_with ''lease_'' (lc_lease_id c)
   \<and> length (lc_lease_id c) = 70
   \<and> list_all (\<lambda>b. is_ascii_alphanumeric b \<or> b = CHR ''_'') (lc_lease_id c)
   \<and> lc_policy_revision c > 0
   \<and> starts_with ''rpe_'' (lc_policy_epoch c)
   \<and> length (lc_policy_epoch c) = 68
   \<and> list_all is_ascii_hexdigit (drop 4 (lc_policy_epoch c))
   \<and> lc_valid_from c \<ge> 0
   \<and> lc_started_before c > lc_valid_from c
   \<and> lc_valid_until c \<ge> lc_started_before c
   \<and> saturating_sub (lc_valid_until c) (lc_valid_from c) \<le> 5 * 60 * 1000"

definition RECORDING_RETENTION_LEASE_DOMAIN :: bytes where
  "RECORDING_RETENTION_LEASE_DOMAIN = as_bytes ''kioku.recording-retention-lease.v1'' @ [0]"

text \<open>
  The crates: \<open>hmac\<close> is HMAC-SHA-256 of a key and a message, which accepts a key of any length;
  \<open>to_json\<close> and \<open>from_json\<close> are the derived JSON codec of the claims, \<open>encode\<close> and \<open>decode\<close> base64url
  without padding.
\<close>

record lease_crates =
  hmac :: "bytes \<Rightarrow> bytes \<Rightarrow> bytes"
  to_json :: "lease_claims \<Rightarrow> bytes"
  from_json :: "bytes \<Rightarrow> lease_claims option"
  b64_encode :: "bytes \<Rightarrow> string"
  b64_decode :: "string \<Rightarrow> bytes option"

definition lease_mac :: "lease_crates \<Rightarrow> string \<Rightarrow> string \<Rightarrow> bytes" where
  "lease_mac k secret payload =
     hmac k (as_bytes secret) (RECORDING_RETENTION_LEASE_DOMAIN @ as_bytes payload)"

definition issue_recording_retention_lease :: "lease_crates \<Rightarrow> string \<Rightarrow> lease_claims \<Rightarrow> string res" where
  "issue_recording_retention_lease k secret claims =
     (if length secret < 16 \<or> \<not> valid_recording_retention_lease_claims claims
      then Inl (InvalidRequest ''invalid recording retention lease authority'')
      else let encoded = b64_encode k (to_json k claims)
           in Inr (''rrl1.'' @ encoded @ ''.'' @ hex_bytes (lease_mac k secret encoded)))"

definition lease_rejected :: "'a res" where
  "lease_rejected = Inl (Auth ''recording retention lease rejected'')"

definition verify_recording_retention_lease ::
  "lease_crates \<Rightarrow> string list \<Rightarrow> string \<Rightarrow> lease_claims res" where
  "verify_recording_retention_lease k secrets token =
     (if length token > 2048 then lease_rejected
      else case split_on CHR ''.'' token of
        [version, payload, signature] \<Rightarrow>
          if version \<noteq> ''rrl1'' then lease_rejected
          else (case decode_hex_32 signature of
             None \<Rightarrow> lease_rejected
           | Some sig \<Rightarrow>
             if \<not> list_ex (\<lambda>secret. lease_mac k secret payload = sig) secrets then lease_rejected
             else (case b64_decode k payload of
                None \<Rightarrow> lease_rejected
              | Some decoded \<Rightarrow>
                (case from_json k decoded of
                   None \<Rightarrow> lease_rejected
                 | Some claims \<Rightarrow>
                   if \<not> valid_recording_retention_lease_claims claims then lease_rejected
                   else Inr claims)))
      | _ \<Rightarrow> lease_rejected)"

section \<open>Hexadecimal round trip\<close>

lemma hex_value_char: "n < 16 \<Longrightarrow> hex_value (hex_char n) = Some n"
  by (auto simp: hex_value_def hex_char_def Let_def)

lemma hex_char_hexdigit: "n < 16 \<Longrightarrow> is_ascii_hexdigit (hex_char n)"
  by (simp add: is_ascii_hexdigit_def hex_value_char)

lemma unat_byte: "unat (b :: 8 word) < 256"
  using unsigned_less [of b, where 'a = nat] by simp

lemma hex_digits_byte: "unat (b :: 8 word) div 16 < 16" "unat b mod 16 < 16"
  using unat_byte [of b] by (simp_all add: less_mult_imp_div_less)

lemma decode_hex_pair: "decode_pairs (hex2 b @ rest) = map_option ((#) b) (decode_pairs rest)"
  by (simp add: hex2_def hex_value_char hex_digits_byte)

lemma decode_pairs_hex_bytes: "decode_pairs (hex_bytes bs) = Some bs"
  by (induction bs) (simp_all add: hex_bytes_def decode_hex_pair)

lemma length_hex_bytes [simp]: "length (hex_bytes bs) = 2 * length bs"
  by (induction bs) (simp_all add: hex_bytes_def hex2_def)

lemma hex_bytes_digits: "list_all is_ascii_hexdigit (hex_bytes bs)"
  by (induction bs) (simp_all add: hex_bytes_def hex2_def hex_char_hexdigit hex_digits_byte)

lemma dot_not_in_hex: "CHR ''.'' \<notin> set (hex_bytes bs)"
  using hex_bytes_digits [of bs] by (auto simp: list_all_iff is_ascii_hexdigit_def hex_value_def)

lemma decode_hex_bytes: "length bs = 32 \<Longrightarrow> decode_hex_32 (hex_bytes bs) = Some bs"
  by (simp add: decode_hex_32_def hex_bytes_digits decode_pairs_hex_bytes)

lemma nth_hex_bytes:
  assumes "i < length bs"
  shows "hex_bytes bs ! (2 * i) = hex_char (unat (bs ! i) div 16)"
    "hex_bytes bs ! (2 * i + 1) = hex_char (unat (bs ! i) mod 16)"
  using assms
proof (induction bs arbitrary: i)
  case (Cons b bs)
  {
    case 1
    with Cons.IH(1) [of "i - 1"] show ?case
      by (cases i) (simp_all add: hex_bytes_def hex2_def)
  next
    case 2
    with Cons.IH(2) [of "i - 1"] show ?case
      by (cases i) (simp_all add: hex_bytes_def hex2_def)
  }
qed simp_all

section \<open>Leases\<close>

text \<open>What the lease relies on: the length of a SHA-256 tag, and that base64url decodes what it
  encodes, over an alphabet without the separator.\<close>

definition lease_crates_ok :: "lease_crates \<Rightarrow> bool" where
  "lease_crates_ok k \<longleftrightarrow>
     (\<forall>key m. length (hmac k key m) = 32)
   \<and> (\<forall>b. b64_decode k (b64_encode k b) = Some b \<and> CHR ''.'' \<notin> set (b64_encode k b))"

lemma split_token:
  "CHR ''.'' \<notin> set p \<Longrightarrow> CHR ''.'' \<notin> set s \<Longrightarrow> split_on CHR ''.'' (''rrl1.'' @ p @ ''.'' @ s) = [''rrl1'', p, s]"
  using split_on_app [of "CHR ''.''" p s] by (simp add: split_on_none)

lemma verify_Inr:
  assumes "verify_recording_retention_lease k secrets token = Inr claims"
  obtains payload signature sig where "split_on CHR ''.'' token = [''rrl1'', payload, signature]"
    "decode_hex_32 signature = Some sig" "\<exists>secret\<in>set secrets. lease_mac k secret payload = sig"
    "valid_recording_retention_lease_claims claims"
    "Option.bind (b64_decode k payload) (from_json k) = Some claims"
  using assms
  by (auto simp: verify_recording_retention_lease_def lease_rejected_def list_ex_iff
      split: if_splits list.splits option.splits)

lemma claims_window:
  assumes "valid_recording_retention_lease_claims c"
  shows "lc_valid_until c - lc_valid_from c \<le> 300000" "0 < lc_valid_until c - lc_valid_from c"
  using assms
  by (auto simp: valid_recording_retention_lease_claims_def saturating_sub_def saturate_def i64_max_value
      i64_min_value split: if_splits)

text \<open>C31. A lease issued under one of the verifier's secrets verifies and gives back exactly the
  claims it was issued for, whenever the JSON codec decodes what it encoded for these claims and the
  token fits the length limit.\<close>

theorem lease_round_trip:
  assumes "lease_crates_ok k" and "from_json k (to_json k claims) = Some claims"
    and "issue_recording_retention_lease k secret claims = Inr token"
    and "secret \<in> set secrets" and "length token \<le> 2048"
  shows "verify_recording_retention_lease k secrets token = Inr claims"
proof -
  let ?p = "b64_encode k (to_json k claims)"
  have valid: "valid_recording_retention_lease_claims claims"
    and token: "token = ''rrl1.'' @ ?p @ ''.'' @ hex_bytes (lease_mac k secret ?p)"
    using assms(3) by (auto simp: issue_recording_retention_lease_def Let_def split: if_splits)
  have split: "split_on CHR ''.'' token = [''rrl1'', ?p, hex_bytes (lease_mac k secret ?p)]"
    unfolding token by (rule split_token) (use assms(1) in \<open>simp_all add: lease_crates_ok_def dot_not_in_hex\<close>)
  have "decode_hex_32 (hex_bytes (lease_mac k secret ?p)) = Some (lease_mac k secret ?p)"
    using assms(1) by (intro decode_hex_bytes) (simp add: lease_crates_ok_def lease_mac_def)
  then show ?thesis
    using assms valid
    by (auto simp: verify_recording_retention_lease_def split lease_crates_ok_def list_ex_iff)
qed

definition sample_claims :: lease_claims where
  "sample_claims = \<lparr>lc_user_id = ''u'', lc_lease_id = ''lease_'' @ replicate 64 (CHR ''a''),
     lc_policy_revision = 1, lc_policy_epoch = ''rpe_'' @ replicate 64 (CHR ''0''),
     lc_valid_from = 0, lc_started_before = 1, lc_valid_until = 300000\<rparr>"

definition sample_crates :: lease_crates where
  "sample_crates = \<lparr>hmac = (\<lambda>key m. replicate 32 0), to_json = (\<lambda>c. []), from_json = (\<lambda>b. Some sample_claims),
     b64_encode = hex_bytes, b64_decode = decode_pairs\<rparr>"


lemma sample_crates_ok: "lease_crates_ok sample_crates"
  by (simp add: lease_crates_ok_def sample_crates_def decode_pairs_hex_bytes dot_not_in_hex)

lemma sample_claims_valid: "valid_recording_retention_lease_claims sample_claims"
  by code_simp

theorem lease_round_trip_witness:
  "verify_recording_retention_lease sample_crates [''0123456789abcdef'']
     (projr (issue_recording_retention_lease sample_crates ''0123456789abcdef'' sample_claims)) = Inr sample_claims"
proof (rule lease_round_trip [OF sample_crates_ok, where secret = "''0123456789abcdef''"])
  show "from_json sample_crates (to_json sample_crates sample_claims) = Some sample_claims"
    by (simp add: sample_crates_def)
  show "issue_recording_retention_lease sample_crates ''0123456789abcdef'' sample_claims =
      Inr (projr (issue_recording_retention_lease sample_crates ''0123456789abcdef'' sample_claims))"
    by (simp add: issue_recording_retention_lease_def sample_claims_valid Let_def)
  show "length (projr (issue_recording_retention_lease sample_crates ''0123456789abcdef'' sample_claims)) \<le> 2048"
    by (simp add: issue_recording_retention_lease_def sample_claims_valid sample_crates_def lease_mac_def Let_def)
qed simp

text \<open>C32. A token is only accepted when its signature is the domain-separated tag of its payload
  under one of the configured secrets, and the claims it yields are the decoded payload, are
  well-formed, and cover a window of at most five minutes.\<close>

theorem lease_authenticity:
  assumes "verify_recording_retention_lease k secrets token = Inr claims"
  shows "\<exists>secret\<in>set secrets. \<exists>payload signature.
      split_on CHR ''.'' token = [''rrl1'', payload, signature]
      \<and> decode_hex_32 signature =
          Some (hmac k (as_bytes secret) (RECORDING_RETENTION_LEASE_DOMAIN @ as_bytes payload))
      \<and> Option.bind (b64_decode k payload) (from_json k) = Some claims
      \<and> validate_user_id (lc_user_id claims) = Inr ()
      \<and> 0 < lc_valid_until claims - lc_valid_from claims
      \<and> lc_valid_until claims - lc_valid_from claims \<le> 300000"
proof -
  from assms obtain payload signature sig where
    v: "split_on CHR ''.'' token = [''rrl1'', payload, signature]"
      "decode_hex_32 signature = Some sig" "\<exists>secret\<in>set secrets. lease_mac k secret payload = sig"
      "valid_recording_retention_lease_claims claims"
      "Option.bind (b64_decode k payload) (from_json k) = Some claims"
    by (rule verify_Inr)
  moreover from v(4) have "validate_user_id (lc_user_id claims) = Inr ()"
    by (simp add: valid_recording_retention_lease_claims_def)
  ultimately show ?thesis
    using claims_window [OF v(4)] by (auto simp: lease_mac_def)
qed

theorem lease_authenticity_witness:
  "\<exists>secret\<in>set [''0123456789abcdef'']. \<exists>signature.
     decode_hex_32 signature = Some (hmac sample_crates (as_bytes secret) (RECORDING_RETENTION_LEASE_DOMAIN @ as_bytes []))"
proof -
  have "verify_recording_retention_lease sample_crates [''0123456789abcdef'']
      (''rrl1..'' @ replicate 64 (CHR ''0'')) = Inr sample_claims" by code_simp
  from lease_authenticity [OF this] show ?thesis
    by (auto simp: eval_nat_numeral)
qed

text \<open>ASCII lower-casing, the only freedom the decoder leaves.\<close>

definition ascii_lower :: "char \<Rightarrow> char" where
  "ascii_lower c = (if 65 \<le> (of_char c :: nat) \<and> (of_char c :: nat) \<le> 90 then char_of (of_char c + 32 :: nat) else c)"

lemma hex_char_value: "hex_value c = Some n \<Longrightarrow> hex_char n = ascii_lower c \<and> n < 16"
  by (auto simp: hex_value_def hex_char_def ascii_lower_def Let_def split: if_splits)

lemma hex2_of_nat: "x < 16 \<Longrightarrow> y < 16 \<Longrightarrow> hex2 (of_nat (16 * x + y)) = [hex_char x, hex_char y]"
proof -
  assume a: "x < 16" "y < 16"
  then have "unat (of_nat (16 * x + y) :: 8 word) = 16 * x + y"
    by (simp add: unsigned_of_nat take_bit_nat_eq_self del: of_nat_add of_nat_mult)
  with a show ?thesis by (simp add: hex2_def del: of_nat_add of_nat_mult)
qed

lemma decode_pairs_lower: "decode_pairs v = Some bs \<Longrightarrow> hex_bytes bs = map ascii_lower v"
proof (induction v arbitrary: bs rule: decode_pairs.induct)
  case (3 a b rest)
  then obtain x y t where d: "hex_value a = Some x" "hex_value b = Some y" "decode_pairs rest = Some t"
    "bs = of_nat (16 * x + y) # t" by (auto split: option.splits)
  from hex_char_value [OF d(1)] hex_char_value [OF d(2)]
  have "hex2 (of_nat (16 * x + y)) = [ascii_lower a, ascii_lower b]" by (simp add: hex2_of_nat del: of_nat_add of_nat_mult)
  with 3(1) [OF refl d(1,2) d(3)] d(4) show ?case by (simp add: hex_bytes_def del: of_nat_add of_nat_mult)
qed (simp_all add: hex_bytes_def)

lemma hex_value_lower: "hex_value (ascii_lower c) = hex_value c"
  by (auto simp: hex_value_def ascii_lower_def Let_def)

lemma decode_pairs_cong: "decode_pairs (map ascii_lower v) = decode_pairs v"
  by (induction v rule: decode_pairs.induct) (simp_all add: hex_value_lower split: option.split)

text \<open>The decoder of signatures accepts exactly the 64-character texts that are, up to the case
  of their digits, the lowercase hexadecimal of a 32-byte value, and returns that value.\<close>

theorem decode_hex_exact:
  "decode_hex_32 v = Some bs \<longleftrightarrow> length bs = 32 \<and> map ascii_lower v = hex_bytes bs"
proof
  assume v: "decode_hex_32 v = Some bs"
  then have "map ascii_lower v = hex_bytes bs" "length v = 64"
    by (auto simp: decode_hex_32_def decode_pairs_lower split: if_splits)
  then show "length bs = 32 \<and> map ascii_lower v = hex_bytes bs"
    using length_hex_bytes [of bs] by (metis length_map mult_left_cancel nat_mult_eq_cancel1 num_double numeral_times_numeral zero_less_numeral)
next
  assume b: "length bs = 32 \<and> map ascii_lower v = hex_bytes bs"
  then have "length v = 64" using length_hex_bytes [of bs] by (metis length_map num_double numeral_times_numeral)
  moreover have "list_all is_ascii_hexdigit v"
    using hex_bytes_digits [of bs] b
    by (metis (mono_tags, lifting) hex_value_lower is_ascii_hexdigit_def list.pred_map list_all_cong comp_apply)
  moreover have "decode_pairs v = Some bs" using decode_pairs_cong [of v] b decode_pairs_hex_bytes by simp
  ultimately show "decode_hex_32 v = Some bs" by (simp add: decode_hex_32_def)
qed

section \<open>Shape of derived identifiers\<close>

lemma high_nibble: "unat (x :: 8 word) div 16 = unat (drop_bit 4 x)"
  using drop_bit_eq_div [of 4 "unat x"] by (simp add: unat_drop_bit_eq del: drop_bit_eq_div)

lemma version_nibble: "unat ((x AND 15) OR (80 :: 8 word)) div 16 = 5"
  by (simp add: high_nibble)

lemma variant_nibble: "unat ((x AND 63) OR (128 :: 8 word)) div 16 \<in> {8, 9, 10, 11}"
proof -
  define m where "m = unat (drop_bit 4 x)"
  have "unat ((x AND 63) OR (128 :: 8 word)) div 16 = (m AND 3) OR 8"
    by (simp only: high_nibble) (simp add: unsigned_and_eq unsigned_or_eq m_def)
  also have "m AND 3 = m mod 4"
    using take_bit_eq_mask [of 2 m] by (simp add: take_bit_eq_mod mask_eq_exp_minus_1)
  finally have e: "unat ((x AND 63) OR (128 :: 8 word)) div 16 = (m mod 4) OR 8" .
  have "m mod 4 \<in> {0, 1, 2, 3}" by auto
  then show ?thesis unfolding e by auto
qed

lemma uuid_fields:
  assumes "length b = 16"
  shows "length (format_uuid b) = 36"
    "map ((!) (format_uuid b)) [8, 13, 18, 23] = ''----''"
    "format_uuid b ! 14 = hex_char (unat (b ! 6) div 16)"
    "format_uuid b ! 19 = hex_char (unat (b ! 8) div 16)"
  using assms nth_hex_bytes(1) [of 0 "take 2 (drop 6 b)"] nth_hex_bytes(1) [of 0 "take 2 (drop 8 b)"]
  by (simp_all add: format_uuid_def nth_append)



end
