(* ===== verification/Identity_Store.thy ===== *)
theory Identity_Store
  imports OAuth_Store Tokens "HOL-Library.List_Lexorder" "HOL-Library.Char_ord"
begin

text \<open>
  The identity and session repository of \<^verbatim>\<open>persistence/postgres/identity.rs\<close>: sign-in through
  Google and Apple subjects with the daily signup budget, linking an Apple identity, and the account
  views. \<open>sha256\<close> and \<open>lowercase\<close> (\<^verbatim>\<open>str::to_lowercase\<close>, which follows the Unicode tables) are
  arguments. A failed transaction leaves the database unchanged. The morning e-mail migration adds a
  trigger that rolls back a change of an account's address while a message to it is in flight; the
  model has no such messages, so that refusal does not appear in it.
\<close>

section \<open>Requests and results\<close>

record account =
  ac_id :: string
  ac_email :: string

record account_upsert =
  up_account :: account
  up_signups_today :: "int option"

record account_session_view =
  as_account :: account
  as_providers :: "string list"

record apple_grant =
  ag_subject :: string
  ag_email :: string
  ag_client :: string
  ag_token :: string

record env =
  sha256 :: "bytes \<Rightarrow> bytes"
  lowercase :: "string \<Rightarrow> string"

section \<open>Statements\<close>

definition deleted_account_or_identity :: "string \<Rightarrow> string \<Rightarrow> string \<Rightarrow> db \<Rightarrow> bool" where
  "deleted_account_or_identity account_id provider subject d \<longleftrightarrow>
     account_id \<in> set (deleted_accounts d) \<or> (provider, subject) \<in> set (deleted_identities d)"

text \<open>The budget of the day: its counter after the reservation, or the limit is reached.\<close>

definition reserve_signup :: "timestamp \<Rightarrow> int \<Rightarrow> db \<Rightarrow> int tx" where
  "reserve_signup now signup_limit d =
     (let today = day_of now;
          prune = delete_rows (\<lambda>r. fst r < today - 30)
      in if signup_limit \<le> 0 then (Inl SignupLimited, d)
         else (case lookup_row fst today (signup_daily d) of
           None \<Rightarrow> (Inr 1, d\<lparr>signup_daily := prune (signup_daily d @ [(today, 1)])\<rparr>)
         | Some (_, n) \<Rightarrow>
             if n < signup_limit
             then (Inr (n + 1), d\<lparr>signup_daily :=
                     prune (update_rows (\<lambda>r. fst r = today) (\<lambda>(day, k). (day, k + 1)) (signup_daily d))\<rparr>)
             else (Inl SignupLimited, d)))"

text \<open>\<^verbatim>\<open>INSERT INTO accounts\<close>, under its primary key and \<^verbatim>\<open>UNIQUE (primary_provider, primary_subject)\<close>.\<close>

definition insert_account :: "account_row \<Rightarrow> db \<Rightarrow> db option" where
  "insert_account r d =
     (if has_key acc_id (acc_id r) (accounts d)
         \<or> has_key (\<lambda>q. (acc_provider q, acc_subject q)) (acc_provider r, acc_subject r) (accounts d)
      then None else Some (d\<lparr>accounts := accounts d @ [r]\<rparr>))"

text \<open>\<^verbatim>\<open>INSERT INTO auth_identities\<close>, under its primary key and \<^verbatim>\<open>UNIQUE (account_id, provider)\<close>.\<close>

definition insert_identity :: "identity_row \<Rightarrow> db \<Rightarrow> db option" where
  "insert_identity r d =
     (if has_key (\<lambda>q. (idn_provider q, idn_subject q)) (idn_provider r, idn_subject r) (auth_identities d)
         \<or> has_key (\<lambda>q. (idn_account q, idn_provider q)) (idn_account r, idn_provider r) (auth_identities d)
      then None else Some (d\<lparr>auth_identities := auth_identities d @ [r]\<rparr>))"

definition touch_identity :: "string \<Rightarrow> string \<Rightarrow> string \<Rightarrow> db \<Rightarrow> db" where
  "touch_identity provider subject email d =
     d\<lparr>auth_identities := update_rows (\<lambda>r. idn_provider r = provider \<and> idn_subject r = subject)
         (\<lambda>r. r\<lparr>idn_email := email\<rparr>) (auth_identities d)\<rparr>"

definition set_account_email :: "string \<Rightarrow> string \<Rightarrow> db \<Rightarrow> db" where
  "set_account_email account_id email d =
     d\<lparr>accounts := update_rows (\<lambda>r. acc_id r = account_id) (\<lambda>r. r\<lparr>acc_email := email\<rparr>) (accounts d)\<rparr>"

definition upsert_apple_credential :: "string \<Rightarrow> string \<Rightarrow> string \<Rightarrow> db \<Rightarrow> db" where
  "upsert_apple_credential account_id client_id token d =
     d\<lparr>apple_credentials := upsert_row (\<lambda>r. (apl_account r, apl_client r))
         (\<lambda>r. r\<lparr>apl_token := token, apl_revoked := None\<rparr>)
         \<lparr>apl_account = account_id, apl_client = client_id, apl_token = token, apl_revoked = None\<rparr>
         (apple_credentials d)\<rparr>"

text \<open>The join of an identity with its account.\<close>

definition account_of_identity :: "string \<Rightarrow> string \<Rightarrow> db \<Rightarrow> account_row option" where
  "account_of_identity provider subject d =
     (case List.find (\<lambda>i. idn_provider i = provider \<and> idn_subject i = subject) (auth_identities d) of
        None \<Rightarrow> None
      | Some i \<Rightarrow> lookup_row acc_id (idn_account i) (accounts d))"

section \<open>Transactions\<close>

definition account_status :: "string \<Rightarrow> db \<Rightarrow> account_status option" where
  "account_status account_id d =
     (case lookup_row acc_id account_id (accounts d) of
        Some r \<Rightarrow> Some (from_database (status_text (acc_status r)))
      | None \<Rightarrow> if account_id \<in> set (deleted_accounts d) then Some (from_database ''deleted'') else None)"

text \<open>A new account with its first identity, paid for from the day's budget.\<close>

definition create_account ::
  "timestamp \<Rightarrow> string \<Rightarrow> string \<Rightarrow> string \<Rightarrow> string \<Rightarrow> int \<Rightarrow> db \<Rightarrow> int tx" where
  "create_account now stable_id email provider subject signup_limit d =
     (case reserve_signup now signup_limit d of
        (Inl e, _) \<Rightarrow> (Inl e, d)
      | (Inr accounts_today, d1) \<Rightarrow>
        (case Option.bind
                (insert_account \<lparr>acc_id = stable_id, acc_email = email, acc_status = Active,
                   acc_provider = provider, acc_subject = subject, acc_created = now\<rparr> d1)
                (insert_identity \<lparr>idn_provider = provider, idn_subject = subject,
                   idn_account = stable_id, idn_email = email\<rparr>) of
           None \<Rightarrow> (Inl (Postgres ''unique_violation''), d)
         | Some d2 \<Rightarrow> (Inr accounts_today, d2)))"

definition upsert_subject_account ::
  "env \<Rightarrow> timestamp \<Rightarrow> string \<Rightarrow> string \<Rightarrow> int \<Rightarrow> db \<Rightarrow> account_upsert tx" where
  "upsert_subject_account v now subject email signup_limit d =
     (let provider = ''google'';
          stable_id = derive_stable_uuid (sha256 v) subject
      in if deleted_account_or_identity stable_id provider subject d
         then (Inl (Auth ''account deleted''), d)
         else (case account_of_identity provider subject d of
           Some row \<Rightarrow>
             if status_text (acc_status row) \<noteq> ''active'' then (Inl (Auth ''account inactive''), d)
             else if acc_id row \<noteq> stable_id
             then (Inl (Conflict ''provider identity resolved to an unexpected account''), d)
             else (Inr \<lparr>up_account = \<lparr>ac_id = acc_id row, ac_email = email\<rparr>, up_signups_today = None\<rparr>,
                   set_account_email (acc_id row) email (touch_identity provider subject email d))
         | None \<Rightarrow>
             (case create_account now stable_id email provider subject signup_limit d of
                (Inl e, _) \<Rightarrow> (Inl e, d)
              | (Inr accounts_today, d1) \<Rightarrow>
                (Inr \<lparr>up_account = \<lparr>ac_id = stable_id, ac_email = email\<rparr>,
                      up_signups_today = Some accounts_today\<rparr>, d1))))"

definition upsert_apple_account ::
  "env \<Rightarrow> timestamp \<Rightarrow> apple_grant \<Rightarrow> int \<Rightarrow> db \<Rightarrow> account_upsert tx" where
  "upsert_apple_account v now g signup_limit d =
     (let provider = ''apple'';
          email = lowercase v (ag_email g);
          stable_id = derive_provider_uuid (sha256 v) provider (ag_subject g);
          settle = (\<lambda>account_id primary_email today d1.
             (Inr \<lparr>up_account = \<lparr>ac_id = account_id, ac_email = primary_email\<rparr>, up_signups_today = today\<rparr>,
              upsert_apple_credential account_id (ag_client g) (ag_token g) d1))
      in if deleted_account_or_identity stable_id provider (ag_subject g) d
         then (Inl (Auth ''account deleted''), d)
         else (case account_of_identity provider (ag_subject g) d of
           Some row \<Rightarrow>
             if status_text (acc_status row) \<noteq> ''active'' then (Inl (Auth ''account inactive''), d)
             else let d1 = touch_identity provider (ag_subject g) email d
                  in if acc_provider row = provider \<and> acc_subject row = ag_subject g
                     then settle (acc_id row) email None (set_account_email (acc_id row) email d1)
                     else settle (acc_id row) (acc_email row) None d1
         | None \<Rightarrow>
             if has_key acc_id stable_id (accounts d)
             then (Inl (Conflict ''provider identity collision''), d)
             else (case create_account now stable_id email provider (ag_subject g) signup_limit d of
                (Inl e, _) \<Rightarrow> (Inl e, d)
              | (Inr accounts_today, d1) \<Rightarrow> settle stable_id email (Some accounts_today) d1)))"

definition link_apple_identity :: "env \<Rightarrow> string \<Rightarrow> apple_grant \<Rightarrow> db \<Rightarrow> unit tx" where
  "link_apple_identity v account_id g d =
     (let email = lowercase v (ag_email g);
          owner = map_option idn_account
            (List.find (\<lambda>i. idn_provider i = ''apple'' \<and> idn_subject i = ag_subject g) (auth_identities d));
          other = map_option idn_subject
            (List.find (\<lambda>i. idn_provider i = ''apple'' \<and> idn_account i = account_id) (auth_identities d))
      in if account_status_of d account_id \<noteq> Some Active then (Inl (Auth ''account inactive''), d)
         else if (''apple'', ag_subject g) \<in> set (deleted_identities d)
         then (Inl (Auth ''identity deleted''), d)
         else if (case owner of None \<Rightarrow> False | Some a \<Rightarrow> a \<noteq> account_id)
         then (Inl (Conflict ''Apple identity is linked to another account''), d)
         else if (case other of None \<Rightarrow> False | Some s \<Rightarrow> s \<noteq> ag_subject g)
         then (Inl (Conflict ''account already has a different Apple identity''), d)
         else let linked =
               (if owner \<noteq> None then Some (touch_identity ''apple'' (ag_subject g) email d)
                else insert_identity \<lparr>idn_provider = ''apple'', idn_subject = ag_subject g,
                       idn_account = account_id, idn_email = email\<rparr> d)
              in case linked of
                   None \<Rightarrow> (Inl (Postgres ''unique_violation''), d)
                 | Some d1 \<Rightarrow> (Inr (), upsert_apple_credential account_id (ag_client g) (ag_token g) d1))"

definition account_session :: "string \<Rightarrow> db \<Rightarrow> account_session_view option" where
  "account_session account_id d =
     (case List.find (\<lambda>r. acc_id r = account_id \<and> acc_status r = Active) (accounts d) of
        None \<Rightarrow> None
      | Some r \<Rightarrow> Some \<lparr>as_account = \<lparr>ac_id = acc_id r, ac_email = acc_email r\<rparr>,
          as_providers = sort (map idn_provider
            (filter (\<lambda>i. idn_account i = account_id) (auth_identities d)))\<rparr>)"

section \<open>Histories\<close>

datatype identity_op =
    SignInSubject timestamp string string int
  | SignInApple timestamp apple_grant int
  | LinkApple string apple_grant

fun identity_step :: "env \<Rightarrow> identity_op \<Rightarrow> db \<Rightarrow> db" where
  "identity_step v (SignInSubject now s e n) d = snd (upsert_subject_account v now s e n d)"
| "identity_step v (SignInApple now g n) d = snd (upsert_apple_account v now g n d)"
| "identity_step v (LinkApple a g) d = snd (link_apple_identity v a g d)"

section \<open>Schema constraints are kept\<close>

lemma upsert_row_cases:
  "upsert_row key f r t = (if key r \<in> key ` set t then update_rows (\<lambda>q. key q = key r) f t else t @ [r])"
  by (simp add: upsert_row_def)

lemma oauth_ok_cong:
  assumes "oauth_clients d' = oauth_clients d" "oauth_consents d' = oauth_consents d"
    "oauth_codes d' = oauth_codes d" "refresh_tokens d' = refresh_tokens d"
    and "oauth_ok d" "account_ids d \<subseteq> account_ids d'"
  shows "oauth_ok d'"
  using assms by (auto simp: oauth_ok_def client_ids_def intro: child_ok_mono)

lemma account_ids_accounts: "account_ids (d\<lparr>accounts := t\<rparr>) = acc_id ` set t"
  by (simp add: account_ids_def)

lemma account_ids_other [simp]:
  "account_ids (d\<lparr>auth_identities := i\<rparr>) = account_ids d"
  "account_ids (d\<lparr>apple_credentials := c\<rparr>) = account_ids d"
  "account_ids (d\<lparr>signup_daily := s\<rparr>) = account_ids d"
  by (simp_all add: account_ids_def)

lemma schema_ok_reserve_signup:
  assumes "reserve_signup now n d = (Inr k, d')" "schema_ok d"
  shows "schema_ok d'" "\<exists>t. d' = d\<lparr>signup_daily := t\<rparr>"
proof -
  from assms(1) show "\<exists>t. d' = d\<lparr>signup_daily := t\<rparr>"
    by (auto simp: reserve_signup_def Let_def split: option.splits if_splits)
  have "distinct (map fst (signup_daily d'))"
    using assms by (auto simp: reserve_signup_def Let_def schema_ok_def identity_ok_def lookup_row_None map_update_rows
        split: option.splits if_splits prod.splits)
  moreover from \<open>\<exists>t. _\<close> obtain t where "d' = d\<lparr>signup_daily := t\<rparr>" by blast
  ultimately show "schema_ok d'"
    using assms(2) oauth_ok_cong [of d' d] by (auto simp: schema_ok_def identity_ok_def)
qed

lemma schema_ok_insert_account:
  assumes "insert_account r d = Some d'" "schema_ok d"
  shows "schema_ok d'" "acc_id r \<in> account_ids d'"
proof -
  from assms(1) have d': "d' = d\<lparr>accounts := accounts d @ [r]\<rparr>"
    and fresh: "acc_id r \<notin> acc_id ` set (accounts d)"
      "(acc_provider r, acc_subject r) \<notin> (\<lambda>q. (acc_provider q, acc_subject q)) ` set (accounts d)"
    by (auto simp: insert_account_def split: if_splits)
  have sub: "account_ids d \<subseteq> account_ids d'" by (auto simp: d' account_ids_def)
  show "acc_id r \<in> account_ids d'" by (simp add: d' account_ids_def)
  have "oauth_ok d'" using assms(2) sub oauth_ok_cong [of d' d] by (simp add: d' schema_ok_def)
  moreover have "identity_ok d'"
    using assms(2) fresh sub by (auto simp: d' schema_ok_def identity_ok_def intro: child_ok_mono)
  ultimately show "schema_ok d'" by (simp add: schema_ok_def)
qed

lemma schema_ok_insert_identity:
  assumes "insert_identity r d = Some d'" "schema_ok d" "idn_account r \<in> account_ids d"
  shows "schema_ok d'"
proof -
  from assms(1) have d': "d' = d\<lparr>auth_identities := auth_identities d @ [r]\<rparr>"
    and fresh: "(idn_provider r, idn_subject r) \<notin> (\<lambda>q. (idn_provider q, idn_subject q)) ` set (auth_identities d)"
      "(idn_account r, idn_provider r) \<notin> (\<lambda>q. (idn_account q, idn_provider q)) ` set (auth_identities d)"
    by (auto simp: insert_identity_def split: if_splits)
  have "oauth_ok d'" using assms(2) oauth_ok_cong [of d' d] by (simp add: d' schema_ok_def)
  moreover have "identity_ok d'"
    using assms(2,3) fresh by (auto simp: d' schema_ok_def identity_ok_def intro!: child_ok_append)
  ultimately show ?thesis by (simp add: schema_ok_def)
qed

lemma account_ids_set_email [simp]: "account_ids (set_account_email a e d) = account_ids d"
  by (simp add: set_account_email_def account_ids_def image_update_rows)

lemma account_ids_touch [simp]: "account_ids (touch_identity p s e d) = account_ids d"
  by (simp add: touch_identity_def)

lemma schema_ok_set_email: "schema_ok d \<Longrightarrow> schema_ok (set_account_email a e d)"
  using oauth_ok_cong [of "set_account_email a e d" d] account_ids_set_email [of a e d]
  by (auto simp: schema_ok_def identity_ok_def set_account_email_def map_update_rows)

lemma schema_ok_touch: "schema_ok d \<Longrightarrow> schema_ok (touch_identity p s e d)"
  using oauth_ok_cong [of "touch_identity p s e d" d]
  by (auto simp: schema_ok_def identity_ok_def touch_identity_def map_update_rows intro!: child_ok_update)

lemma schema_ok_credential:
  assumes "schema_ok d" "a \<in> account_ids d"
  shows "schema_ok (upsert_apple_credential a c t d)"
proof -
  let ?d = "upsert_apple_credential a c t d"
  have "oauth_ok ?d" using assms(1) oauth_ok_cong [of ?d d]
    by (simp add: schema_ok_def upsert_apple_credential_def)
  moreover have "identity_ok ?d"
    using assms by (auto simp: schema_ok_def identity_ok_def upsert_apple_credential_def upsert_row_cases
        intro!: child_ok_append child_ok_update)
  ultimately show ?thesis by (simp add: schema_ok_def)
qed

text \<open>What creating an account does, when it succeeds.\<close>

lemma create_account_Inr:
  assumes "create_account now i e p s n d = (Inr k, d')"
  obtains t where "reserve_signup now n d = (Inr k, d\<lparr>signup_daily := t\<rparr>)"
    "i \<notin> account_ids d" "(p, s) \<notin> (\<lambda>q. (idn_provider q, idn_subject q)) ` set (auth_identities d)"
    "d' = d\<lparr>signup_daily := t,
            accounts := accounts d @ [\<lparr>acc_id = i, acc_email = e, acc_status = Active,
              acc_provider = p, acc_subject = s, acc_created = now\<rparr>],
            auth_identities := auth_identities d @ [\<lparr>idn_provider = p, idn_subject = s,
              idn_account = i, idn_email = e\<rparr>]\<rparr>"
proof -
  from assms obtain d1 where r: "reserve_signup now n d = (Inr k, d1)"
    by (auto simp: create_account_def split: prod.splits sum.splits option.splits)
  then obtain t where t: "d1 = d\<lparr>signup_daily := t\<rparr>"
    by (auto simp: reserve_signup_def Let_def split: option.splits if_splits)
  show thesis
    by (rule that [OF r [unfolded t]])
      (use assms r t in \<open>auto simp: create_account_def insert_account_def insert_identity_def account_ids_def
        split: if_splits\<close>)
qed

lemma schema_ok_create_account:
  assumes "create_account now i e p s n d = (Inr k, d')" "schema_ok d"
  shows "schema_ok d'" "i \<in> account_ids d'"
proof -
  from assms(1) obtain d1 d2 where
    r: "reserve_signup now n d = (Inr k, d1)"
    and a: "insert_account \<lparr>acc_id = i, acc_email = e, acc_status = Active, acc_provider = p,
        acc_subject = s, acc_created = now\<rparr> d1 = Some d2"
    and b: "insert_identity \<lparr>idn_provider = p, idn_subject = s, idn_account = i, idn_email = e\<rparr> d2 = Some d'"
    by (auto simp: create_account_def bind_eq_Some_conv split: prod.splits sum.splits option.splits)
  note ok2 = schema_ok_insert_account [OF a schema_ok_reserve_signup(1) [OF r assms(2)]]
  show "schema_ok d'" using schema_ok_insert_identity [OF b ok2(1)] ok2(2) by simp
  show "i \<in> account_ids d'"
    by (rule create_account_Inr [OF assms(1)]) (simp add: account_ids_def)
qed

lemma account_of_identity_id: "account_of_identity p s d = Some r \<Longrightarrow> acc_id r \<in> account_ids d"
  by (auto simp: account_of_identity_def account_ids_def split: option.splits dest!: lookup_row_Some)

lemma schema_ok_subject: "schema_ok d \<Longrightarrow> schema_ok (snd (upsert_subject_account v now s e n d))"
  by (auto simp: upsert_subject_account_def Let_def schema_ok_set_email schema_ok_touch
      split: option.splits prod.splits sum.splits dest: schema_ok_create_account(1))

lemma schema_ok_apple: "schema_ok d \<Longrightarrow> schema_ok (snd (upsert_apple_account v now g n d))"
  by (auto simp: upsert_apple_account_def Let_def
      intro!: schema_ok_credential schema_ok_set_email schema_ok_touch
      split: option.splits prod.splits sum.splits dest: schema_ok_create_account account_of_identity_id)

lemma schema_ok_link: "schema_ok d \<Longrightarrow> schema_ok (snd (link_apple_identity v a g d))"
proof -
  assume ok: "schema_ok d"
  show ?thesis
  proof (cases "account_status_of d a = Some Active")
    case True
    then have a: "a \<in> account_ids d"
      by (auto simp: account_status_of_def account_ids_def dest!: lookup_row_Some)
    have ins: "schema_ok d'" "a \<in> account_ids d'"
      if "insert_identity r d = Some d'" "idn_account r = a" for r d'
      using schema_ok_insert_identity [OF that(1) ok] that a
      by (auto simp: insert_identity_def split: if_splits)
    show ?thesis
      using ok a ins by (auto simp: link_apple_identity_def Let_def
          intro!: schema_ok_credential schema_ok_touch split: option.splits)
  qed (use ok in \<open>simp add: link_apple_identity_def Let_def\<close>)
qed

lemma schema_ok_identity_step: "schema_ok d \<Longrightarrow> schema_ok (identity_step v x d)"
  by (cases x) (simp_all add: schema_ok_subject schema_ok_apple schema_ok_link)

section \<open>The signup budget\<close>

definition signups_on :: "int \<Rightarrow> db \<Rightarrow> int" where
  "signups_on day d = (case lookup_row fst day (signup_daily d) of None \<Rightarrow> 0 | Some (_, n) \<Rightarrow> n)"

definition signed_up :: "account_upsert res \<Rightarrow> bool" where
  "signed_up r \<longleftrightarrow> (case r of Inl _ \<Rightarrow> False | Inr u \<Rightarrow> up_signups_today u \<noteq> None)"

text \<open>An operation that creates an account on the given day.\<close>

fun signs_up :: "env \<Rightarrow> int \<Rightarrow> identity_op \<Rightarrow> db \<Rightarrow> bool" where
  "signs_up v day (SignInSubject now s e n) d \<longleftrightarrow>
     day_of now = day \<and> signed_up (fst (upsert_subject_account v now s e n d))"
| "signs_up v day (SignInApple now g n) d \<longleftrightarrow>
     day_of now = day \<and> signed_up (fst (upsert_apple_account v now g n d))"
| "signs_up v day (LinkApple a g) d \<longleftrightarrow> False"

text \<open>Operations under a limit, before the counter of the day is pruned thirty days later.\<close>

fun budgeted :: "int \<Rightarrow> int \<Rightarrow> identity_op \<Rightarrow> bool" where
  "budgeted day limit (SignInSubject now s e n) \<longleftrightarrow> day_of now \<le> day + 30 \<and> n \<le> limit"
| "budgeted day limit (SignInApple now g n) \<longleftrightarrow> day_of now \<le> day + 30 \<and> n \<le> limit"
| "budgeted day limit (LinkApple a g) \<longleftrightarrow> True"

lemma signups_on_cong: "signup_daily d' = signup_daily d \<Longrightarrow> signups_on day d' = signups_on day d"
  by (simp add: signups_on_def)

lemma signups_on_frame [simp]:
  "signups_on day (touch_identity p s e d) = signups_on day d"
  "signups_on day (set_account_email a e d) = signups_on day d"
  "signups_on day (upsert_apple_credential a c t d) = signups_on day d"
  by (simp_all add: signups_on_def touch_identity_def set_account_email_def upsert_apple_credential_def)

lemma signups_on_link [simp]: "signups_on day (snd (link_apple_identity v a g d)) = signups_on day d"
  by (auto simp: link_apple_identity_def Let_def insert_identity_def signups_on_def
      touch_identity_def upsert_apple_credential_def split: option.split)

lemma reserve_signup_counts:
  assumes "reserve_signup now n d = (Inr k, d')" "day_of now \<le> day + 30"
  shows "signups_on day d' = signups_on day d + (if day_of now = day then 1 else 0)"
    "day_of now = day \<Longrightarrow> signups_on day d < n" "k = signups_on (day_of now) d + 1"
proof -
  have key: "fst q = t" if "lookup_row fst t (signup_daily d) = Some q" for q t
    using that by (rule lookup_row_key)
  show "signups_on day d' = signups_on day d + (if day_of now = day then 1 else 0)"
    using assms key [of day] key [of "day_of now"]
    by (cases "lookup_row fst day (signup_daily d)"; cases "lookup_row fst (day_of now) (signup_daily d)")
      (auto simp: reserve_signup_def Let_def signups_on_def lookup_row_append lookup_row_update lookup_row_delete
        split: if_splits prod.splits)
  show "day_of now = day \<Longrightarrow> signups_on day d < n" "k = signups_on (day_of now) d + 1"
    using assms by (auto simp: reserve_signup_def Let_def signups_on_def split: option.splits if_splits prod.splits)
qed

lemma create_account_counts:
  assumes "create_account now i e p s n d = (Inr k, d')" "day_of now \<le> day + 30"
  shows "signups_on day d' = signups_on day d + (if day_of now = day then 1 else 0)"
    "day_of now = day \<Longrightarrow> signups_on day d < n"
proof -
  from assms(1) obtain t where r: "reserve_signup now n d = (Inr k, d\<lparr>signup_daily := t\<rparr>)"
    and d': "signup_daily d' = t" by (rule create_account_Inr) simp
  from d' have "signups_on day d' = signups_on day (d\<lparr>signup_daily := t\<rparr>)" by (simp add: signups_on_def)
  with reserve_signup_counts(1) [OF r assms(2)]
  show "signups_on day d' = signups_on day d + (if day_of now = day then 1 else 0)" by simp
  show "day_of now = day \<Longrightarrow> signups_on day d < n"
    using reserve_signup_counts(2) [OF r assms(2)] by simp
qed

interpretation signup: budget "identity_step v" "signups_on day" "signs_up v day" "budgeted day limit" limit
  for v day limit
proof
  fix x d
  assume adm: "budgeted day limit x"
  show "signups_on day (identity_step v x d) = signups_on day d + (if signs_up v day x d then 1 else 0)"
    using adm by (cases x) (auto simp: upsert_subject_account_def upsert_apple_account_def Let_def signed_up_def
        create_account_counts split: option.split prod.split sum.split)
  show "signs_up v day x d \<Longrightarrow> signups_on day d < limit"
    using adm by (cases x) (auto simp: upsert_subject_account_def upsert_apple_account_def Let_def signed_up_def
        split: option.splits prod.splits sum.splits if_splits dest!: create_account_counts(2))
qed

section \<open>Identities keep their owner\<close>

definition owner_of :: "string \<Rightarrow> string \<Rightarrow> db \<Rightarrow> string option" where
  "owner_of provider subject d =
     map_option idn_account (lookup_row (\<lambda>i. (idn_provider i, idn_subject i)) (provider, subject) (auth_identities d))"

lemma owner_of_frame [simp]:
  "owner_of p s (touch_identity p' s' e d) = owner_of p s d"
  "owner_of p s (set_account_email a e d) = owner_of p s d"
  "owner_of p s (upsert_apple_credential a c t d) = owner_of p s d"
proof -
  show "owner_of p s (touch_identity p' s' e d) = owner_of p s d"
    by (auto simp: owner_of_def touch_identity_def lookup_row_update option.map_comp
        intro!: option.map_cong [OF refl])
  show "owner_of p s (set_account_email a e d) = owner_of p s d"
    "owner_of p s (upsert_apple_credential a c t d) = owner_of p s d"
    by (simp_all add: owner_of_def set_account_email_def upsert_apple_credential_def)
qed

lemma owner_of_insert:
  assumes "insert_identity r d = Some d'"
  shows "owner_of p s d' = (if (p, s) = (idn_provider r, idn_subject r) then Some (idn_account r) else owner_of p s d)"
proof -
  let ?k = "\<lambda>i. (idn_provider i, idn_subject i)"
  from assms have d': "d' = d\<lparr>auth_identities := auth_identities d @ [r]\<rparr>"
    and "lookup_row ?k (?k r) (auth_identities d) = None"
    by (auto simp: insert_identity_def lookup_row_None split: if_splits)
  then show ?thesis
    by (cases "lookup_row ?k (p, s) (auth_identities d)") (auto simp: owner_of_def lookup_row_append)
qed

lemma owner_of_create:
  assumes "create_account now i e p s n d = (Inr k, d')"
  shows "owner_of q u d' = (if (q, u) = (p, s) then Some i else owner_of q u d)"
proof -
  from assms obtain d1 d2 where
    "reserve_signup now n d = (Inr k, d1)"
    and "insert_account \<lparr>acc_id = i, acc_email = e, acc_status = Active, acc_provider = p,
        acc_subject = s, acc_created = now\<rparr> d1 = Some d2"
    and b: "insert_identity \<lparr>idn_provider = p, idn_subject = s, idn_account = i, idn_email = e\<rparr> d2 = Some d'"
    by (auto simp: create_account_def bind_eq_Some_conv split: prod.splits sum.splits option.splits)
  then have "owner_of q u d2 = owner_of q u d"
    by (auto simp: owner_of_def insert_account_def reserve_signup_def Let_def split: if_splits option.splits)
  with owner_of_insert [OF b, of q u] show ?thesis by simp
qed

lemma account_of_identity_owner:
  "account_of_identity p s d = Some r \<Longrightarrow> owner_of p s d = Some (acc_id r)"
  by (auto simp: account_of_identity_def owner_of_def lookup_row_def split: option.splits
      dest!: find_Some_match)

lemma owner_of_None:
  "schema_ok d \<Longrightarrow> account_of_identity p s d = None \<longleftrightarrow> owner_of p s d = None"
proof -
  assume ok: "schema_ok d"
  have "lookup_row acc_id (idn_account i) (accounts d) \<noteq> None" if "i \<in> set (auth_identities d)" for i
    using ok that by (auto simp: schema_ok_def identity_ok_def child_ok_def account_ids_def lookup_row_None)
  then show ?thesis
    by (auto simp: account_of_identity_def owner_of_def lookup_row_def split: option.splits dest!: find_Some_match)
qed

lemma owner_kept_create:
  "create_account now i e p s n d = (Inr k, d') \<Longrightarrow> owner_of q u d = Some a \<Longrightarrow> owner_of q u d' = Some a"
proof -
  assume c: "create_account now i e p s n d = (Inr k, d')" and o: "owner_of q u d = Some a"
  from c have "(p, s) \<notin> (\<lambda>q. (idn_provider q, idn_subject q)) ` set (auth_identities d)"
    by (rule create_account_Inr)
  with o have "(q, u) \<noteq> (p, s)" by (auto simp: owner_of_def dest!: lookup_row_Some)
  with o show ?thesis by (auto simp: owner_of_create [OF c])
qed

lemma owner_kept_step:
  "owner_of q u d = Some a \<Longrightarrow> owner_of q u (identity_step v x d) = Some a"
proof (cases x)
  case (LinkApple b g)
  assume o: "owner_of q u d = Some a"
  have "owner_of q u d' = Some a" if "insert_identity r d = Some d'" for r d'
    using o that owner_of_insert [OF that, of q u]
    by (auto simp: insert_identity_def owner_of_def split: if_splits dest!: lookup_row_Some intro: rev_image_eqI)
  with o show ?thesis by (auto simp: LinkApple link_apple_identity_def Let_def split: option.split)
qed (auto simp: upsert_subject_account_def upsert_apple_account_def Let_def owner_kept_create
      split: option.split prod.split sum.split)

text \<open>The checks of \<open>link_apple_identity\<close> rule out every unique violation of its insert.\<close>

lemma link_no_violation:
  assumes "other = map_option idn_subject
      (List.find (\<lambda>i. idn_provider i = ''apple'' \<and> idn_account i = a) (auth_identities d))"
    and "List.find (\<lambda>i. idn_provider i = ''apple'' \<and> idn_subject i = s) (auth_identities d) = None"
    and "\<not> (\<exists>t. other = Some t \<and> t \<noteq> s)"
  shows "insert_identity \<lparr>idn_provider = ''apple'', idn_subject = s, idn_account = a, idn_email = e\<rparr> d \<noteq> None"
proof -
  have "List.find (\<lambda>i. idn_provider i = ''apple'' \<and> idn_account i = a) (auth_identities d) = None"
  proof (rule ccontr)
    assume "\<not> ?thesis"
    then obtain i where i: "List.find (\<lambda>i. idn_provider i = ''apple'' \<and> idn_account i = a) (auth_identities d) = Some i"
      by blast
    with assms(1,3) have "idn_subject i = s" by auto
    with assms(2) find_Some_match [OF i] show False by (auto simp: find_None_iff)
  qed
  with assms(2) show ?thesis by (auto simp: insert_identity_def find_None_iff)
qed

lemma account_of_identity_alt:
  "account_of_identity p s d = Option.bind (owner_of p s d) (\<lambda>a. lookup_row acc_id a (accounts d))"
  by (simp add: account_of_identity_def owner_of_def lookup_row_def split: option.split)

lemma status_text_active [simp]: "status_text st = ''active'' \<longleftrightarrow> st = Active"
  by (cases st) simp_all

lemma subject_known:
  assumes "owner_of ''google'' s d = Some (derive_stable_uuid (sha256 v) s)"
    and "lookup_row acc_id (derive_stable_uuid (sha256 v) s) (accounts d) = Some r" "acc_status r = Active"
    and "\<not> deleted_account_or_identity (derive_stable_uuid (sha256 v) s) ''google'' s d"
  shows "fst (upsert_subject_account v now s e n d) =
    Inr \<lparr>up_account = \<lparr>ac_id = derive_stable_uuid (sha256 v) s, ac_email = e\<rparr>, up_signups_today = None\<rparr>"
  using assms lookup_row_key [OF assms(2)]
  by (simp add: upsert_subject_account_def Let_def account_of_identity_alt)

text \<open>After a successful sign-in the subject resolves to its derived, active account.\<close>

lemma subject_signed_in:
  assumes "fst (upsert_subject_account v now s e n d) = Inr u"
  defines "d' \<equiv> snd (upsert_subject_account v now s e n d)" and "i \<equiv> derive_stable_uuid (sha256 v) s"
  shows "ac_id (up_account u) = i \<and> owner_of ''google'' s d' = Some i
    \<and> (\<exists>r. lookup_row acc_id i (accounts d') = Some r \<and> acc_status r = Active)
    \<and> \<not> deleted_account_or_identity i ''google'' s d'"
proof (cases "account_of_identity ''google'' s d")
  case (Some row)
  with assms(1) have row: "acc_status row = Active" "acc_id row = i" "ac_id (up_account u) = i"
    "\<not> deleted_account_or_identity i ''google'' s d"
    "d' = set_account_email i e (touch_identity ''google'' s e d)"
    by (auto simp: upsert_subject_account_def Let_def d'_def i_def split: if_splits)
  from Some row(2) have o: "owner_of ''google'' s d = Some i"
    using account_of_identity_owner by fastforce
  with Some have "lookup_row acc_id i (accounts d) = Some row" by (simp add: account_of_identity_alt)
  moreover have "owner_of ''google'' s d' = Some i" using o by (simp add: row(5))
  ultimately show ?thesis
    using row
    by (simp add: set_account_email_def touch_identity_def lookup_row_update deleted_account_or_identity_def)
next
  case None
  with assms(1) obtain k where c: "create_account now i e ''google'' s n d = (Inr k, d')"
    and u: "ac_id (up_account u) = i" "\<not> deleted_account_or_identity i ''google'' s d"
    by (auto simp: upsert_subject_account_def Let_def d'_def i_def split: if_splits prod.splits sum.splits)
  from c obtain t where d': "i \<notin> account_ids d" "accounts d' = accounts d @ [\<lparr>acc_id = i, acc_email = e,
      acc_status = Active, acc_provider = ''google'', acc_subject = s, acc_created = now\<rparr>]"
    "deleted_accounts d' = deleted_accounts d" "deleted_identities d' = deleted_identities d"
    by (rule create_account_Inr) simp
  then have "lookup_row acc_id i (accounts d) = None" by (simp add: lookup_row_None account_ids_def)
  with d' u owner_of_create [OF c, of "''google''" s] show ?thesis
    by (simp add: lookup_row_append deleted_account_or_identity_def)
qed

section \<open>Properties\<close>


definition sample_env :: env where
  "sample_env = \<lparr>sha256 = (\<lambda>_. replicate 32 0), lowercase = map ascii_lower\<rparr>"


text \<open>C25. No sign-in and no link ever moves an identity to another account, or drops it.\<close>

theorem identity_owner_permanent:
  assumes "owner_of provider subject d = Some a"
  shows "owner_of provider subject (run_ops (identity_step v) ops d) = Some a"
  using assms by (rule run_ops_invariant [rotated]) (rule owner_kept_step)

theorem identity_owner_permanent_witness:
  "owner_of ''google'' ''s'' (run_ops (identity_step sample_env) [SignInSubject 5 ''t'' ''e'' 1]
     (empty_db\<lparr>auth_identities := [\<lparr>idn_provider = ''google'', idn_subject = ''s'', idn_account = ''a'',
       idn_email = ''e''\<rparr>]\<rparr>)) = Some ''a''"
  by (rule identity_owner_permanent) (simp add: owner_of_def lookup_row_def)

text \<open>A user who signed in once is recognised afterwards: the next sign-in of the same subject
  returns the same account, whatever the budget of the day, and creates nothing.\<close>

theorem returning_subject_recognised:
  assumes "fst (upsert_subject_account v now s e n d) = Inr u"
  shows "fst (upsert_subject_account v now' s e' n' (snd (upsert_subject_account v now s e n d))) =
      Inr \<lparr>up_account = \<lparr>ac_id = ac_id (up_account u), ac_email = e'\<rparr>, up_signups_today = None\<rparr>
    \<and> ac_id (up_account u) = derive_stable_uuid (sha256 v) s"
  using subject_signed_in [OF assms] subject_known by auto

theorem returning_subject_recognised_witness:
  "\<exists>u. fst (upsert_subject_account sample_env 9 ''s'' ''e2'' 0
     (snd (upsert_subject_account sample_env 5 ''s'' ''e'' 1 empty_db))) = Inr u"
proof -
  have "fst (upsert_subject_account sample_env 5 ''s'' ''e'' 1 empty_db) =
      Inr \<lparr>up_account = \<lparr>ac_id = derive_stable_uuid (sha256 sample_env) ''s'', ac_email = ''e''\<rparr>,
        up_signups_today = Some 1\<rparr>"
    by (simp add: upsert_subject_account_def Let_def deleted_account_or_identity_def account_of_identity_def
        create_account_def reserve_signup_def insert_account_def insert_identity_def empty_db_def lookup_row_def)
  from returning_subject_recognised [OF this] show ?thesis by blast
qed

text \<open>Linking an Apple identity either fails with one of its own four errors, changing nothing,
  or leaves the identity owned by the account, which is active; it never runs into a database
  constraint.\<close>

theorem link_apple_total:
  "(case link_apple_identity v a g d of
      (Inr _, d') \<Rightarrow> account_status_of d a = Some Active \<and> owner_of ''apple'' (ag_subject g) d' = Some a
        \<and> (''apple'', ag_subject g) \<notin> set (deleted_identities d)
    | (Inl e, d') \<Rightarrow> d' = d \<and> (e = Auth ''account inactive'' \<or> e = Auth ''identity deleted''
        \<or> e = Conflict ''Apple identity is linked to another account''
        \<or> e = Conflict ''account already has a different Apple identity''))"
proof -
  let ?own = "List.find (\<lambda>i. idn_provider i = ''apple'' \<and> idn_subject i = ag_subject g) (auth_identities d)"
  have own: "owner_of ''apple'' (ag_subject g) d = map_option idn_account ?own"
    by (simp add: owner_of_def lookup_row_def)
  show ?thesis
  proof (cases ?own)
    case None
    show ?thesis
      using None link_no_violation [OF refl None, of a "lowercase v (ag_email g)"]
      by (auto simp: link_apple_identity_def Let_def owner_of_insert split: option.split)
  next
    case (Some i)
    with own show ?thesis by (auto simp: link_apple_identity_def Let_def)
  qed
qed

end
