(* ===== verification/Lifecycle_Store.thy ===== *)
theory Lifecycle_Store
  imports Identity_Store Isotime
begin

text \<open>
  Account deletion, \<^verbatim>\<open>persistence/postgres/lifecycle.rs\<close>: a request closes admission, \<open>begin\<close>
  revokes every session and notification route, \<open>finalize\<close> writes the tombstones and removes the
  account with everything that references it. \<open>random\<close> is the random token of the operation id.
  The preflight, which first recovers expired delivery claims, is not modelled. An instant is stored
  as \<^verbatim>\<open>to_timestamp\<close> of its milliseconds, which is exact to the microsecond for the dates the
  deletion workflow uses.
\<close>

record deletion_operation =
  do_id :: string
  do_status :: string
  do_reason :: string
  do_retry :: "int option"
  do_hard :: "string option"

definition DELETION_REQUEST_REASON :: string where
  "DELETION_REQUEST_REASON = ''billing_fence_in_progress''"

definition DELETION_PENDING_REASON :: string where
  "DELETION_PENDING_REASON = ''content_deletion_in_progress''"

section \<open>Helpers of the transactions\<close>

definition optional_timestamp :: "timestamp option \<Rightarrow> string option" where
  "optional_timestamp t = map_option (\<lambda>us. format_epoch_millis (us div 1000)) t"

definition deletion_operation_from_row :: "deletion_row \<Rightarrow> deletion_operation res" where
  "deletion_operation_from_row r =
     (if (case del_retry r of None \<Rightarrow> False | Some n \<Rightarrow> n < 0)
      then Inl (Store ''invalid persisted account-deletion retry delay'')
      else Inr \<lparr>do_id = del_operation r, do_status = del_status r, do_reason = del_reason r,
                do_retry = del_retry r, do_hard = optional_timestamp (del_hard r)\<rparr>)"

definition load_operation :: "string \<Rightarrow> db \<Rightarrow> deletion_operation option res" where
  "load_operation account_id d =
     (case lookup_row del_account account_id (deletion_operations d) of
        None \<Rightarrow> Inr None
      | Some r \<Rightarrow> map_sum id Some (deletion_operation_from_row r))"

text \<open>Load it or fail with the given message.\<close>

definition require_operation :: "string \<Rightarrow> string \<Rightarrow> db \<Rightarrow> deletion_operation res" where
  "require_operation message account_id d =
     (case load_operation account_id d of
        Inl e \<Rightarrow> Inl e | Inr None \<Rightarrow> Inl (Store message) | Inr (Some p) \<Rightarrow> Inr p)"

definition ensure_deletion_operation ::
  "timestamp \<Rightarrow> string \<Rightarrow> string \<Rightarrow> string \<Rightarrow> db \<Rightarrow> deletion_operation tx" where
  "ensure_deletion_operation now random account_id reason d =
     (let r = \<lparr>del_account = account_id, del_operation = ''del_'' @ random, del_status = ''pending'',
               del_reason = reason, del_retry = Some 30, del_hard = None, del_updated = now\<rparr>
      in if \<not> has_key del_account account_id (deletion_operations d)
            \<and> has_key del_operation (del_operation r) (deletion_operations d)
         then (Inl (Postgres ''unique_violation''), d)
         else let d1 = d\<lparr>deletion_operations := insert_ignore del_account r (deletion_operations d)\<rparr>
              in (case require_operation ''failed to initialize account deletion operation'' account_id d1 of
                    Inl e \<Rightarrow> (Inl e, d) | Inr p \<Rightarrow> (Inr p, d1)))"

definition refuse_open_provider_fences :: "string \<Rightarrow> db \<Rightarrow> unit res" where
  "refuse_open_provider_fences account_id d =
     (if exists_row (\<lambda>f. fen_account f = account_id) (ch_fences (email_channel d))
      then Inl (Conflict ''account has an in-flight email send'')
      else if exists_row (\<lambda>f. fen_account f = account_id) (ch_fences (webhook_channel d))
      then Inl (Conflict ''account has an in-flight webhook send'')
      else if exists_row (\<lambda>f. fen_account f = account_id) (ch_fences (push_channel d))
      then Inl (Conflict ''account has an in-flight push send'')
      else Inr ())"

definition refuse_started_vertex_invocations :: "string \<Rightarrow> db \<Rightarrow> unit res" where
  "refuse_started_vertex_invocations account_id d =
     (if exists_row (\<lambda>v. ve_account v = account_id \<and> ve_outcome v = Started) (vertex_events d)
      then Inl (Conflict ''account has an in-flight Vertex invocation'') else Inr ())"

definition refuse_reviewer_fixture_deletion :: "string \<Rightarrow> db \<Rightarrow> unit res" where
  "refuse_reviewer_fixture_deletion account_id d =
     (if account_id \<in> set (reviewer_fixtures d)
      then Inl (Conflict ''reviewer fixture accounts cannot be deleted'') else Inr ())"

definition refuse_active_media_uploads :: "timestamp \<Rightarrow> string \<Rightarrow> db \<Rightarrow> unit tx" where
  "refuse_active_media_uploads now account_id d =
     (let d1 = d\<lparr>upload_intents :=
          delete_rows (\<lambda>u. upl_account u = account_id \<and> upl_expires u \<le> now) (upload_intents d)\<rparr>
      in if exists_row (\<lambda>u. upl_account u = account_id) (upload_intents d1)
         then (Inl (Conflict ''account has an in-flight media upload''), d)
         else (Inr (), d1))"

section \<open>Transactions\<close>

definition account_deletion_operation :: "string \<Rightarrow> db \<Rightarrow> deletion_operation option res" where
  "account_deletion_operation account_id d = load_operation account_id d"

text \<open>\<open>tombstoned\<close>: the account row is gone and its tombstone stands.\<close>

definition tombstoned :: "string \<Rightarrow> db \<Rightarrow> bool" where
  "tombstoned account_id d \<longleftrightarrow>
     account_status_of d account_id = None \<and> account_id \<in> set (deleted_accounts d)"

definition complete_but_present :: "'a res" where
  "complete_but_present =
     Inl (Conflict ''physically complete deletion operation still has an identity row'')"

definition request_account_deletion ::
  "timestamp \<Rightarrow> string \<Rightarrow> string \<Rightarrow> db \<Rightarrow> deletion_operation option tx" where
  "request_account_deletion now random account_id d =
     (case refuse_reviewer_fixture_deletion account_id d of Inl e \<Rightarrow> (Inl e, d)
      | Inr _ \<Rightarrow>
      let status = account_status_of d account_id
      in if tombstoned account_id d then (load_operation account_id d, d)
         else if status \<notin> {Some Active, Some DeletionRequested, Some Deleting} then (Inr None, d)
         else (case ensure_deletion_operation now random account_id DELETION_REQUEST_REASON d of
           (Inl e, _) \<Rightarrow> (Inl e, d)
         | (Inr p, d1) \<Rightarrow>
           if do_status p = ''physical_complete'' then (complete_but_present, d)
           else if status = Some Active then
             let hit = (\<lambda>r. acc_id r = account_id \<and> acc_status r = Active)
             in if count_rows hit (accounts d1) \<noteq> 1
                then (Inl (Conflict ''account deletion request lost its admission fence''), d)
                else (Inr (Some p), d1\<lparr>accounts :=
                       update_rows hit (\<lambda>r. r\<lparr>acc_status := DeletionRequested\<rparr>) (accounts d1)\<rparr>)
           else (Inr (Some p), d1)))"

text \<open>The revocations of \<open>begin\<close>: sessions, consents, codes and every notification route.\<close>

definition revoke_sessions :: "string \<Rightarrow> db \<Rightarrow> db" where
  "revoke_sessions account_id d = d\<lparr>
     accounts := update_rows (\<lambda>r. acc_id r = account_id) (\<lambda>r. r\<lparr>acc_status := Deleting\<rparr>) (accounts d),
     oauth_codes := delete_rows (\<lambda>r. cod_account r = account_id) (oauth_codes d),
     oauth_consents := delete_rows (\<lambda>r. con_account r = account_id) (oauth_consents d),
     refresh_tokens := delete_rows (\<lambda>r. ref_account r = account_id) (refresh_tokens d),
     webhook_subscriptions := update_rows (\<lambda>r. wh_account r = account_id)
       (\<lambda>r. r\<lparr>wh_enabled := False\<rparr>) (webhook_subscriptions d),
     email_preferences := update_rows (\<lambda>r. ep_account r = account_id)
       (\<lambda>r. r\<lparr>ep_enabled := False, ep_include_content := False, ep_consented := None\<rparr>) (email_preferences d),
     push_installations := update_rows (\<lambda>r. pu_account r = account_id)
       (\<lambda>r. r\<lparr>pu_enabled := False\<rparr>) (push_installations d)\<rparr>"

text \<open>The operation that \<open>begin\<close> settles on, with its reason advanced.\<close>

definition begin_operation :: "timestamp \<Rightarrow> string \<Rightarrow> string \<Rightarrow> db \<Rightarrow> deletion_operation tx" where
  "begin_operation now random account_id d =
     (case ensure_deletion_operation now random account_id DELETION_PENDING_REASON d of
        (Inl e, _) \<Rightarrow> (Inl e, d)
      | (Inr p, d1) \<Rightarrow>
        if do_reason p = DELETION_REQUEST_REASON then
          let d2 = d1\<lparr>deletion_operations :=
                update_rows (\<lambda>r. del_account r = account_id \<and> del_status r = ''pending'')
                  (\<lambda>r. r\<lparr>del_reason := DELETION_PENDING_REASON, del_retry := Some 30, del_updated := now\<rparr>)
                  (deletion_operations d1)\<rparr>
          in (case require_operation ''account deletion operation disappeared'' account_id d2 of
                Inl e \<Rightarrow> (Inl e, d) | Inr q \<Rightarrow> (Inr q, d2))
        else (Inr p, d1))"

definition begin_account_deletion ::
  "timestamp \<Rightarrow> string \<Rightarrow> string \<Rightarrow> db \<Rightarrow> deletion_operation option tx" where
  "begin_account_deletion now random account_id d =
     (case refuse_reviewer_fixture_deletion account_id d of Inl e \<Rightarrow> (Inl e, d) | Inr _ \<Rightarrow>
      case refuse_open_provider_fences account_id d of Inl e \<Rightarrow> (Inl e, d) | Inr _ \<Rightarrow>
      case refuse_started_vertex_invocations account_id d of Inl e \<Rightarrow> (Inl e, d) | Inr _ \<Rightarrow>
      case refuse_active_media_uploads now account_id d of (Inl e, _) \<Rightarrow> (Inl e, d) | (Inr _, d1) \<Rightarrow>
      let status = account_status_of d account_id
      in if \<not> tombstoned account_id d \<and> status \<notin> {Some DeletionRequested, Some Deleting}
         then (Inr None, d1)
         else let d2 = (if status = Some DeletionRequested then revoke_sessions account_id d1 else d1)
              in (case begin_operation now random account_id d2 of
                    (Inl e, _) \<Rightarrow> (Inl e, d)
                  | (Inr p, d3) \<Rightarrow>
                    if \<not> tombstoned account_id d \<and> do_status p = ''physical_complete''
                    then (complete_but_present, d)
                    else (Inr (Some p), d3)))"

definition update_account_deletion_status ::
  "timestamp \<Rightarrow> string \<Rightarrow> string \<Rightarrow> nat option \<Rightarrow> string option \<Rightarrow> db \<Rightarrow> deletion_operation tx" where
  "update_account_deletion_status now account_id reason retry_after hard d =
     (if (case retry_after of None \<Rightarrow> False | Some n \<Rightarrow> int n > i64_max)
      then (Inl (Store ''account-deletion retry delay is too large''), d)
      else if (case hard of None \<Rightarrow> False | Some h \<Rightarrow> parse_epoch_millis h = None)
      then (Inl (Store ''account-deletion hard-delete time is invalid''), d)
      else
        let millis = Option.bind hard parse_epoch_millis;
            hit = (\<lambda>r. del_account r = account_id);
            d1 = d\<lparr>deletion_operations := update_rows hit
              (\<lambda>r. r\<lparr>del_status := ''pending'', del_reason := reason, del_retry := map_option int retry_after,
                    del_hard := map_option (\<lambda>ms. ms * 1000) millis, del_updated := now\<rparr>)
              (deletion_operations d)\<rparr>
        in if count_rows hit (deletion_operations d) \<noteq> 1
           then (Inl (Conflict ''account deletion operation was not initialized''), d)
           else (case require_operation ''account deletion operation disappeared'' account_id d1 of
                   Inl e \<Rightarrow> (Inl e, d) | Inr p \<Rightarrow> (Inr p, d1)))"

text \<open>The tombstones and the physical deletion of \<open>finalize\<close>.\<close>

definition bury :: "string \<Rightarrow> db \<Rightarrow> db" where
  "bury account_id d =
     (let idents = map (\<lambda>i. (idn_provider i, idn_subject i))
            (filter (\<lambda>i. idn_account i = account_id) (auth_identities d));
          bills = map (\<lambda>b. \<lparr>dt_id = snd b, dt_attempts = 0, dt_last = None\<rparr>) (filter (\<lambda>b. fst b = account_id) (billing_accounts d))
      in delete_account account_id (d\<lparr>
           deleted_identities := fold (insert_ignore id) idents (deleted_identities d),
           deleted_accounts := insert_ignore id account_id (deleted_accounts d),
           billing_detach_outbox := fold (insert_ignore dt_id) bills (billing_detach_outbox d)\<rparr>))"

definition complete_operation :: "timestamp \<Rightarrow> string \<Rightarrow> db \<Rightarrow> deletion_operation tx" where
  "complete_operation now account_id d =
     (let hit = (\<lambda>r. del_account r = account_id);
          d1 = d\<lparr>deletion_operations := update_rows hit
            (\<lambda>r. r\<lparr>del_status := ''physical_complete'', del_reason := ''content_deleted'',
                  del_retry := None, del_hard := None, del_updated := now\<rparr>) (deletion_operations d)\<rparr>
      in if count_rows hit (deletion_operations d) \<noteq> 1
         then (Inl (Conflict ''account deletion operation was not initialized''), d)
         else (case require_operation ''account deletion operation disappeared'' account_id d1 of
                 Inl e \<Rightarrow> (Inl e, d) | Inr p \<Rightarrow> (Inr p, d1)))"

definition finalize_account_deletion :: "timestamp \<Rightarrow> string \<Rightarrow> db \<Rightarrow> deletion_operation tx" where
  "finalize_account_deletion now account_id d =
     (case refuse_open_provider_fences account_id d of Inl e \<Rightarrow> (Inl e, d) | Inr _ \<Rightarrow>
      case refuse_active_media_uploads now account_id d of (Inl e, _) \<Rightarrow> (Inl e, d) | (Inr _, d1) \<Rightarrow>
      let settle = (\<lambda>d2. case complete_operation now account_id d2 of
                           (Inl e, _) \<Rightarrow> (Inl e, d) | (Inr p, d3) \<Rightarrow> (Inr p, d3))
      in case account_status_of d account_id of
           None \<Rightarrow>
             if account_id \<notin> set (deleted_accounts d)
             then (Inl (Conflict ''account is unavailable''), d)
             else settle d1
         | Some status \<Rightarrow>
             if status \<noteq> Deleting then (Inl (Conflict ''account deletion was not initialized''), d)
             else if exists_row (\<lambda>r. apl_account r = account_id \<and> apl_revoked r = None) (apple_credentials d)
             then (Inl (Conflict ''Apple credential revocation is incomplete''), d)
             else if count_rows (\<lambda>r. acc_id r = account_id) (accounts d) \<noteq> 1
             then (Inl (Store ''account identity deletion affected an unexpected row count''), d)
             else settle (bury account_id d1))"

definition deleting_account_ids :: "nat \<Rightarrow> db \<Rightarrow> string list res" where
  "deleting_account_ids limit d =
     (if int limit > i64_max then Inl (Store ''account-deletion sweep limit is too large'')
      else let op = (\<lambda>r. lookup_row del_account (acc_id r) (deletion_operations d));
               pick = filter (\<lambda>r. acc_status r \<in> {DeletionRequested, Deleting}
                        \<and> (case op r of None \<Rightarrow> True | Some p \<Rightarrow> del_status p = ''pending'')) (accounts d);
               key = (\<lambda>r. (case op r of None \<Rightarrow> acc_created r | Some p \<Rightarrow> del_updated p, acc_id r))
           in Inr (take limit (map acc_id (sort_key (\<lambda>r. fst (key r)) (sort_key (\<lambda>r. snd (key r)) pick)))))"

definition apple_refresh_credentials :: "string \<Rightarrow> db \<Rightarrow> (string \<times> string) list" where
  "apple_refresh_credentials account_id d =
     map (\<lambda>r. (apl_client r, apl_token r))
       (sort_key apl_client (filter (\<lambda>r. apl_account r = account_id \<and> apl_revoked r = None)
          (apple_credentials d)))"

definition mark_apple_credential_revoked :: "timestamp \<Rightarrow> string \<Rightarrow> string \<Rightarrow> db \<Rightarrow> unit tx" where
  "mark_apple_credential_revoked now account_id client_id d =
     (let hit = (\<lambda>r. apl_account r = account_id \<and> apl_client r = client_id)
      in if count_rows hit (apple_credentials d) \<noteq> 1
         then (Inl (Conflict ''Apple credential disappeared before revocation settlement''), d)
         else (Inr (), d\<lparr>apple_credentials := update_rows hit
                (\<lambda>r. r\<lparr>apl_revoked := Some (case apl_revoked r of Some t \<Rightarrow> t | None \<Rightarrow> now)\<rparr>)
                (apple_credentials d)\<rparr>))"

section \<open>Histories\<close>

datatype lifecycle_op =
    RequestDeletion timestamp string string
  | BeginDeletion timestamp string string
  | UpdateDeletion timestamp string string "nat option" "string option"
  | FinalizeDeletion timestamp string
  | RevokeApple timestamp string string

fun lifecycle_step :: "lifecycle_op \<Rightarrow> db \<Rightarrow> db" where
  "lifecycle_step (RequestDeletion now random a) d = snd (request_account_deletion now random a d)"
| "lifecycle_step (BeginDeletion now random a) d = snd (begin_account_deletion now random a d)"
| "lifecycle_step (UpdateDeletion now a reason retry hard) d =
     snd (update_account_deletion_status now a reason retry hard d)"
| "lifecycle_step (FinalizeDeletion now a) d = snd (finalize_account_deletion now a d)"
| "lifecycle_step (RevokeApple now a c) d = snd (mark_apple_credential_revoked now a c d)"

section \<open>The account's life as a state machine\<close>

text \<open>
  An account seen from outside: its status, if it has a row, and whether its tombstone stands. The
  steps are the only ways the service moves it.
\<close>

type_synonym life = "account_status option \<times> bool"

definition life_of :: "string \<Rightarrow> db \<Rightarrow> life" where
  "life_of a d = (account_status_of d a, a \<in> set (deleted_accounts d))"

inductive life_step :: "life \<Rightarrow> life \<Rightarrow> bool" where
  stay: "life_step l l"
| sign_up: "life_step (None, False) (Some Active, False)"
| request: "life_step (Some Active, t) (Some DeletionRequested, t)"
| start: "life_step (Some DeletionRequested, t) (Some Deleting, t)"
| finish: "life_step (Some Deleting, t) (None, True)"

inductive_cases life_stepE: "life_step l m"

text \<open>Once deletion was requested the account is never active again: it is closing or buried.\<close>

definition closing :: "life \<Rightarrow> bool" where
  "closing l \<longleftrightarrow> (case l of (Some s, _) \<Rightarrow> s \<noteq> Active | (None, t) \<Rightarrow> t)"

lemma closing_step: "life_step l m \<Longrightarrow> closing l \<Longrightarrow> closing m"
  by (induction rule: life_step.induct) (auto simp: closing_def)

lemma closing_not_active: "closing (life_of a d) \<Longrightarrow> \<not> account_active d a \<or> \<not> distinct (map acc_id (accounts d))"
  by (auto simp: closing_def life_of_def account_status_of_def account_active_iff dest: lookup_row_unique
      split: option.splits)

section \<open>What the transactions change\<close>

lemma status_update:
  "lookup_row acc_id a (accounts d) = Some r \<Longrightarrow>
   account_status_of (d\<lparr>accounts := update_rows P f (accounts d)\<rparr>) a = Some (acc_status (if P r then f r else r))"
  if "\<And>r. acc_id (f r) = acc_id r"
  using that by (simp add: account_status_of_def lookup_row_update)

text \<open>The operation bookkeeping only touches its own table and keeps its key.\<close>

definition only_operations :: "db \<Rightarrow> db \<Rightarrow> bool" where
  "only_operations d d' \<longleftrightarrow> (\<exists>t. d' = d\<lparr>deletion_operations := t\<rparr>
     \<and> (distinct (map del_account (deletion_operations d)) \<longrightarrow> distinct (map del_account t)))"

lemma only_operations_refl: "only_operations d d"
  by (auto simp: only_operations_def intro!: exI [of _ "deletion_operations d"])

lemma only_operations_trans: "only_operations d e \<Longrightarrow> only_operations e f \<Longrightarrow> only_operations d f"
  by (auto simp: only_operations_def)

lemma only_operationsI:
  "(distinct (map del_account (deletion_operations d)) \<Longrightarrow> distinct (map del_account t)) \<Longrightarrow>
   only_operations d (d\<lparr>deletion_operations := t\<rparr>)"
  by (auto simp: only_operations_def)

lemma only_operations_update:
  "(\<And>r. P r \<Longrightarrow> del_account (f r) = del_account r) \<Longrightarrow>
   only_operations d (d\<lparr>deletion_operations := update_rows P f (deletion_operations d)\<rparr>)"
  by (rule only_operationsI) (simp add: map_update_rows)

lemma ensure_operation_frame:
  assumes "ensure_deletion_operation now random a reason d = (Inr p, d')"
  shows "only_operations d d'"
  using assms
  by (auto simp: ensure_deletion_operation_def Let_def distinct_insert_ignore split: if_splits sum.splits
      intro!: only_operationsI)

lemma begin_operation_frame:
  assumes "begin_operation now random a d = (Inr p, d')"
  shows "only_operations d d'"
proof -
  from assms obtain q d1 where e: "ensure_deletion_operation now random a DELETION_PENDING_REASON d = (Inr q, d1)"
    by (auto simp: begin_operation_def split: prod.splits sum.splits)
  have "only_operations d1 d'"
    using assms e
    by (auto simp: begin_operation_def Let_def only_operations_refl split: if_splits sum.splits
        intro!: only_operations_update)
  with ensure_operation_frame [OF e] show ?thesis by (rule only_operations_trans)
qed

lemma complete_operation_frame:
  "complete_operation now a d = (Inr p, d') \<Longrightarrow> only_operations d d'"
  by (auto simp: complete_operation_def Let_def split: if_splits sum.splits intro!: only_operations_update)

lemma update_status_frame: "only_operations d (snd (update_account_deletion_status now a reason retry hard d))"
  by (auto simp: update_account_deletion_status_def Let_def only_operations_refl split: sum.split
      intro!: only_operations_update)

lemma only_operations_life: "only_operations d d' \<Longrightarrow> life_of a d' = life_of a d"
  by (auto simp: only_operations_def life_of_def account_status_of_def)

lemma refuse_uploads_frame:
  assumes "refuse_active_media_uploads now a d = (Inr u, d')"
  shows "d' = d\<lparr>upload_intents := delete_rows (\<lambda>u. upl_account u = a \<and> upl_expires u \<le> now) (upload_intents d)\<rparr>"
    "\<not> exists_row (\<lambda>u. upl_account u = a) (upload_intents d')"
  using assms by (auto simp: refuse_active_media_uploads_def Let_def split: if_splits)

text \<open>The shapes of a successful transaction.\<close>

lemma request_cases:
  obtains (same) "snd (request_account_deletion now random a d) = d"
  | (requested) p d1 where "only_operations d d1" "account_status_of d a = Some Active"
      "request_account_deletion now random a d = (Inr (Some p), d1\<lparr>accounts :=
         update_rows (\<lambda>r. acc_id r = a \<and> acc_status r = Active) (\<lambda>r. r\<lparr>acc_status := DeletionRequested\<rparr>) (accounts d1)\<rparr>)"
  | (repeated) p d1 where "only_operations d d1" "account_status_of d a \<in> {Some DeletionRequested, Some Deleting}"
      "request_account_deletion now random a d = (Inr (Some p), d1)"
proof (cases "snd (request_account_deletion now random a d) = d")
  case True
  then show ?thesis by (rule same)
next
  case False
  then obtain p d1 where e: "ensure_deletion_operation now random a DELETION_REQUEST_REASON d = (Inr p, d1)"
    by (fastforce simp: request_account_deletion_def Let_def split: sum.splits prod.splits if_splits)
  have "account_status_of d a \<in> {Some Active, Some DeletionRequested, Some Deleting}"
    using False by (auto simp: request_account_deletion_def Let_def split: sum.splits if_splits)
  then show ?thesis
    using False e requested [OF ensure_operation_frame [OF e]] repeated [OF ensure_operation_frame [OF e]]
    by (auto simp: request_account_deletion_def Let_def complete_but_present_def split: sum.splits if_splits)
qed

text \<open>When the guards of \<open>begin\<close> pass, the rest of it.\<close>

definition begin_rest :: "timestamp \<Rightarrow> string \<Rightarrow> string \<Rightarrow> db \<Rightarrow> db \<Rightarrow> deletion_operation option tx" where
  "begin_rest now random a d d1 =
     (if \<not> tombstoned a d \<and> account_status_of d a \<notin> {Some DeletionRequested, Some Deleting}
      then (Inr None, d1)
      else case begin_operation now random a
             (if account_status_of d a = Some DeletionRequested then revoke_sessions a d1 else d1) of
          (Inl e, _) \<Rightarrow> (Inl e, d)
        | (Inr p, d3) \<Rightarrow>
          if \<not> tombstoned a d \<and> do_status p = ''physical_complete''
          then (complete_but_present, d) else (Inr (Some p), d3))"

lemma begin_guards:
  obtains (refused) e where "begin_account_deletion now random a d = (Inl e, d)"
  | (passed) d1 where "refuse_active_media_uploads now a d = (Inr (), d1)"
      "refuse_open_provider_fences a d = Inr ()" "refuse_started_vertex_invocations a d = Inr ()"
      "a \<notin> set (reviewer_fixtures d)" "begin_account_deletion now random a d = begin_rest now random a d d1"
proof (cases "refuse_active_media_uploads now a d")
  case (Pair u d1)
  show ?thesis
  proof (cases "refuse_reviewer_fixture_deletion a d = Inr () \<and> refuse_open_provider_fences a d = Inr ()
      \<and> refuse_started_vertex_invocations a d = Inr () \<and> u = Inr ()")
    case False
    then have "\<exists>e. begin_account_deletion now random a d = (Inl e, d)"
      using Pair by (auto simp: begin_account_deletion_def Let_def split: sum.split)
    then show ?thesis using refused by blast
  next
    case True
    then have "a \<notin> set (reviewer_fixtures d)"
      by (auto simp: refuse_reviewer_fixture_deletion_def split: if_splits)
    moreover have "begin_account_deletion now random a d = begin_rest now random a d d1"
      unfolding begin_account_deletion_def begin_rest_def Let_def Pair
      by (simp only: True sum.case prod.case)
    ultimately show ?thesis using True Pair by (intro passed) simp_all
  qed
qed

lemma begin_rest_cases:
  obtains (refused) e where "begin_rest now random a d d1 = (Inl e, d)"
  | (settled) "begin_rest now random a d d1 = (Inr None, d1)"
  | (began) p d2 where "account_status_of d a = Some DeletionRequested"
      "only_operations (revoke_sessions a d1) d2" "begin_rest now random a d d1 = (Inr (Some p), d2)"
  | (repeated) p d2 where "account_status_of d a = Some Deleting \<or> tombstoned a d"
      "account_status_of d a \<noteq> Some DeletionRequested"
      "only_operations d1 d2" "begin_rest now random a d d1 = (Inr (Some p), d2)"
proof -
  let ?d2 = "if account_status_of d a = Some DeletionRequested then revoke_sessions a d1 else d1"
  obtain q d3 where op: "begin_operation now random a ?d2 = (q, d3)" by fastforce
  consider "\<not> tombstoned a d \<and> account_status_of d a \<notin> {Some DeletionRequested, Some Deleting}"
    | e where "tombstoned a d \<or> account_status_of d a \<in> {Some DeletionRequested, Some Deleting}" "q = Inl e"
    | p where "tombstoned a d \<or> account_status_of d a \<in> {Some DeletionRequested, Some Deleting}" "q = Inr p"
    by (cases q) auto
  then show ?thesis
  proof cases
    case 1
    then show ?thesis by (intro settled) (simp add: begin_rest_def)
  next
    case (2 e)
    with op show ?thesis by (intro refused [of e]) (auto simp: begin_rest_def)
  next
    case (3 p)
    with op have fr: "only_operations ?d2 d3" by (intro begin_operation_frame) simp
    from 3 op have "begin_rest now random a d d1 =
        (if \<not> tombstoned a d \<and> do_status p = ''physical_complete'' then (complete_but_present, d) else (Inr (Some p), d3))"
      by (auto simp: begin_rest_def)
    then show ?thesis
      using 3(1) fr refused began repeated by (auto simp: complete_but_present_def split: if_splits)
  qed
qed

lemma finalize_cases:
  obtains (refused) e where "finalize_account_deletion now a d = (Inl e, d)"
  | (again) p d1 d2 where "refuse_active_media_uploads now a d = (Inr (), d1)"
      "account_status_of d a = None" "a \<in> set (deleted_accounts d)" "only_operations d1 d2"
      "finalize_account_deletion now a d = (Inr p, d2)"
  | (buried) p d1 d2 where "refuse_active_media_uploads now a d = (Inr (), d1)"
      "refuse_open_provider_fences a d = Inr ()" "account_status_of d a = Some Deleting"
      "\<not> exists_row (\<lambda>r. apl_account r = a \<and> apl_revoked r = None) (apple_credentials d)"
      "only_operations (bury a d1) d2" "finalize_account_deletion now a d = (Inr p, d2)"
proof (cases "finalize_account_deletion now a d")
  case (Pair r d2)
  show ?thesis
  proof (cases r)
    case (Inl e)
    with Pair have "finalize_account_deletion now a d = (Inl e, d)"
      by (auto simp: finalize_account_deletion_def Let_def simp del: exists_row_iff
          split: sum.splits option.splits if_splits prod.splits)
    then show ?thesis by (rule refused)
  next
    case (Inr p)
    with Pair obtain d1 where up: "refuse_active_media_uploads now a d = (Inr (), d1)"
      and fence: "refuse_open_provider_fences a d = Inr ()"
      by (auto simp: finalize_account_deletion_def split: sum.splits prod.splits)
    show ?thesis
    proof (cases "account_status_of d a")
      case None
      then have "a \<in> set (deleted_accounts d)" "complete_operation now a d1 = (Inr p, d2)"
        using Pair Inr up fence
        by (auto simp: finalize_account_deletion_def Let_def split: if_splits prod.splits sum.splits)
      then show ?thesis using None up Pair Inr again complete_operation_frame by blast
    next
      case (Some s)
      then have "s = Deleting" "\<not> exists_row (\<lambda>r. apl_account r = a \<and> apl_revoked r = None) (apple_credentials d)"
        "complete_operation now a (bury a d1) = (Inr p, d2)"
        using Pair Inr up fence
        by (auto simp: finalize_account_deletion_def Let_def simp del: exists_row_iff
            split: if_splits prod.splits sum.splits)
      then show ?thesis using Some up fence Pair Inr buried complete_operation_frame by blast
    qed
  qed
qed

section \<open>Refinement of the state machine\<close>

lemma life_of_cong:
  "accounts d' = accounts d \<Longrightarrow> deleted_accounts d' = deleted_accounts d \<Longrightarrow> life_of a d' = life_of a d"
  by (simp add: life_of_def account_status_of_def)

lemma life_uploads: "refuse_active_media_uploads now b d = (Inr u, d') \<Longrightarrow> life_of a d' = life_of a d"
  by (drule refuse_uploads_frame(1)) (simp add: life_of_def account_status_of_def)

lemma life_revoke:
  "life_of a (revoke_sessions b d) =
     (if a = b then map_prod (map_option (\<lambda>_. Deleting)) id (life_of a d) else life_of a d)"
  by (auto simp: life_of_def account_status_of_def revoke_sessions_def lookup_row_update option.map_comp
      intro!: option.map_cong [OF refl] dest: lookup_row_key)

lemma life_bury: "life_of a (bury b d) = (if a = b then (None, True) else life_of a d)"
  by (auto simp: life_of_def account_status_of_def bury_def Let_def delete_account_def lookup_row_delete
      lookup_row_None set_insert_ignore)

lemma life_request_other:
  "a \<noteq> b \<Longrightarrow> life_of a (d\<lparr>accounts := update_rows (\<lambda>r. acc_id r = b \<and> acc_status r = Active)
      (\<lambda>r. r\<lparr>acc_status := DeletionRequested\<rparr>) (accounts d)\<rparr>) = life_of a d"
  by (auto simp: life_of_def account_status_of_def lookup_row_update option.map_comp
      intro!: option.map_cong [OF refl] dest: lookup_row_key)

lemma life_request:
  assumes "account_status_of d b = Some Active"
  shows "life_step (life_of a d) (life_of a (d\<lparr>accounts := update_rows (\<lambda>r. acc_id r = b \<and> acc_status r = Active)
      (\<lambda>r. r\<lparr>acc_status := DeletionRequested\<rparr>) (accounts d)\<rparr>))"
proof (cases "a = b")
  case True
  with assms obtain r where r: "lookup_row acc_id a (accounts d) = Some r" "acc_status r = Active"
    by (auto simp: account_status_of_def)
  with lookup_row_key [OF r(1)] True show ?thesis
    by (simp add: life_of_def account_status_of_def lookup_row_update life_step.request)
qed (simp add: life_request_other life_step.stay)

lemma life_refine_begin: "life_step (life_of a d) (life_of a (snd (begin_account_deletion now random b d)))"
proof (cases rule: begin_guards [of now random b d])
  case (refused e)
  then show ?thesis by (simp add: life_step.stay)
next
  case (passed d1)
  note l1 = life_uploads [OF passed(1)]
  show ?thesis
  proof (cases rule: begin_rest_cases [of now random b d d1])
    case (refused e)
    then show ?thesis by (simp add: passed(5) life_step.stay)
  next
    case settled
    then show ?thesis by (simp add: passed(5) l1 life_step.stay)
  next
    case (began p d2)
    have "fst (life_of b d) = Some DeletionRequested" using began(1) by (simp add: life_of_def)
    then have "life_step (life_of b d) (map_prod (map_option (\<lambda>_. Deleting)) id (life_of b d))"
      by (cases "life_of b d") (auto intro: life_step.start)
    then show ?thesis
      using began by (auto simp: passed(5) only_operations_life life_revoke l1 life_step.stay)
  next
    case (repeated p d2)
    then show ?thesis by (simp add: passed(5) l1 only_operations_life life_step.stay)
  qed
qed

lemma life_refine_finalize: "life_step (life_of a d) (life_of a (snd (finalize_account_deletion now b d)))"
proof (cases rule: finalize_cases [of now b d])
  case (refused e)
  then show ?thesis by (simp add: life_step.stay)
next
  case (again p d1 d2)
  then show ?thesis by (simp add: only_operations_life life_uploads life_step.stay)
next
  case (buried p d1 d2)
  have "life_of b d = (Some Deleting, b \<in> set (deleted_accounts d))"
    using buried(3) by (simp add: life_of_def)
  then show ?thesis
    using buried by (auto simp: only_operations_life life_bury life_uploads life_step.stay intro: life_step.finish)
qed

lemma life_refine_lifecycle: "life_step (life_of a d) (life_of a (lifecycle_step x d))"
proof (cases x)
  case (RequestDeletion now random b)
  show ?thesis
  proof (cases rule: request_cases [of now random b d])
    case same
    then show ?thesis by (simp add: RequestDeletion life_step.stay)
  next
    case (requested p d1)
    have "account_status_of d1 b = Some Active"
      using requested(1,2) by (auto simp: only_operations_def account_status_of_def)
    from life_request [OF this] show ?thesis
      using requested by (simp add: RequestDeletion only_operations_life)
  next
    case (repeated p d1)
    then show ?thesis by (simp add: RequestDeletion only_operations_life life_step.stay)
  qed
next
  case (UpdateDeletion now b reason retry hard)
  then show ?thesis by (simp add: only_operations_life [OF update_status_frame] life_step.stay)
next
  case (RevokeApple now b c)
  have "life_of a (lifecycle_step x d) = life_of a d"
    unfolding RevokeApple by (rule life_of_cong) (simp_all add: mark_apple_credential_revoked_def Let_def)
  then show ?thesis by (simp add: life_step.stay)
qed (simp_all add: life_refine_begin life_refine_finalize)

text \<open>The identity and OAuth transactions refine the same machine.\<close>

lemma life_refine_oauth: "life_step (life_of a d) (life_of a (oauth_step x d))"
  using life_of_cong [of "oauth_step x d" d a] by (simp add: life_step.stay)

lemma life_frame [simp]:
  "life_of a (touch_identity p s e d) = life_of a d"
  "life_of a (upsert_apple_credential b c t d) = life_of a d"
  "life_of a (set_account_email b e d) = life_of a d"
proof -
  show "life_of a (set_account_email b e d) = life_of a d"
    by (auto simp: life_of_def account_status_of_def set_account_email_def lookup_row_update option.map_comp
        intro!: option.map_cong [OF refl])
qed (simp_all add: life_of_def account_status_of_def touch_identity_def upsert_apple_credential_def)

lemma life_create:
  assumes "create_account now i e p s n d = (Inr k, d')" "i \<notin> set (deleted_accounts d)"
  shows "life_step (life_of a d) (life_of a d')"
proof -
  from assms(1) obtain t where d': "i \<notin> account_ids d"
    "d' = d\<lparr>signup_daily := t,
            accounts := accounts d @ [\<lparr>acc_id = i, acc_email = e, acc_status = Active,
              acc_provider = p, acc_subject = s, acc_created = now\<rparr>],
            auth_identities := auth_identities d @ [\<lparr>idn_provider = p, idn_subject = s,
              idn_account = i, idn_email = e\<rparr>]\<rparr>" by (rule create_account_Inr)
  then have "lookup_row acc_id i (accounts d) = None" by (simp add: lookup_row_None account_ids_def)
  then show ?thesis
    using d'(2) assms(2) life_step.sign_up
    by (cases "lookup_row acc_id a (accounts d)")
      (auto simp: life_of_def account_status_of_def lookup_row_append life_step.stay)
qed

lemma life_refine_identity: "life_step (life_of a d) (life_of a (identity_step v x d))"
proof (cases x)
  case (LinkApple b g)
  have "life_of a (snd (link_apple_identity v b g d)) = life_of a d"
    by (rule life_of_cong) (auto simp: link_apple_identity_def Let_def insert_identity_def touch_identity_def
        upsert_apple_credential_def split: option.split)
  then show ?thesis by (simp add: LinkApple life_step.stay)
qed (auto simp: upsert_subject_account_def upsert_apple_account_def Let_def deleted_account_or_identity_def
      life_step.stay split: option.split prod.split sum.split intro: life_create)

section \<open>Schema constraints are kept\<close>

lemma schema_ok_only_operations: "only_operations d d' \<Longrightarrow> schema_ok d \<Longrightarrow> schema_ok d'"
  using oauth_ok_cong [of d' d]
  by (auto simp: only_operations_def schema_ok_def identity_ok_def account_ids_def)

lemma schema_ok_cong:
  assumes "schema_ok d" "accounts d' = accounts d" "auth_identities d' = auth_identities d"
    "apple_credentials d' = apple_credentials d" "signup_daily d' = signup_daily d"
    "deletion_operations d' = deletion_operations d" "oauth_clients d' = oauth_clients d"
    "oauth_consents d' = oauth_consents d" "oauth_codes d' = oauth_codes d" "refresh_tokens d' = refresh_tokens d"
  shows "schema_ok d'"
  using assms identity_ok_cong [of d' d] oauth_ok_cong [of d' d] by (simp add: schema_ok_def account_ids_def)

lemma schema_ok_uploads: "refuse_active_media_uploads now b d = (Inr u, d') \<Longrightarrow> schema_ok d \<Longrightarrow> schema_ok d'"
  by (drule refuse_uploads_frame(1)) (erule schema_ok_cong, simp_all)

lemma schema_ok_set_status:
  assumes "\<And>r. acc_id (f r) = acc_id r \<and> acc_provider (f r) = acc_provider r \<and> acc_subject (f r) = acc_subject r"
    and "schema_ok d"
  shows "schema_ok (d\<lparr>accounts := update_rows P f (accounts d)\<rparr>)"
proof -
  let ?d = "d\<lparr>accounts := update_rows P f (accounts d)\<rparr>"
  have ids: "account_ids ?d = account_ids d" using assms(1) by (simp add: account_ids_def image_update_rows)
  have "oauth_ok ?d" using assms(2) ids oauth_ok_cong [of ?d d] by (simp add: schema_ok_def)
  moreover have "identity_ok ?d"
    using assms by (auto simp: schema_ok_def identity_ok_def ids map_update_rows)
  ultimately show ?thesis by (simp add: schema_ok_def)
qed

lemma schema_ok_revoke: "schema_ok d \<Longrightarrow> schema_ok (revoke_sessions a d)"
proof -
  assume ok: "schema_ok d"
  let ?e = "d\<lparr>accounts := update_rows (\<lambda>r. acc_id r = a) (\<lambda>r. r\<lparr>acc_status := Deleting\<rparr>) (accounts d)\<rparr>"
  have e: "schema_ok ?e" using ok by (intro schema_ok_set_status) simp_all
  have ids: "account_ids (revoke_sessions a d) = account_ids ?e"
    by (simp add: revoke_sessions_def account_ids_def)
  have "identity_ok (revoke_sessions a d)"
    using e identity_ok_cong [of "revoke_sessions a d" ?e] by (simp add: schema_ok_def revoke_sessions_def)
  moreover have "client_ids (revoke_sessions a d) = client_ids ?e"
    by (simp add: revoke_sessions_def client_ids_def)
  then have "oauth_ok (revoke_sessions a d)"
    using e unfolding schema_ok_def oauth_ok_def ids by (simp add: revoke_sessions_def)
  ultimately show ?thesis by (simp add: schema_ok_def)
qed

lemma schema_ok_bury: "schema_ok d \<Longrightarrow> schema_ok (bury a d)"
proof -
  assume ok: "schema_ok d"
  have ids: "account_ids (bury a d) = account_ids d - {a}"
    by (auto simp: bury_def Let_def delete_account_def account_ids_def)
  have cl: "client_ids (bury a d) = client_ids d" by (simp add: bury_def Let_def delete_account_def client_ids_def)
  have "identity_ok (bury a d)"
    using ok unfolding identity_ok_def schema_ok_def ids
    by (simp add: bury_def Let_def delete_account_def child_ok_cascade_a)
  moreover have "oauth_ok (bury a d)"
    using ok unfolding oauth_ok_def schema_ok_def ids cl
    by (simp add: bury_def Let_def delete_account_def child_ok_cascade_a)
  ultimately show ?thesis by (simp add: schema_ok_def)
qed

lemma schema_ok_revoke_apple: "schema_ok d \<Longrightarrow> schema_ok (snd (mark_apple_credential_revoked now a c d))"
  using oauth_ok_cong [of "snd (mark_apple_credential_revoked now a c d)" d]
  by (auto simp: mark_apple_credential_revoked_def Let_def schema_ok_def identity_ok_def account_ids_def
      intro!: child_ok_update)

lemma schema_ok_begin: "schema_ok d \<Longrightarrow> schema_ok (snd (begin_account_deletion now random a d))"
proof (cases rule: begin_guards [of now random a d])
  case (passed d1)
  assume "schema_ok d"
  then have d1: "schema_ok d1" using schema_ok_uploads [OF passed(1)] by simp
  then show ?thesis
    using \<open>schema_ok d\<close> schema_ok_only_operations schema_ok_revoke [OF d1]
    by (cases rule: begin_rest_cases [of now random a d d1]) (auto simp: passed(5))
qed simp

lemma schema_ok_finalize: "schema_ok d \<Longrightarrow> schema_ok (snd (finalize_account_deletion now a d))"
proof (cases rule: finalize_cases [of now a d])
  case (again p d1 d2)
  assume "schema_ok d"
  then show ?thesis using again schema_ok_uploads schema_ok_only_operations by fastforce
next
  case (buried p d1 d2)
  assume "schema_ok d"
  then show ?thesis using buried schema_ok_uploads schema_ok_bury schema_ok_only_operations by (metis snd_conv)
qed simp

lemma schema_ok_lifecycle_step: "schema_ok d \<Longrightarrow> schema_ok (lifecycle_step x d)"
proof (cases x)
  case (RequestDeletion now random a)
  assume ok: "schema_ok d"
  show ?thesis
    using ok by (cases rule: request_cases [of now random a d])
      (auto simp: RequestDeletion intro!: schema_ok_set_status intro: schema_ok_only_operations)
next
  case (UpdateDeletion now a reason retry hard)
  assume "schema_ok d"
  then show ?thesis using schema_ok_only_operations [OF update_status_frame] by (simp add: UpdateDeletion)
qed (simp_all add: schema_ok_begin schema_ok_finalize schema_ok_revoke_apple)

section \<open>Tombstones\<close>

lemma keys_fold_insert_ignore: "key ` set (fold (insert_ignore key) xs t) = key ` set xs \<union> key ` set t"
  by (induction xs arbitrary: t) (auto simp: set_insert_ignore)

lemma set_fold_insert_ignore: "set (fold (insert_ignore id) xs t) = set xs \<union> set t"
  using keys_fold_insert_ignore [of id xs t] by simp

lemma deleted_identities_bury:
  "set (deleted_identities (bury a d)) = set (deleted_identities d) \<union>
     (\<lambda>i. (idn_provider i, idn_subject i)) ` {i \<in> set (auth_identities d). idn_account i = a}"
  by (auto simp: bury_def Let_def delete_account_def set_fold_insert_ignore)

lemma auth_identities_bury:
  "set (auth_identities (bury a d)) = {i \<in> set (auth_identities d). idn_account i \<noteq> a}"
  by (simp add: bury_def Let_def delete_account_def)

text \<open>The identity tables over one lifecycle transaction: unchanged, or the burial of one account.\<close>

lemma identities_lifecycle:
  "(auth_identities (lifecycle_step x d) = auth_identities d \<and> deleted_identities (lifecycle_step x d) = deleted_identities d)
   \<or> (\<exists>a. set (auth_identities (lifecycle_step x d)) = {i \<in> set (auth_identities d). idn_account i \<noteq> a}
        \<and> set (deleted_identities (lifecycle_step x d)) = set (deleted_identities d) \<union>
            (\<lambda>i. (idn_provider i, idn_subject i)) ` {i \<in> set (auth_identities d). idn_account i = a})"
proof (cases x)
  case (RequestDeletion now random a)
  show ?thesis
    by (cases rule: request_cases [of now random a d]) (auto simp: RequestDeletion only_operations_def)
next
  case (BeginDeletion now random a)
  show ?thesis
  proof (cases rule: begin_guards [of now random a d])
    case (passed d1)
    from refuse_uploads_frame(1) [OF passed(1)] show ?thesis
      by (cases rule: begin_rest_cases [of now random a d d1])
        (auto simp: BeginDeletion passed(5) only_operations_def revoke_sessions_def)
  qed (simp add: BeginDeletion)
next
  case (UpdateDeletion now a reason retry hard)
  then show ?thesis using update_status_frame [of d now a reason retry hard] by (auto simp: only_operations_def)
next
  case (FinalizeDeletion now a)
  show ?thesis
  proof (cases rule: finalize_cases [of now a d])
    case (refused e)
    then show ?thesis by (simp add: FinalizeDeletion)
  next
    case (again p d1 d2)
    then show ?thesis
      using refuse_uploads_frame(1) [OF again(1)] by (auto simp: FinalizeDeletion only_operations_def)
  next
    case (buried p d1 d2)
    then have "auth_identities d2 = auth_identities (bury a d1)" "deleted_identities d2 = deleted_identities (bury a d1)"
      "auth_identities d1 = auth_identities d" "deleted_identities d1 = deleted_identities d"
      using refuse_uploads_frame(1) [OF buried(1)] by (auto simp: only_operations_def)
    then show ?thesis
      using buried(6) deleted_identities_bury [of a d1] auth_identities_bury [of a d1]
      by (auto simp: FinalizeDeletion)
  qed
next
  case (RevokeApple now a c)
  then show ?thesis by (simp add: mark_apple_credential_revoked_def Let_def)
qed

section \<open>Properties\<close>

text \<open>No row of the modelled tables belongs to the account.\<close>

definition no_trace :: "string \<Rightarrow> db \<Rightarrow> bool" where
  "no_trace a d \<longleftrightarrow>
     list_all (\<lambda>r. acc_id r \<noteq> a) (accounts d) \<and> list_all (\<lambda>r. idn_account r \<noteq> a) (auth_identities d)
   \<and> list_all (\<lambda>r. apl_account r \<noteq> a) (apple_credentials d) \<and> list_all (\<lambda>r. con_account r \<noteq> a) (oauth_consents d)
   \<and> list_all (\<lambda>r. cod_account r \<noteq> a) (oauth_codes d) \<and> list_all (\<lambda>r. ref_account r \<noteq> a) (refresh_tokens d)
   \<and> list_all (\<lambda>r. upl_account r \<noteq> a) (upload_intents d) \<and> list_all (\<lambda>r. fst r \<noteq> a) (billing_accounts d)
   \<and> list_all (\<lambda>r. wh_account r \<noteq> a) (webhook_subscriptions d) \<and> list_all (\<lambda>r. ep_account r \<noteq> a) (email_preferences d)
   \<and> list_all (\<lambda>r. pu_account r \<noteq> a) (push_installations d) \<and> list_all (\<lambda>r. us_account r \<noteq> a) (usage_daily d)
   \<and> list_all (\<lambda>r. ve_account r \<noteq> a) (vertex_events d) \<and> list_all (\<lambda>r. vc_account r \<noteq> a) (vertex_coverage d)
   \<and> list_all (\<lambda>r. dl_account r \<noteq> a) (ch_deliveries (email_channel d))
   \<and> list_all (\<lambda>r. dl_account r \<noteq> a) (ch_deliveries (webhook_channel d))
   \<and> list_all (\<lambda>r. dl_account r \<noteq> a) (ch_deliveries (push_channel d))
   \<and> list_all (\<lambda>r. epi_account r \<noteq> a) (episodes d) \<and> list_all (\<lambda>r. fst r \<noteq> a) (final_briefs d)
   \<and> list_all (\<lambda>r. rl_account r \<noteq> a) (recording_leases d) \<and> list_all (\<lambda>r. lr_account r \<noteq> a) (lease_requests d)
   \<and> list_all (\<lambda>r. ld_account r \<noteq> a) (lease_denials d) \<and> list_all (\<lambda>r. ba_account r \<noteq> a) (delivery_balances d)
   \<and> list_all (\<lambda>r. rv_account r \<noteq> a) (delivery_reservations d) \<and> list_all (\<lambda>r. fst r \<noteq> a) (offline_receipts d)
   \<and> list_all (\<lambda>r. bt_account r \<noteq> a) (batch_receipts d)"

lemma no_trace_bury: "no_trace a (bury a d)"
  by (simp add: no_trace_def bury_def Let_def delete_account_def drop_deliveries_def list_all_iff)

lemma no_trace_only_operations: "only_operations d d' \<Longrightarrow> no_trace a d' = no_trace a d"
  by (auto simp: only_operations_def no_trace_def)

lemma complete_operation_result:
  "complete_operation now a d = (Inr p, d') \<Longrightarrow> do_status p = ''physical_complete'' \<and> do_reason p = ''content_deleted''"
  by (auto simp: complete_operation_def Let_def require_operation_def load_operation_def
      deletion_operation_from_row_def lookup_row_update split: if_splits sum.splits option.splits dest!: lookup_row_key)

lemma finalize_result:
  assumes "finalize_account_deletion now a d = (Inr p, d')"
  shows "do_status p = ''physical_complete''"
proof -
  from assms obtain e where "complete_operation now a e = (Inr p, d')"
    by (auto simp: finalize_account_deletion_def Let_def simp del: exists_row_iff
        split: sum.splits option.splits if_splits prod.splits)
  from complete_operation_result [OF this] show ?thesis by blast
qed

lemma none_left_after_update:
  "(\<And>r. P r \<Longrightarrow> \<not> Q (f r)) \<Longrightarrow> \<not> exists_row (\<lambda>r. P r \<and> Q r) (update_rows P f t)"
  by (induction t) (auto simp: update_rows_def)

text \<open>Beginning a requested deletion closes every door: no consent, code or refresh token of the
  account survives, every webhook, push installation and e-mail preference of it is off, the account
  is \<open>Deleting\<close>, and nothing of it was in flight at a provider.\<close>

theorem begin_closes_every_door:
  assumes "begin_account_deletion now random a d = (Inr (Some p), d')"
    and "account_status_of d a = Some DeletionRequested"
  shows "account_status_of d' a = Some Deleting
     \<and> list_all (\<lambda>r. con_account r \<noteq> a) (oauth_consents d') \<and> list_all (\<lambda>r. cod_account r \<noteq> a) (oauth_codes d')
     \<and> list_all (\<lambda>r. ref_account r \<noteq> a) (refresh_tokens d')
     \<and> \<not> exists_row (\<lambda>r. wh_account r = a \<and> wh_enabled r) (webhook_subscriptions d')
     \<and> \<not> exists_row (\<lambda>r. pu_account r = a \<and> pu_enabled r) (push_installations d')
     \<and> \<not> exists_row (\<lambda>r. ep_account r = a \<and> (ep_enabled r \<or> ep_include_content r \<or> ep_consented r \<noteq> None)) (email_preferences d')
     \<and> \<not> exists_row (\<lambda>v. ve_account v = a \<and> ve_outcome v = Started) (vertex_events d')
     \<and> \<not> exists_row (\<lambda>u. upl_account u = a) (upload_intents d')"
proof (cases rule: begin_guards [of now random a d])
  case (refused e)
  with assms(1) show ?thesis by simp
next
  case (passed d1)
  note up = refuse_uploads_frame [OF passed(1)]
  from passed(3) have ve: "\<not> exists_row (\<lambda>v. ve_account v = a \<and> ve_outcome v = Started) (vertex_events d)"
    by (auto simp: refuse_started_vertex_invocations_def split: if_splits)
  from assms passed(5) obtain t where t: "d' = (revoke_sessions a d1)\<lparr>deletion_operations := t\<rparr>"
    by (cases rule: begin_rest_cases [of now random a d d1]) (auto simp: only_operations_def tombstoned_def)
  have "account_status_of d' a = Some Deleting"
    using life_revoke [of a a d1] life_uploads [OF passed(1), of a] assms(2)
    by (auto simp: t life_of_def account_status_of_def)
  moreover have "vertex_events d' = vertex_events d" "upload_intents d' = upload_intents d1"
    using up(1) by (simp_all add: t revoke_sessions_def)
  moreover have "list_all (\<lambda>r. con_account r \<noteq> a) (oauth_consents d')" "list_all (\<lambda>r. cod_account r \<noteq> a) (oauth_codes d')"
    "list_all (\<lambda>r. ref_account r \<noteq> a) (refresh_tokens d')"
    by (simp_all add: t revoke_sessions_def list_all_iff)
  moreover have "\<not> exists_row (\<lambda>r. wh_account r = a \<and> wh_enabled r) (webhook_subscriptions d')"
    "\<not> exists_row (\<lambda>r. pu_account r = a \<and> pu_enabled r) (push_installations d')"
    "\<not> exists_row (\<lambda>r. ep_account r = a \<and> (ep_enabled r \<or> ep_include_content r \<or> ep_consented r \<noteq> None)) (email_preferences d')"
    unfolding t revoke_sessions_def by (simp_all add: none_left_after_update del: exists_row_iff)
  ultimately show ?thesis using up(2) ve by (simp only: simp_thms)
qed

definition closing_db :: db where
  "closing_db = sample_db\<lparr>accounts := [\<lparr>acc_id = ''a'', acc_email = ''e'', acc_status = DeletionRequested,
     acc_provider = ''google'', acc_subject = ''s'', acc_created = 0\<rparr>],
     auth_identities := [\<lparr>idn_provider = ''google'', idn_subject = ''s'', idn_account = ''a'', idn_email = ''e''\<rparr>],
     billing_accounts := [(''a'', ''b'')]\<rparr>"

lemma closing_db_begins: "\<exists>p d'. begin_account_deletion 5 ''x'' ''a'' closing_db = (Inr (Some p), d')"
  by (simp add: begin_account_deletion_def refuse_reviewer_fixture_deletion_def refuse_open_provider_fences_def
      refuse_started_vertex_invocations_def refuse_active_media_uploads_def begin_operation_def
      ensure_deletion_operation_def require_operation_def load_operation_def deletion_operation_from_row_def
      closing_db_def sample_db_def empty_db_def account_status_of_def lookup_row_def tombstoned_def
      insert_ignore_def revoke_sessions_def update_rows_def DELETION_REQUEST_REASON_def DELETION_PENDING_REASON_def
      delete_rows_def)

theorem begin_closes_every_door_witness:
  "refresh_tokens closing_db \<noteq> []
   \<and> list_all (\<lambda>r. ref_account r \<noteq> ''a'') (refresh_tokens (snd (begin_account_deletion 5 ''x'' ''a'' closing_db)))"
proof -
  obtain p d' where "begin_account_deletion 5 ''x'' ''a'' closing_db = (Inr (Some p), d')" using closing_db_begins by blast
  moreover have "account_status_of closing_db ''a'' = Some DeletionRequested"
    by (simp add: closing_db_def account_status_of_def lookup_row_def)
  ultimately show ?thesis
    using begin_closes_every_door [of 5 "''x''" "''a''" closing_db p d'] by (simp add: closing_db_def sample_db_def)
qed

text \<open>C21. A finalised deletion erases the account and leaves exactly the tombstones: the operation is
  physically complete, no modelled table keeps a row of the account, its identifier and every identity
  it owned are tombstoned, and each of its billing accounts is queued to be detached.\<close>

theorem finalize_erases_and_buries:
  assumes "finalize_account_deletion now a d = (Inr p, d')" and "account_status_of d a = Some Deleting"
  shows "do_status p = ''physical_complete'' \<and> no_trace a d' \<and> a \<in> set (deleted_accounts d')
     \<and> (\<forall>i\<in>set (auth_identities d). idn_account i = a \<longrightarrow> (idn_provider i, idn_subject i) \<in> set (deleted_identities d'))
     \<and> (\<forall>b. (a, b) \<in> set (billing_accounts d) \<longrightarrow> b \<in> dt_id ` set (billing_detach_outbox d'))"
proof (cases rule: finalize_cases [of now a d])
  case (buried q d1 d2)
  with assms have d2: "d2 = d'" by simp
  from buried(5) obtain t where t: "d' = (bury a d1)\<lparr>deletion_operations := t\<rparr>"
    by (auto simp: only_operations_def d2)
  have up: "auth_identities d1 = auth_identities d" "billing_accounts d1 = billing_accounts d"
    using refuse_uploads_frame(1) [OF buried(1)] by simp_all
  have "no_trace a d'" using no_trace_only_operations [OF buried(5)] no_trace_bury d2 by simp
  moreover have "a \<in> set (deleted_accounts d')"
    by (auto simp: t bury_def Let_def delete_account_def set_insert_ignore)
  moreover have "\<forall>b. (a, b) \<in> set (billing_accounts d) \<longrightarrow> b \<in> dt_id ` set (billing_detach_outbox d')"
    by (force simp: t bury_def Let_def delete_account_def keys_fold_insert_ignore up)
  moreover have "\<forall>i\<in>set (auth_identities d). idn_account i = a \<longrightarrow> (idn_provider i, idn_subject i) \<in> set (deleted_identities d')"
    using deleted_identities_bury [of a d1] by (auto simp: t up)
  ultimately show ?thesis using finalize_result [OF assms(1)] by blast
qed (use assms in simp_all)

definition buriable_db :: db where
  "buriable_db = closing_db\<lparr>accounts := [\<lparr>acc_id = ''a'', acc_email = ''e'', acc_status = Deleting,
     acc_provider = ''google'', acc_subject = ''s'', acc_created = 0\<rparr>],
     deletion_operations := [\<lparr>del_account = ''a'', del_operation = ''del_1'', del_status = ''pending'',
       del_reason = ''content_deletion_in_progress'', del_retry = Some 30, del_hard = None, del_updated = 0\<rparr>]\<rparr>"

theorem finalize_erases_and_buries_witness:
  "no_trace ''a'' (snd (finalize_account_deletion 9 ''a'' buriable_db))
   \<and> (''google'', ''s'') \<in> set (deleted_identities (snd (finalize_account_deletion 9 ''a'' buriable_db)))"
proof -
  obtain p d' where f: "finalize_account_deletion 9 ''a'' buriable_db = (Inr p, d')"
    by (simp add: finalize_account_deletion_def refuse_open_provider_fences_def refuse_active_media_uploads_def
        complete_operation_def bury_def delete_account_def require_operation_def load_operation_def
        deletion_operation_from_row_def buriable_db_def closing_db_def sample_db_def empty_db_def account_status_of_def
        lookup_row_def insert_ignore_def update_rows_def delete_rows_def count_rows_def)
  moreover have "account_status_of buriable_db ''a'' = Some Deleting"
    by (simp add: buriable_db_def account_status_of_def lookup_row_def)
  ultimately show ?thesis
    using finalize_erases_and_buries [of 9 "''a''" buriable_db p d']
    by (simp add: buriable_db_def closing_db_def)
qed


definition fenced_channel :: "('x, push_generation) channel" where
  "fenced_channel = empty_channel\<lparr>ch_fences :=
     [\<lparr>fen_account = ''a'', fen_item = ''i'', fen_claim = ''c'', fen_expires = 5, fen_request = 1\<rparr>]\<rparr>"


end
