(* ===== verification/Service.thy ===== *)
theory Service
  imports Lifecycle_Store
begin

text \<open>
  The account-facing repositories together. A fleet history is any interleaving of identity, OAuth
  and lifecycle transactions; the locales of the prelude are interpreted on their union.
\<close>

datatype service_op = IdentityOp identity_op | OAuthOp oauth_op | LifecycleOp lifecycle_op

fun service_step :: "env \<Rightarrow> service_op \<Rightarrow> db \<Rightarrow> db" where
  "service_step v (IdentityOp x) d = identity_step v x d"
| "service_step v (OAuthOp x) d = oauth_step x d"
| "service_step v (LifecycleOp x) d = lifecycle_step x d"

lemma schema_ok_service_step: "schema_ok d \<Longrightarrow> schema_ok (service_step v x d)"
proof (cases x)
  case (OAuthOp y)
  assume "schema_ok d"
  then show ?thesis by (simp add: OAuthOp schema_ok_def oauth_ok_step identity_ok_step)
qed (simp_all add: schema_ok_identity_step schema_ok_lifecycle_step)

lemma schema_ok_run: "schema_ok d \<Longrightarrow> schema_ok (run_ops (service_step v) xs d)"
  by (rule run_ops_invariant [where P = schema_ok]) (rule schema_ok_service_step)

lemma life_refine_service: "life_step (life_of a d) (life_of a (service_step v x d))"
  by (cases x) (simp_all add: life_refine_identity life_refine_oauth life_refine_lifecycle)

section \<open>Closing accounts stay closed\<close>

lemma closing_run: "closing (life_of a d) \<Longrightarrow> closing (life_of a (run_ops (service_step v) xs d))"
  by (rule run_ops_invariant [where P = "\<lambda>d. closing (life_of a d)"])
    (auto intro: closing_step [OF life_refine_service])

lemma life_run: "life_step\<^sup>*\<^sup>* (life_of a d) (life_of a (run_ops (service_step v) xs d))"
proof (induction xs arbitrary: d)
  case (Cons x xs)
  have "life_step\<^sup>*\<^sup>* (life_of a d) (life_of a (service_step v x d))"
    using life_refine_service by (rule r_into_rtranclp)
  also have "life_step\<^sup>*\<^sup>* (life_of a (service_step v x d)) (life_of a (run_ops (service_step v) (x # xs) d))"
    using Cons.IH by simp
  finally show ?case .
qed simp

lemma not_active_when_closing: "schema_ok d \<Longrightarrow> closing (life_of a d) \<Longrightarrow> \<not> account_active d a"
  using closing_not_active [of a d] by (auto simp: schema_ok_def identity_ok_def)

text \<open>The transactions that give a caller a session or a credential of the account.\<close>

fun admits :: "env \<Rightarrow> string \<Rightarrow> service_op \<Rightarrow> db \<Rightarrow> bool" where
  "admits v a (OAuthOp (StoreConsent now c)) d \<longleftrightarrow> pc_account c = a \<and> fst (store_pending_consent now c d) = Inr True"
| "admits v a (OAuthOp (ApproveConsent now c)) d \<longleftrightarrow> ca_account c = a \<and> fst (approve_consent now c d) = Inr True"
| "admits v a (OAuthOp (StoreCode now c)) d \<longleftrightarrow>
     dc_account c = a \<and> fst (store_direct_authorization_code now c d) = Inr True"
| "admits v a (OAuthOp (ExchangeCode now e)) d \<longleftrightarrow>
     ce_account e = a \<and> fst (exchange_authorization_code now e d) = Inr True"
| "admits v a (OAuthOp (RotateRefresh now t)) d \<longleftrightarrow> fst (rotate_refresh_token now t d) = Inr (Some a)"
| "admits v a (OAuthOp (CreateNative now s)) d \<longleftrightarrow>
     ns_account s = a \<and> fst (create_native_session_refresh now s d) = Inr ()"
| "admits v a (IdentityOp (SignInSubject now s e n)) d \<longleftrightarrow>
     (case fst (upsert_subject_account v now s e n d) of Inr u \<Rightarrow> ac_id (up_account u) = a | Inl _ \<Rightarrow> False)"
| "admits v a (IdentityOp (SignInApple now g n)) d \<longleftrightarrow>
     (case fst (upsert_apple_account v now g n d) of Inr u \<Rightarrow> ac_id (up_account u) = a | Inl _ \<Rightarrow> False)"
| "admits v a (IdentityOp (LinkApple b g)) d \<longleftrightarrow> b = a \<and> fst (link_apple_identity v b g d) = Inr ()"
| "admits v a _ d \<longleftrightarrow> False"

text \<open>Whoever is admitted is active, or is an account that this very sign-in creates.\<close>

lemma active_of_status: "account_status_of d a = Some Active \<Longrightarrow> account_active d a"
  by (auto simp: account_status_of_def account_active_iff dest!: lookup_row_Some)

lemma active_of_identity: "account_of_identity p s d = Some r \<Longrightarrow> acc_status r = Active \<Longrightarrow> account_active d (acc_id r)"
  by (auto simp: account_of_identity_def account_active_iff split: option.splits dest!: lookup_row_Some)

lemma link_active: "fst (link_apple_identity v a g d) = Inr () \<Longrightarrow> account_active d a"
  by (rule active_of_status, rule ccontr) (auto simp: link_apple_identity_def Let_def)

lemma created_is_fresh:
  assumes "create_account now i e p s n d = (Inr k, d')" "i \<notin> set (deleted_accounts d)"
  shows "\<not> closing (life_of i d)"
proof -
  from assms(1) have "i \<notin> account_ids d" by (rule create_account_Inr)
  then have "lookup_row acc_id i (accounts d) = None" by (simp add: lookup_row_None account_ids_def)
  with assms(2) show ?thesis by (simp add: closing_def life_of_def account_status_of_def)
qed

lemma admits_oauth_active: "admits v a (OAuthOp x) d \<Longrightarrow> account_active d a"
  by (cases x) (auto simp: store_pending_consent_def store_direct_authorization_code_def
      create_native_session_refresh_def Let_def consent_matches_def code_matches_def refresh_matches_def
      split: sum.splits if_splits option.splits
      dest!: approve_consent_True(1) exchange_True(1) elim!: rotate_Some)

lemma admits_open:
  assumes "schema_ok d" "admits v a x d"
  shows "\<not> closing (life_of a d)"
proof (cases x)
  case (OAuthOp y)
  with assms admits_oauth_active not_active_when_closing show ?thesis by blast
next
  case (IdentityOp y)
  show ?thesis
  proof (cases y)
    case (LinkApple b g)
    with IdentityOp assms(2) have "account_active d a" using link_active by auto
    with assms(1) show ?thesis using not_active_when_closing by blast
  qed (use assms IdentityOp not_active_when_closing [OF assms(1)] in
      \<open>auto simp: upsert_subject_account_def upsert_apple_account_def Let_def deleted_account_or_identity_def
        split: option.splits prod.splits sum.splits if_splits dest: active_of_identity created_is_fresh\<close>)
qed (use assms in simp)

lemma no_admission_when_closing:
  assumes "schema_ok d" "closing (life_of a d)"
  shows "hits (service_step v) (admits v a) xs d = 0"
  using assms
proof (induction xs arbitrary: d)
  case (Cons x xs)
  then show ?case
    using admits_open schema_ok_service_step closing_step [OF life_refine_service] by auto
qed simp

section \<open>Buried identities and accounts never come back\<close>

definition buried_identity :: "string \<times> string \<Rightarrow> db \<Rightarrow> bool" where
  "buried_identity k d \<longleftrightarrow> k \<in> set (deleted_identities d)"

definition linked_identity :: "string \<times> string \<Rightarrow> db \<Rightarrow> bool" where
  "linked_identity k d \<longleftrightarrow> has_key (\<lambda>i. (idn_provider i, idn_subject i)) k (auth_identities d)"

lemma deleted_identities_identity [simp]: "deleted_identities (identity_step v x d) = deleted_identities d"
proof (cases x)
  case (LinkApple a g)
  then show ?thesis by (auto simp: link_apple_identity_def Let_def insert_identity_def touch_identity_def
      upsert_apple_credential_def split: option.split)
qed (auto simp: upsert_subject_account_def upsert_apple_account_def Let_def touch_identity_def set_account_email_def
      upsert_apple_credential_def split: option.split prod.split sum.split elim: create_account_Inr)

lemma linked_frame [simp]:
  "linked_identity k (touch_identity p s e d) = linked_identity k d"
  "linked_identity k (set_account_email a e d) = linked_identity k d"
  "linked_identity k (upsert_apple_credential a c t d) = linked_identity k d"
  by (simp_all add: linked_identity_def touch_identity_def set_account_email_def upsert_apple_credential_def
      image_update_rows)

lemma linked_create:
  "create_account now i e p s n d = (Inr j, d') \<Longrightarrow> linked_identity k d' \<Longrightarrow> linked_identity k d \<or> k = (p, s)"
  by (erule create_account_Inr) (auto simp: linked_identity_def)

lemma linked_identity_step:
  assumes "linked_identity k (identity_step v x d)" "\<not> linked_identity k d"
  shows "\<not> buried_identity k d"
proof (cases x)
  case (LinkApple a g)
  with assms show ?thesis
    by (auto simp: link_apple_identity_def Let_def buried_identity_def insert_identity_def linked_identity_def
        split: option.splits if_splits simp del: has_key_iff)
      (auto simp: touch_identity_def upsert_apple_credential_def image_update_rows)
qed (use assms in \<open>auto simp: upsert_subject_account_def upsert_apple_account_def Let_def
      deleted_account_or_identity_def buried_identity_def split: option.splits prod.splits sum.splits if_splits
      dest: linked_create\<close>)

lemma linked_lifecycle_step: "linked_identity k (lifecycle_step x d) \<Longrightarrow> linked_identity k d"
  using identities_lifecycle [of x d] by (auto simp: linked_identity_def)

lemma buried_lifecycle_step: "buried_identity k d \<Longrightarrow> buried_identity k (lifecycle_step x d)"
  using identities_lifecycle [of x d] by (auto simp: buried_identity_def)

interpretation identities: tombstone "service_step v" buried_identity linked_identity
  for v
proof
  fix k d x
  assume b: "buried_identity k d"
  show "buried_identity k (service_step v x d)"
    using b buried_lifecycle_step by (cases x) (auto simp: buried_identity_def)
  show "linked_identity k (service_step v x d) \<Longrightarrow> linked_identity k d"
  proof (cases x)
    case (OAuthOp y)
    then show "linked_identity k (service_step v x d) \<Longrightarrow> linked_identity k d" by (simp add: linked_identity_def)
  next
    case (IdentityOp y)
    then show "linked_identity k (service_step v x d) \<Longrightarrow> linked_identity k d"
      using b linked_identity_step [of k v y d] by auto
  qed (simp add: linked_lifecycle_step)
qed

text \<open>Reviewer fixtures: no history touches the account of one.\<close>

definition fixture_safe :: "string \<Rightarrow> db \<Rightarrow> bool" where
  "fixture_safe a d \<longleftrightarrow> a \<in> set (reviewer_fixtures d) \<and> account_status_of d a = Some Active"

lemma reviewer_fixtures_frame [simp]:
  "reviewer_fixtures (oauth_step x d) = reviewer_fixtures d"
  "reviewer_fixtures (identity_step v y d) = reviewer_fixtures d"
proof -
  show "reviewer_fixtures (oauth_step x d) = reviewer_fixtures d"
    by (cases x; simp add: oauth_defs split: option.split sum.split)
  show "reviewer_fixtures (identity_step v y d) = reviewer_fixtures d"
  proof (cases y)
    case (LinkApple a g)
    then show ?thesis by (auto simp: link_apple_identity_def Let_def insert_identity_def touch_identity_def
        upsert_apple_credential_def split: option.split)
  qed (auto simp: upsert_subject_account_def upsert_apple_account_def Let_def touch_identity_def set_account_email_def
        upsert_apple_credential_def split: option.split prod.split sum.split elim: create_account_Inr)
qed

lemma fixture_request:
  "fixture_safe a d \<Longrightarrow> fixture_safe a (snd (request_account_deletion now random b d))"
proof (cases "a = b")
  case True
  assume "fixture_safe a d"
  with True show ?thesis
    by (simp add: fixture_safe_def request_account_deletion_def refuse_reviewer_fixture_deletion_def)
next
  case False
  assume f: "fixture_safe a d"
  show ?thesis
  proof (cases rule: request_cases [of now random b d])
    case (requested p d1)
    from f requested(1) have d1: "fixture_safe a d1"
      by (auto simp: fixture_safe_def only_operations_def account_status_of_def)
    with life_request_other [OF False, of d1] show ?thesis
      by (simp add: requested(3) fixture_safe_def life_of_def)
  next
    case (repeated p d1)
    with f show ?thesis by (auto simp: fixture_safe_def only_operations_def account_status_of_def)
  qed (use f in simp)
qed

lemma fixture_begin:
  "fixture_safe a d \<Longrightarrow> fixture_safe a (snd (begin_account_deletion now random b d))"
proof (cases rule: begin_guards [of now random b d])
  case (passed d1)
  assume f: "fixture_safe a d"
  with passed(4) have "a \<noteq> b" by (auto simp: fixture_safe_def)
  from f refuse_uploads_frame(1) [OF passed(1)] have d1: "fixture_safe a d1"
    by (simp add: fixture_safe_def account_status_of_def)
  with life_revoke [of a b d1] \<open>a \<noteq> b\<close> have "fixture_safe a (revoke_sessions b d1)"
    by (simp add: fixture_safe_def life_of_def revoke_sessions_def)
  then show ?thesis
    using f d1 by (cases rule: begin_rest_cases [of now random b d d1])
      (auto simp: passed(5) fixture_safe_def only_operations_def account_status_of_def)
qed simp

lemma fixture_finalize:
  "fixture_safe a d \<Longrightarrow> fixture_safe a (snd (finalize_account_deletion now b d))"
proof (cases rule: finalize_cases [of now b d])
  case (again p d1 d2)
  assume "fixture_safe a d"
  with again refuse_uploads_frame(1) [OF again(1)] show ?thesis
    by (auto simp: fixture_safe_def only_operations_def account_status_of_def)
next
  case (buried p d1 d2)
  assume f: "fixture_safe a d"
  with buried(3) have ab: "a \<noteq> b" by (auto simp: fixture_safe_def)
  from f refuse_uploads_frame(1) [OF buried(1)] have "fixture_safe a d1"
    by (simp add: fixture_safe_def account_status_of_def)
  with ab have "fixture_safe a (bury b d1)"
    using life_bury [of a b d1] by (simp add: fixture_safe_def life_of_def bury_def Let_def delete_account_def)
  with buried(5,6) show ?thesis by (auto simp: fixture_safe_def only_operations_def account_status_of_def)
qed simp

lemma status_kept_create:
  "create_account now i e p s n d = (Inr k, d') \<Longrightarrow> account_status_of d a = Some st \<Longrightarrow> account_status_of d' a = Some st"
  by (erule create_account_Inr) (auto simp: account_status_of_def lookup_row_append)

lemma status_kept_identity:
  assumes "account_status_of d a = Some st"
  shows "account_status_of (identity_step v x d) a = Some st"
proof -
  have frame: "account_status_of (touch_identity p s e d) a = account_status_of d a"
    "account_status_of (upsert_apple_credential b c t d) a = account_status_of d a"
    "account_status_of (set_account_email b e d) a = account_status_of d a" for p s e b c t d
    using life_frame [of a] by (simp_all add: life_of_def)
  show ?thesis
  proof (cases x)
    case (LinkApple b g)
    with assms show ?thesis
      by (auto simp: link_apple_identity_def Let_def insert_identity_def frame split: option.split)
        (simp_all add: account_status_of_def)
  qed (use assms in \<open>auto simp: upsert_subject_account_def upsert_apple_account_def Let_def frame status_kept_create
      split: option.split prod.split sum.split\<close>)
qed

lemma fixture_safe_step: "fixture_safe a d \<Longrightarrow> fixture_safe a (service_step v x d)"
proof (cases x)
  case (IdentityOp y)
  assume f: "fixture_safe a d"
  then show ?thesis by (simp add: IdentityOp fixture_safe_def status_kept_identity)
next
  case (OAuthOp y)
  assume "fixture_safe a d"
  then show ?thesis by (simp add: OAuthOp fixture_safe_def account_status_of_def)
next
  case (LifecycleOp y)
  assume f: "fixture_safe a d"
  then have "fixture_safe a (lifecycle_step y d)"
  proof (cases y)
    case (UpdateDeletion now b reason retry hard)
    with f update_status_frame [of d now b reason retry hard] show ?thesis
      by (auto simp: only_operations_def fixture_safe_def account_status_of_def)
  next
    case (RevokeApple now b c)
    with f show ?thesis
      by (simp add: fixture_safe_def account_status_of_def mark_apple_credential_revoked_def Let_def)
  qed (simp_all add: fixture_request fixture_begin fixture_finalize)
  then show ?thesis by (simp add: LifecycleOp)
qed

section \<open>Entering the closing and the buried states\<close>

lemma request_closes:
  assumes "fst (request_account_deletion now random a d) = Inr (Some p)" "account_status_of d a \<noteq> None"
  shows "closing (life_of a (snd (request_account_deletion now random a d)))"
proof (cases "account_status_of d a = Some Active")
  case True
  from assms(1) True obtain q d1 where
    e: "ensure_deletion_operation now random a DELETION_REQUEST_REASON d = (Inr q, d1)"
    and r: "snd (request_account_deletion now random a d) = d1\<lparr>accounts := update_rows
       (\<lambda>r. acc_id r = a \<and> acc_status r = Active) (\<lambda>r. r\<lparr>acc_status := DeletionRequested\<rparr>) (accounts d1)\<rparr>"
    by (auto simp: request_account_deletion_def Let_def tombstoned_def complete_but_present_def
        split: sum.splits prod.splits if_splits)
  from True ensure_operation_frame [OF e] obtain x where
    "lookup_row acc_id a (accounts d1) = Some x" "acc_status x = Active"
    by (auto simp: only_operations_def account_status_of_def)
  with lookup_row_key [OF this(1)] show ?thesis
    by (simp add: r closing_def life_of_def account_status_of_def lookup_row_update)
next
  case False
  with assms(2) have "closing (life_of a d)" by (auto simp: closing_def life_of_def)
  then show ?thesis
    using closing_step [OF life_refine_lifecycle, of a d "RequestDeletion now random a"] by simp
qed

lemma burial:
  assumes "finalize_account_deletion now a d = (Inr p, d')" "account_status_of d a = Some Deleting"
    "i \<in> set (auth_identities d)" "idn_account i = a" "identity_ok d"
  shows "buried_identity (idn_provider i, idn_subject i) d'" "\<not> linked_identity (idn_provider i, idn_subject i) d'"
proof -
  let ?k = "\<lambda>i. (idn_provider i, idn_subject i)"
  from assms(1,2) obtain d1 t where up: "refuse_active_media_uploads now a d = (Inr (), d1)"
    and t: "d' = (bury a d1)\<lparr>deletion_operations := t\<rparr>"
    by (cases rule: finalize_cases [of now a d]) (auto simp: only_operations_def)
  have d1: "auth_identities d1 = auth_identities d" using refuse_uploads_frame(1) [OF up] by simp
  show "buried_identity (?k i) d'"
    using deleted_identities_bury [of a d1] assms(3,4) by (auto simp: buried_identity_def t d1)
  have "idn_account j = a" if "j \<in> set (auth_identities d)" "?k j = ?k i" for j
  proof -
    have "j = i" using assms(3,5) that by (intro key_unique [of ?k "auth_identities d"]) (auto simp: identity_ok_def child_ok_def)
    with assms(4) show ?thesis by simp
  qed
  then show "\<not> linked_identity (?k i) d'"
    using auth_identities_bury [of a d1] by (auto simp: linked_identity_def t d1)
qed

end
