(* ===== verification/Model_Usage.thy ===== *)
theory Model_Usage
  imports Schema Tokens Isotime "HOL-Library.List_Lexorder" "HOL-Library.Char_ord"
begin

text \<open>
  The Vertex invocation ledger and its billing outbox: \<^verbatim>\<open>persistence/postgres/model_usage.rs\<close>, the
  digests of \<^verbatim>\<open>persistence/model_usage.rs\<close> and the response normalisation of
  \<^verbatim>\<open>cp/model_usage.rs\<close>. \<open>sha\<close> is an argument, as is \<open>random\<close>, the random claim id of a
  transaction; \<^verbatim>\<open>u64\<close> values are naturals with the saturation of the code written out. The
  session's time zone is UTC. Rows locked by another transaction (\<^verbatim>\<open>SKIP LOCKED\<close>) do not occur in
  a sequence of transactions.
\<close>

section \<open>Requests and responses\<close>

datatype vertex_operation =
    EpisodeSummary | EpisodeSummaryRepair | EpisodeReconciliation | FinalEpisodeAnalysis
  | AudioWindow | ScreenStoryboard

fun operation_str :: "vertex_operation \<Rightarrow> string" where
  "operation_str EpisodeSummary = ''episode_summarization''"
| "operation_str EpisodeSummaryRepair = ''episode_summarization''"
| "operation_str EpisodeReconciliation = ''episode_reconciliation''"
| "operation_str FinalEpisodeAnalysis = ''episode_finalization''"
| "operation_str AudioWindow = ''audio_understanding''"
| "operation_str ScreenStoryboard = ''screen_understanding''"

text \<open>The derived \<^verbatim>\<open>Debug\<close> form, which the fingerprint commits to.\<close>

fun operation_debug :: "vertex_operation \<Rightarrow> string" where
  "operation_debug EpisodeSummary = ''EpisodeSummary''"
| "operation_debug EpisodeSummaryRepair = ''EpisodeSummaryRepair''"
| "operation_debug EpisodeReconciliation = ''EpisodeReconciliation''"
| "operation_debug FinalEpisodeAnalysis = ''FinalEpisodeAnalysis''"
| "operation_debug AudioWindow = ''AudioWindow''"
| "operation_debug ScreenStoryboard = ''ScreenStoryboard''"

record vertex_usage =
  vu_prompt_details :: bool
  vu_cache_details :: bool
  vu_prompt :: "nat option"
  vu_input_text :: "nat option"
  vu_input_audio :: "nat option"
  vu_input_image :: "nat option"
  vu_cached :: "nat option"
  vu_cached_text :: "nat option"
  vu_cached_audio :: "nat option"
  vu_cached_image :: "nat option"
  vu_output :: "nat option"
  vu_tool :: "nat option"
  vu_thought :: "nat option"
  vu_total :: "nat option"

definition default_usage :: vertex_usage where
  "default_usage = \<lparr>vu_prompt_details = False, vu_cache_details = False, vu_prompt = None,
     vu_input_text = None, vu_input_audio = None, vu_input_image = None, vu_cached = None,
     vu_cached_text = None, vu_cached_audio = None, vu_cached_image = None, vu_output = None,
     vu_tool = None, vu_thought = None, vu_total = None\<rparr>"

record vertex_metadata =
  vm_usage :: "vertex_usage option"
  vm_model_version :: "string option"
  vm_traffic_type :: "string option"

section \<open>Normalisation of a response\<close>

definition u64_max :: nat where "u64_max = 2 ^ 64 - 1"

definition sat_add_u64 :: "nat \<Rightarrow> nat \<Rightarrow> nat" where
  "sat_add_u64 a b = min (a + b) u64_max"

definition or_zero :: "nat option \<Rightarrow> nat" where
  "or_zero v = (case v of Some n \<Rightarrow> n | None \<Rightarrow> 0)"

definition vertex_model_name_is_billing_safe :: "string \<Rightarrow> bool" where
  "vertex_model_name_is_billing_safe s \<longleftrightarrow>
     1 \<le> length s \<and> length s \<le> 128
     \<and> list_all (\<lambda>b. is_ascii_alphanumeric b \<or> b \<in> set ''._:-'') s"

definition normalized_usage :: "vertex_metadata \<Rightarrow> vertex_usage option" where
  "normalized_usage m =
     (case vm_usage m of None \<Rightarrow> None | Some u \<Rightarrow>
      (case (vu_prompt u, vu_total u, vu_output u) of
         (Some prompt, Some tot, Some out) \<Rightarrow>
           if prompt = 0 \<or> tot = 0 \<or> or_zero (vu_tool u) \<noteq> 0 \<or> \<not> vu_prompt_details u then None
           else
             let text = or_zero (vu_input_text u); audio = or_zero (vu_input_audio u);
                 image = or_zero (vu_input_image u); cached = or_zero (vu_cached u);
                 ct = or_zero (vu_cached_text u); ca = or_zero (vu_cached_audio u);
                 ci = or_zero (vu_cached_image u);
                 result = (\<lambda>t a i. Some \<lparr>vu_prompt_details = True, vu_cache_details = vu_cache_details u,
                    vu_prompt = Some prompt, vu_input_text = Some text, vu_input_audio = Some audio,
                    vu_input_image = Some image, vu_cached = Some cached, vu_cached_text = t,
                    vu_cached_audio = a, vu_cached_image = i, vu_output = Some out,
                    vu_tool = vu_tool u, vu_thought = Some (or_zero (vu_thought u)),
                    vu_total = Some tot\<rparr>)
             in if vu_cache_details u then
                  if sat_add_u64 (sat_add_u64 ct ca) ci \<noteq> cached \<or> ct > text \<or> ca > audio \<or> ci > image
                  then None else result (Some ct) (Some ca) (Some ci)
                else result None None None
       | _ \<Rightarrow> None))"

definition normalized_billable_response :: "vertex_metadata \<Rightarrow> string option \<times> vertex_usage option" where
  "normalized_billable_response m =
     (let model = (case vm_model_version m of
                     Some v \<Rightarrow> if vertex_model_name_is_billing_safe v then Some v else None
                   | None \<Rightarrow> None)
      in (model, case model of Some _ \<Rightarrow> normalized_usage m | None \<Rightarrow> None))"

definition normalized_traffic_type :: "string option \<Rightarrow> string" where
  "normalized_traffic_type v =
     (if v = Some ''PROVISIONED_THROUGHPUT'' \<or> v = Some ''provisioned_throughput'' then ''provisioned_throughput''
      else if v = Some ''BATCH'' \<or> v = Some ''batch'' then ''batch''
      else ''on_demand'')"

definition to_i64 :: "nat option \<Rightarrow> int option" where
  "to_i64 v = (case v of Some n \<Rightarrow> if int n \<le> i64_max then Some (int n) else None | None \<Rightarrow> None)"

definition usage_tokens :: "vertex_usage \<Rightarrow> token_counts" where
  "usage_tokens u = \<lparr>tk_prompt = to_i64 (vu_prompt u), tk_input_text = to_i64 (vu_input_text u),
     tk_input_audio = to_i64 (vu_input_audio u), tk_input_image = to_i64 (vu_input_image u),
     tk_cached = to_i64 (vu_cached u), tk_cached_text = to_i64 (vu_cached_text u),
     tk_cached_audio = to_i64 (vu_cached_audio u), tk_cached_image = to_i64 (vu_cached_image u),
     tk_output = to_i64 (vu_output u), tk_thought = to_i64 (vu_thought u), tk_total = to_i64 (vu_total u)\<rparr>"

section \<open>Identities\<close>

definition vertex_attempt_event_id :: "(bytes \<Rightarrow> bytes) \<Rightarrow> bytes \<Rightarrow> string" where
  "vertex_attempt_event_id sha attempt_identity =
     ''vtx_'' @ hex_bytes (sha (as_bytes ''kioku.vertex-invocation-attempt.v1'' @ [0] @ attempt_identity))"

definition vertex_invocation_fingerprint ::
  "(bytes \<Rightarrow> bytes) \<Rightarrow> string \<Rightarrow> vertex_operation \<Rightarrow> string \<Rightarrow> string \<Rightarrow> bytes \<Rightarrow> bytes" where
  "vertex_invocation_fingerprint sha account_id operation requested_model location caller_anchor =
     sha (as_bytes ''kioku.vertex-invocation.v1'' @ [0] @ as_bytes account_id @ [0]
       @ as_bytes (operation_debug operation) @ [0] @ as_bytes requested_model @ [0]
       @ as_bytes location @ [0] @ caller_anchor)"

definition event_id_of :: "bytes \<Rightarrow> string" where
  "event_id_of fingerprint = ''vtx_'' @ hex_bytes fingerprint"

text \<open>\<^verbatim>\<open>chars().take(n)\<close> on UTF-8 bytes: up to \<open>n\<close> leading bytes, each with its continuation bytes.\<close>

fun take_chars :: "nat \<Rightarrow> string \<Rightarrow> string" where
  "take_chars n [] = []"
| "take_chars n (c # cs) =
     (if 128 \<le> byte c \<and> byte c < 192 then c # take_chars n cs
      else case n of 0 \<Rightarrow> [] | Suc m \<Rightarrow> c # take_chars m cs)"

section \<open>Coverage\<close>

definition year_month :: "timestamp \<Rightarrow> int \<times> int" where
  "year_month now = (case civil_from_days (day_of now) of (y, m, _) \<Rightarrow> (y, m))"

definition period_of :: "timestamp \<Rightarrow> string" where
  "period_of now = (case year_month now of (y, m) \<Rightarrow> fmt_int 4 y @ ''-'' @ fmt_int 2 m)"

definition month_start :: "timestamp \<Rightarrow> timestamp" where
  "month_start now = (case year_month now of (y, m) \<Rightarrow> seconds (days_from_civil y m 1 * 86400))"

definition pending_count :: "timestamp \<Rightarrow> string \<Rightarrow> db \<Rightarrow> int" where
  "pending_count now a d =
     count_rows (\<lambda>v. ve_account v = a \<and> ve_delivery v = Pending \<and> ve_observed v \<ge> month_start now) (vertex_events d)"

definition coverage_key :: "coverage_row \<Rightarrow> string \<times> string" where
  "coverage_key r = (vc_account r, vc_period r)"

definition new_coverage :: "timestamp \<Rightarrow> string \<Rightarrow> db \<Rightarrow> coverage_row" where
  "new_coverage now a d = \<lparr>vc_account = a, vc_period = period_of now, vc_sequence = 1,
     vc_pending = pending_count now a d, vc_lost = 0, vc_delivery = Pending, vc_claim = None, vc_updated = now\<rparr>"

definition has_account :: "string \<Rightarrow> db \<Rightarrow> bool" where
  "has_account a d \<longleftrightarrow> has_key acc_id a (accounts d)"

definition refresh_coverage :: "timestamp \<Rightarrow> string \<Rightarrow> db \<Rightarrow> unit tx" where
  "refresh_coverage now a d =
     (let r = new_coverage now a d
      in if \<not> has_key coverage_key (coverage_key r) (vertex_coverage d) \<and> \<not> has_account a d
         then (Inl (Postgres ''foreign_key_violation''), d)
         else (Inr (), d\<lparr>vertex_coverage := upsert_row coverage_key
                (\<lambda>q. q\<lparr>vc_sequence := vc_sequence q + 1, vc_pending := vc_pending r, vc_delivery := Pending,
                      vc_claim := None, vc_updated := now\<rparr>) r (vertex_coverage d)\<rparr>))"

section \<open>Intents\<close>

definition is_event :: "string \<Rightarrow> string \<Rightarrow> event_row \<Rightarrow> bool" where
  "is_event a e r \<longleftrightarrow> ve_account r = a \<and> ve_event r = e"

definition find_event :: "string \<Rightarrow> string \<Rightarrow> db \<Rightarrow> event_row option" where
  "find_event a e d = List.find (is_event a e) (vertex_events d)"

definition update_event :: "(event_row \<Rightarrow> bool) \<Rightarrow> (event_row \<Rightarrow> event_row) \<Rightarrow> db \<Rightarrow> db" where
  "update_event P f d = d\<lparr>vertex_events := update_rows P f (vertex_events d)\<rparr>"

definition new_event ::
  "timestamp \<Rightarrow> string \<Rightarrow> string \<Rightarrow> bytes \<Rightarrow> vertex_operation \<Rightarrow> string \<Rightarrow> string \<Rightarrow> event_row" where
  "new_event now a e fingerprint operation requested_model location =
     \<lparr>ve_account = a, ve_event = e, ve_fingerprint = fingerprint, ve_operation = operation_str operation,
      ve_requested_model = requested_model, ve_returned_model = None, ve_location = location,
      ve_traffic = ''on_demand'', ve_http_status = None, ve_tokens = no_tokens, ve_outcome = Started,
      ve_delivery = Pending, ve_attempts = 0, ve_claim = None, ve_observed = now\<rparr>"

definition begin_invocation ::
  "(bytes \<Rightarrow> bytes) \<Rightarrow> timestamp \<Rightarrow> string \<Rightarrow> vertex_operation \<Rightarrow> string \<Rightarrow> string \<Rightarrow> bytes \<Rightarrow> db \<Rightarrow> string tx" where
  "begin_invocation sha now a operation requested_model0 location0 caller_anchor d =
     (let requested_model = take_chars 256 requested_model0;
          location = take_chars 128 location0;
          fingerprint = vertex_invocation_fingerprint sha a operation requested_model location caller_anchor;
          e = event_id_of fingerprint
      in if \<not> account_active d a then (Inl (Auth ''account inactive''), d)
         else (case find_event a e d of
           Some r \<Rightarrow>
             if ve_fingerprint r \<noteq> fingerprint
             then (Inl (Conflict ''Vertex invocation id was reused with different input''), d)
             else (Inr e, d)
         | None \<Rightarrow>
             (case refresh_coverage now a (d\<lparr>vertex_events := vertex_events d @
                     [new_event now a e fingerprint operation requested_model location]\<rparr>) of
                (Inl err, _) \<Rightarrow> (Inl err, d)
              | (Inr _, d1) \<Rightarrow> (Inr e, d1))))"

datatype admission = Send | ConfirmedNotBilled | AmbiguousTerminal

record invocation_attempt =
  ia_event :: string
  ia_admission :: admission

definition outcome_text :: "outcome \<Rightarrow> string" where
  "outcome_text o1 = (case o1 of Started \<Rightarrow> ''started'' | Metered \<Rightarrow> ''metered''
     | UsageMissing \<Rightarrow> ''usage_missing'' | Ambiguous \<Rightarrow> ''ambiguous'' | NotBilled \<Rightarrow> ''not_billed'')"

definition replay_admission :: "string \<Rightarrow> admission res" where
  "replay_admission out =
     (if out = ''not_billed'' then Inr ConfirmedNotBilled
      else if out \<in> {''started'', ''metered'', ''usage_missing'', ''ambiguous''} then Inr AmbiguousTerminal
      else Inl (Store ''Vertex invocation has an invalid durable outcome''))"

definition begin_invocation_attempt ::
  "(bytes \<Rightarrow> bytes) \<Rightarrow> timestamp \<Rightarrow> string \<Rightarrow> vertex_operation \<Rightarrow> string \<Rightarrow> string \<Rightarrow> bytes \<Rightarrow> bytes \<Rightarrow> db
   \<Rightarrow> invocation_attempt tx" where
  "begin_invocation_attempt sha now a operation requested_model0 location0 caller_anchor attempt_identity d =
     (let requested_model = take_chars 256 requested_model0;
          location = take_chars 128 location0;
          fingerprint = vertex_invocation_fingerprint sha a operation requested_model location caller_anchor;
          e = vertex_attempt_event_id sha attempt_identity
      in if \<not> account_active d a then (Inl (Auth ''account inactive''), d)
         else (case find_event a e d of
           None \<Rightarrow>
             (case refresh_coverage now a (d\<lparr>vertex_events := vertex_events d @
                     [new_event now a e fingerprint operation requested_model location]\<rparr>) of
                (Inl err, _) \<Rightarrow> (Inl err, d)
              | (Inr _, d1) \<Rightarrow> (Inr \<lparr>ia_event = e, ia_admission = Send\<rparr>, d1))
         | Some r \<Rightarrow>
             (case replay_admission (outcome_text (ve_outcome r)) of Inl err \<Rightarrow> (Inl err, d)
              | Inr adm \<Rightarrow>
              (case (if ve_outcome r = Started
                     then refresh_coverage now a (update_event (\<lambda>v. is_event a e v \<and> ve_outcome v = Started)
                            (\<lambda>v. v\<lparr>ve_outcome := Ambiguous\<rparr>) d)
                     else (Inr (), d)) of
                 (Inl err, _) \<Rightarrow> (Inl err, d)
               | (Inr _, d1) \<Rightarrow>
                 if ve_fingerprint r \<noteq> fingerprint
                 then (Inl (Conflict ''Vertex invocation attempt id was reused with different input''), d1)
                 else (Inr \<lparr>ia_event = e, ia_admission = adm\<rparr>, d1)))))"

record attempt_provenance =
  ap_event :: string
  ap_fingerprint :: bytes
  ap_outcome :: string

definition durable_attempt_provenance ::
  "(bytes \<Rightarrow> bytes) \<Rightarrow> string \<Rightarrow> bytes \<Rightarrow> db \<Rightarrow> attempt_provenance option res" where
  "durable_attempt_provenance sha a attempt_identity d =
     (let e = vertex_attempt_event_id sha attempt_identity
      in case find_event a e d of
           None \<Rightarrow> Inr None
         | Some r \<Rightarrow>
             (case replay_admission (outcome_text (ve_outcome r)) of Inl err \<Rightarrow> Inl err
              | Inr _ \<Rightarrow> Inr (Some \<lparr>ap_event = e, ap_fingerprint = ve_fingerprint r,
                                   ap_outcome = outcome_text (ve_outcome r)\<rparr>)))"

section \<open>Settlement\<close>

text \<open>\<^verbatim>\<open>CHECK (http_status BETWEEN 100 AND 599)\<close>.\<close>

definition status_ok :: "int option \<Rightarrow> bool" where
  "status_ok s \<longleftrightarrow> (case s of None \<Rightarrow> True | Some n \<Rightarrow> 100 \<le> n \<and> n \<le> 599)"

definition refreshed :: "timestamp \<Rightarrow> string \<Rightarrow> db \<Rightarrow> db \<Rightarrow> unit tx" where
  "refreshed now a d d1 = (case refresh_coverage now a d1 of (Inl err, _) \<Rightarrow> (Inl err, d) | (Inr _, d2) \<Rightarrow> (Inr (), d2))"

definition settle_simple_outcome ::
  "timestamp \<Rightarrow> string \<Rightarrow> string \<Rightarrow> outcome \<Rightarrow> delivery_state \<Rightarrow> int option \<Rightarrow> db \<Rightarrow> unit tx" where
  "settle_simple_outcome now a e out delivery status d =
     (let hit = (\<lambda>v. is_event a e v \<and> ve_outcome v = Started)
      in if exists_row hit (vertex_events d) then
           if \<not> status_ok status then (Inl (Postgres ''check_violation''), d)
           else refreshed now a d (update_event hit
                  (\<lambda>v. v\<lparr>ve_outcome := out, ve_delivery := delivery, ve_http_status := status\<rparr>) d)
         else (case find_event a e d of
             None \<Rightarrow> (Inl (Store ''Vertex invocation intent does not exist''), d)
           | Some r \<Rightarrow>
               if ve_outcome r = out \<and> ve_delivery r = delivery \<and> ve_http_status r = status
                  \<and> ve_returned_model r = None \<and> ve_traffic r = ''on_demand'' \<and> ve_tokens r = no_tokens
               then refreshed now a d d
               else (Inl (Conflict ''Vertex invocation already has a different terminal outcome''), d)))"

definition settle_response :: "timestamp \<Rightarrow> string \<Rightarrow> string \<Rightarrow> vertex_metadata \<Rightarrow> db \<Rightarrow> unit tx" where
  "settle_response now a e metadata d =
     (let (model, normalized) = normalized_billable_response metadata;
          out = (if normalized \<noteq> None then Metered else UsageMissing);
          tokens = usage_tokens (case normalized of Some u \<Rightarrow> u | None \<Rightarrow> default_usage);
          traffic = normalized_traffic_type (vm_traffic_type metadata);
          hit = (\<lambda>v. is_event a e v \<and> ve_outcome v = Started)
      in if exists_row hit (vertex_events d) then
           refreshed now a d (update_event hit
             (\<lambda>v. v\<lparr>ve_returned_model := model, ve_traffic := traffic, ve_http_status := Some 200,
                   ve_tokens := tokens, ve_outcome := out\<rparr>) d)
         else (case find_event a e d of
             None \<Rightarrow> (Inl (Store ''Vertex invocation intent does not exist''), d)
           | Some r \<Rightarrow>
               if ve_outcome r = out \<and> ve_http_status r = Some 200 \<and> ve_returned_model r = model
                  \<and> ve_traffic r = traffic \<and> ve_tokens r = tokens
               then refreshed now a d d
               else (Inl (Conflict ''Vertex invocation already has different response metadata''), d)))"

definition settle_ambiguous :: "timestamp \<Rightarrow> string \<Rightarrow> string \<Rightarrow> int option \<Rightarrow> db \<Rightarrow> unit tx" where
  "settle_ambiguous now a e status d = settle_simple_outcome now a e Ambiguous Pending status d"

definition settle_not_billed :: "timestamp \<Rightarrow> string \<Rightarrow> string \<Rightarrow> int \<Rightarrow> db \<Rightarrow> unit tx" where
  "settle_not_billed now a e status d = settle_simple_outcome now a e NotBilled Delivered (Some status) d"

definition settle_pre_egress_not_billed :: "timestamp \<Rightarrow> string \<Rightarrow> string \<Rightarrow> db \<Rightarrow> unit tx" where
  "settle_pre_egress_not_billed now a e d = settle_simple_outcome now a e NotBilled Delivered None d"

section \<open>The outbox of usage events\<close>

definition CLAIM_SECONDS :: int where "CLAIM_SECONDS = 120"

definition OUTBOX_BATCH :: nat where "OUTBOX_BATCH = 100"

definition STALE_SECONDS :: int where "STALE_SECONDS = 180"

text \<open>The event as the billing service receives it; its token counts are not negative.\<close>

record usage_event =
  ue_account :: string
  ue_event :: string
  ue_operation :: string
  ue_requested_model :: string
  ue_returned_model :: "string option"
  ue_location :: string
  ue_traffic :: string
  ue_outcome :: string
  ue_http_status :: "int option"
  ue_tokens :: token_counts
  ue_observed :: string

definition token_columns :: "token_counts \<Rightarrow> (string \<times> int option) list" where
  "token_columns t = [(''prompt_tokens'', tk_prompt t), (''input_text_tokens'', tk_input_text t),
     (''input_audio_tokens'', tk_input_audio t), (''input_image_tokens'', tk_input_image t),
     (''cached_input_tokens'', tk_cached t), (''cached_input_text_tokens'', tk_cached_text t),
     (''cached_input_audio_tokens'', tk_cached_audio t), (''cached_input_image_tokens'', tk_cached_image t),
     (''output_text_tokens'', tk_output t), (''thought_tokens'', tk_thought t), (''total_tokens'', tk_total t)]"

definition negative :: "int option \<Rightarrow> bool" where
  "negative v \<longleftrightarrow> (case v of Some n \<Rightarrow> n < 0 | None \<Rightarrow> False)"

definition event_from_row :: "string \<Rightarrow> event_row \<Rightarrow> usage_event res" where
  "event_from_row billing_account_id r =
     (if \<not> (case ve_http_status r of None \<Rightarrow> True | Some n \<Rightarrow> 0 \<le> n \<and> n < 65536)
      then Inl (Store ''invalid Vertex HTTP status'')
      else case List.find (\<lambda>c. negative (snd c)) (token_columns (ve_tokens r)) of
        Some (column, _) \<Rightarrow> Inl (Store (''invalid Vertex token count in '' @ column))
      | None \<Rightarrow> Inr \<lparr>ue_account = billing_account_id, ue_event = ve_event r, ue_operation = ve_operation r,
          ue_requested_model = ve_requested_model r, ue_returned_model = ve_returned_model r,
          ue_location = ve_location r, ue_traffic = ve_traffic r, ue_outcome = outcome_text (ve_outcome r),
          ue_http_status = ve_http_status r, ue_tokens = ve_tokens r,
          ue_observed = format_epoch_millis (ve_observed r div 1000)\<rparr>)"

definition event_models_are_safe :: "usage_event \<Rightarrow> bool" where
  "event_models_are_safe e \<longleftrightarrow>
     vertex_model_name_is_billing_safe (ue_requested_model e)
   \<and> (case ue_returned_model e of None \<Rightarrow> True | Some m \<Rightarrow> vertex_model_name_is_billing_safe m)
   \<and> (ue_outcome e \<noteq> ''metered'' \<or> ue_returned_model e \<noteq> None)"

text \<open>\<^verbatim>\<open>iter().map(f).collect::<Result<Vec<_>>>()\<close>: the first error wins.\<close>

fun collect_res :: "('a \<Rightarrow> 'b res) \<Rightarrow> 'a list \<Rightarrow> 'b list res" where
  "collect_res f [] = Inr []"
| "collect_res f (x # xs) =
     (case f x of Inl err \<Rightarrow> Inl err
      | Inr y \<Rightarrow> (case collect_res f xs of Inl err \<Rightarrow> Inl err | Inr ys \<Rightarrow> Inr (y # ys)))"

definition unclaimed :: "timestamp \<Rightarrow> (string \<times> timestamp) option \<Rightarrow> bool" where
  "unclaimed now c \<longleftrightarrow> (case c of None \<Rightarrow> True | Some (_, expires) \<Rightarrow> expires \<le> now)"

definition claimable :: "timestamp \<Rightarrow> string \<Rightarrow> event_row \<Rightarrow> bool" where
  "claimable now a r \<longleftrightarrow>
     ve_account r = a \<and> ve_delivery r = Pending \<and> ve_outcome r \<noteq> Started \<and> unclaimed now (ve_claim r)"

definition outbox_rows :: "timestamp \<Rightarrow> string \<Rightarrow> db \<Rightarrow> event_row list" where
  "outbox_rows now a d =
     take OUTBOX_BATCH (sort_key ve_observed (sort_key ve_event (filter (claimable now a) (vertex_events d))))"

definition poison_event :: "timestamp \<Rightarrow> string \<Rightarrow> usage_event \<Rightarrow> db \<Rightarrow> db" where
  "poison_event now a e d =
     (let d1 = update_event (is_event a (ue_event e))
            (\<lambda>v. v\<lparr>ve_returned_model := None, ve_tokens := no_tokens, ve_outcome := UsageMissing,
                  ve_delivery := Delivered, ve_claim := None\<rparr>) d
      in d1\<lparr>vertex_coverage := update_rows (\<lambda>c. vc_account c = a \<and> vc_period c = period_of now)
            (\<lambda>c. c\<lparr>vc_lost := vc_lost c + 1, vc_delivery := Pending\<rparr>) (vertex_coverage d1)\<rparr>)"

definition claim_event :: "timestamp \<Rightarrow> string \<Rightarrow> string \<Rightarrow> usage_event \<Rightarrow> db \<Rightarrow> db" where
  "claim_event now a claim e d =
     update_event (is_event a (ue_event e))
       (\<lambda>v. v\<lparr>ve_claim := Some (claim, now + seconds CLAIM_SECONDS)\<rparr>) d"

record usage_batch =
  ub_claim :: string
  ub_events :: "usage_event list"

text \<open>Started invocations that are stale, or all of them, become ambiguous.\<close>

definition give_up :: "timestamp \<Rightarrow> string \<Rightarrow> bool \<Rightarrow> event_row \<Rightarrow> bool" where
  "give_up now a force v \<longleftrightarrow>
     ve_account v = a \<and> ve_outcome v = Started \<and> (force \<or> ve_observed v \<le> now - seconds STALE_SECONDS)"

definition refresh_if :: "bool \<Rightarrow> timestamp \<Rightarrow> string \<Rightarrow> db \<Rightarrow> unit tx" where
  "refresh_if dirty now a d = (if dirty then refresh_coverage now a d else (Inr (), d))"

lemma find_event_None: "find_event a e d = None \<longleftrightarrow> (\<forall>r\<in>set (vertex_events d). \<not> is_event a e r)"
  by (auto simp: find_event_def find_None_iff)

lemma poison_event_events [simp]:
  "vertex_events (poison_event now a e d) = update_rows (is_event a (ue_event e))
     (\<lambda>v. v\<lparr>ve_returned_model := None, ve_tokens := no_tokens, ve_outcome := UsageMissing,
           ve_delivery := Delivered, ve_claim := None\<rparr>) (vertex_events d)"
  by (simp add: poison_event_def update_event_def)

lemma collect_res_Inr: "collect_res f xs = Inr ys \<longleftrightarrow> map f xs = map Inr ys"
  by (induction xs arbitrary: ys) (auto split: sum.split, blast)

lemma set_outbox_rows: "r \<in> set (outbox_rows now a d) \<Longrightarrow> r \<in> set (vertex_events d) \<and> claimable now a r"
  by (auto simp: outbox_rows_def dest: in_set_takeD)

text \<open>
  A poisoned event leaves the outbox and no other event enters it, which is why the loop below ends.
\<close>

definition poison_all :: "timestamp \<Rightarrow> string \<Rightarrow> usage_event list \<Rightarrow> db \<Rightarrow> db" where
  "poison_all now a es d = fold (poison_event now a) es d"

definition claim_all :: "timestamp \<Rightarrow> string \<Rightarrow> string \<Rightarrow> usage_event list \<Rightarrow> db \<Rightarrow> db" where
  "claim_all now a claim es d = fold (claim_event now a claim) es d"

lemma update_rows_twice:
  "update_rows Q f (update_rows P f t) = update_rows (\<lambda>r. P r \<or> Q r) f t"
  if "\<And>r. f (f r) = f r" "\<And>r. Q (f r) \<longleftrightarrow> Q r"
  by (simp add: update_rows_def that cong: map_cong)

definition poisoned :: "event_row \<Rightarrow> event_row" where
  "poisoned v = v\<lparr>ve_returned_model := None, ve_tokens := no_tokens, ve_outcome := UsageMissing,
     ve_delivery := Delivered, ve_claim := None\<rparr>"

definition one_of :: "string \<Rightarrow> usage_event list \<Rightarrow> event_row \<Rightarrow> bool" where
  "one_of a es r \<longleftrightarrow> ve_account r = a \<and> ve_event r \<in> ue_event ` set es"

lemma one_of_Cons: "one_of a (e # es) r \<longleftrightarrow> is_event a (ue_event e) r \<or> one_of a es r"
  by (auto simp: one_of_def is_event_def)

lemma poison_all_events:
  "vertex_events (poison_all now a es d) = update_rows (one_of a es) poisoned (vertex_events d)"
proof (induction es arbitrary: d)
  case Nil
  then show ?case by (simp add: poison_all_def one_of_def update_rows_def)
next
  case (Cons e es)
  have p: "vertex_events (poison_event now a e d) = update_rows (is_event a (ue_event e)) poisoned (vertex_events d)"
    by (simp add: poisoned_def [abs_def])
  have "vertex_events (poison_all now a (e # es) d) = vertex_events (poison_all now a es (poison_event now a e d))"
    by (simp add: poison_all_def)
  also have "\<dots> = update_rows (one_of a es) poisoned (update_rows (is_event a (ue_event e)) poisoned (vertex_events d))"
    by (simp only: Cons.IH p)
  also have "\<dots> = update_rows (\<lambda>r. is_event a (ue_event e) r \<or> one_of a es r) poisoned (vertex_events d)"
    by (rule update_rows_twice) (simp_all add: poisoned_def one_of_def)
  finally show ?case by (simp add: one_of_Cons [abs_def])
qed

definition claimed_by :: "timestamp \<Rightarrow> string \<Rightarrow> event_row \<Rightarrow> event_row" where
  "claimed_by now claim v = v\<lparr>ve_claim := Some (claim, now + seconds CLAIM_SECONDS)\<rparr>"

lemma claim_all_events:
  "vertex_events (claim_all now a claim es d) = update_rows (one_of a es) (claimed_by now claim) (vertex_events d)"
proof (induction es arbitrary: d)
  case Nil
  then show ?case by (simp add: claim_all_def one_of_def update_rows_def)
next
  case (Cons e es)
  have "vertex_events (claim_all now a claim (e # es) d) = vertex_events (claim_all now a claim es (claim_event now a claim e d))"
    by (simp add: claim_all_def)
  also have "\<dots> = update_rows (one_of a es) (claimed_by now claim)
      (update_rows (is_event a (ue_event e)) (claimed_by now claim) (vertex_events d))"
    by (simp only: Cons.IH) (simp add: claim_event_def update_event_def claimed_by_def [abs_def])
  also have "\<dots> = update_rows (\<lambda>r. is_event a (ue_event e) r \<or> one_of a es r) (claimed_by now claim) (vertex_events d)"
    by (rule update_rows_twice) (simp_all add: claimed_by_def one_of_def)
  finally show ?case by (simp add: one_of_Cons [abs_def])
qed

lemma filter_update_rows:
  assumes "\<And>r. P r \<Longrightarrow> \<not> Q (f r)"
  shows "filter Q (update_rows P f t) = filter (\<lambda>r. Q r \<and> \<not> P r) t"
  using assms by (induction t) (auto simp: update_rows_def)

lemma poisoned_not_claimable: "\<not> claimable now a (poisoned r)"
  by (simp add: claimable_def poisoned_def)

lemma claimable_after_poison:
  "filter (claimable now a) (vertex_events (poison_all n a es d)) =
     filter (\<lambda>r. claimable now a r \<and> \<not> one_of a es r) (vertex_events d)"
  unfolding poison_all_events by (rule filter_update_rows) (rule poisoned_not_claimable)

lemma event_from_row_id: "event_from_row b r = Inr e \<Longrightarrow> ue_event e = ve_event r"
  by (auto simp: event_from_row_def split: if_splits option.splits)

lemma collected_ids: "collect_res (event_from_row b) rows = Inr es \<Longrightarrow> map ue_event es = map ve_event rows"
  unfolding collect_res_Inr
  by (induction rows arbitrary: es) (auto dest: event_from_row_id)

lemma poison_shrinks:
  assumes "collect_res (event_from_row b) (outbox_rows now a d) = Inr es" "outbox_rows now a d \<noteq> []"
  shows "length (filter (claimable now a) (vertex_events (poison_all now a es d)))
    < length (filter (claimable now a) (vertex_events d))"
proof -
  obtain r where r: "r \<in> set (outbox_rows now a d)" using assms(2) by fastforce
  from collected_ids [OF assms(1)] have "ue_event ` set es = ve_event ` set (outbox_rows now a d)"
    by (metis set_map)
  with r set_outbox_rows [OF r] have "r \<in> set (vertex_events d)" "claimable now a r" "one_of a es r"
    by (auto simp: one_of_def claimable_def)
  then have "r \<in> set (filter (claimable now a) (vertex_events d))" "\<not> \<not> one_of a es r" by simp_all
  then have "length (filter (\<lambda>r. \<not> one_of a es r) (filter (claimable now a) (vertex_events d)))
      < length (filter (claimable now a) (vertex_events d))"
    by (rule length_filter_less)
  then show ?thesis unfolding claimable_after_poison by (simp add: conj_commute)
qed

lemma all_poison:
  assumes "filter P xs = []"
  shows "filter (Not \<circ> P) xs = xs"
  using assms by (simp add: filter_empty_conv filter_id_conv)

function pending_loop ::
  "timestamp \<Rightarrow> string \<Rightarrow> string \<Rightarrow> string \<Rightarrow> bool \<Rightarrow> db \<Rightarrow> usage_batch option tx" where
  "pending_loop now random a billing dirty d =
     (let rows = outbox_rows now a d
      in if rows = [] then
           (case refresh_if dirty now a d of (Inl err, d1) \<Rightarrow> (Inl err, d1) | (Inr _, d1) \<Rightarrow> (Inr None, d1))
         else case collect_res (event_from_row billing) rows of
           Inl err \<Rightarrow> (Inl err, d)
         | Inr events \<Rightarrow>
             let (deliverable, poison) = partition event_models_are_safe events;
                 d1 = poison_all now a poison d;
                 dirty1 = (dirty \<or> poison \<noteq> [])
             in if deliverable = [] then pending_loop now random a billing dirty1 d1
                else case refresh_if dirty1 now a (claim_all now a random deliverable d1) of
                  (Inl err, d2) \<Rightarrow> (Inl err, d2)
                | (Inr _, d2) \<Rightarrow> (Inr (Some \<lparr>ub_claim = random, ub_events = deliverable\<rparr>), d2))"
  by pat_completeness auto

termination
proof (relation "measure (\<lambda>(now, random, a, billing, dirty, d). length (filter (claimable now a) (vertex_events d)))",
    goal_cases)
  case (2 now random a billing dirty d rows events p deliverable poison d1 dirty1)
  then have "filter event_models_are_safe events = []" "poison = filter (Not \<circ> event_models_are_safe) events"
    by simp_all
  from this(2) [unfolded all_poison [OF this(1)]] have "poison = events" .
  with 2 poison_shrinks [of billing now a d events] show ?case by simp
qed simp

declare pending_loop.simps [simp del]

definition pending_events ::
  "timestamp \<Rightarrow> string \<Rightarrow> string \<Rightarrow> string \<Rightarrow> bool \<Rightarrow> db \<Rightarrow> usage_batch option tx" where
  "pending_events now random a billing force d =
     (let dirty = exists_row (give_up now a force) (vertex_events d);
          d1 = update_event (give_up now a force) (\<lambda>v. v\<lparr>ve_outcome := Ambiguous\<rparr>) d
      in case pending_loop now random a billing dirty d1 of
           (Inl err, _) \<Rightarrow> (Inl err, d)
         | (Inr batch, d2) \<Rightarrow> (Inr batch, d2))"

section \<open>Acknowledgement\<close>

definition holds_claim :: "string \<Rightarrow> string \<Rightarrow> string \<Rightarrow> event_row \<Rightarrow> bool" where
  "holds_claim a e claim v \<longleftrightarrow>
     is_event a e v \<and> map_option fst (ve_claim v) = Some claim \<and> ve_delivery v = Pending"

fun complete_each :: "string \<Rightarrow> string \<Rightarrow> string list \<Rightarrow> db \<Rightarrow> unit tx" where
  "complete_each a claim [] d = (Inr (), d)"
| "complete_each a claim (e # es) d =
     (if exists_row (holds_claim a e claim) (vertex_events d)
      then complete_each a claim es
             (update_event (holds_claim a e claim) (\<lambda>v. v\<lparr>ve_delivery := Delivered, ve_claim := None\<rparr>) d)
      else if (case find_event a e d of Some r \<Rightarrow> ve_delivery r = Delivered | None \<Rightarrow> False)
      then complete_each a claim es d
      else (Inl (Conflict ''Vertex delivery claim is no longer authoritative''), d))"

definition complete_delivery :: "timestamp \<Rightarrow> string \<Rightarrow> string \<Rightarrow> string list \<Rightarrow> db \<Rightarrow> unit tx" where
  "complete_delivery now a claim event_ids d =
     (case complete_each a claim event_ids d of
        (Inl err, _) \<Rightarrow> (Inl err, d)
      | (Inr _, d1) \<Rightarrow> refreshed now a d d1)"

definition note_failure :: "string \<Rightarrow> string \<Rightarrow> string \<Rightarrow> db \<Rightarrow> db" where
  "note_failure a claim e d =
     update_event (holds_claim a e claim) (\<lambda>v. v\<lparr>ve_attempts := ve_attempts v + 1, ve_claim := None\<rparr>) d"

definition note_delivery_failure :: "string \<Rightarrow> string \<Rightarrow> string list \<Rightarrow> db \<Rightarrow> unit tx" where
  "note_delivery_failure a claim event_ids d = (Inr (), fold (note_failure a claim) event_ids d)"

section \<open>The outbox of coverage snapshots\<close>

record coverage_snapshot =
  cs_account :: string
  cs_period :: string
  cs_sequence :: nat
  cs_pending :: nat
  cs_lost :: nat
  cs_observed :: string

record claimed_coverage =
  cc_claim :: string
  cc_snapshot :: coverage_snapshot

definition update_coverage :: "(coverage_row \<Rightarrow> bool) \<Rightarrow> (coverage_row \<Rightarrow> coverage_row) \<Rightarrow> db \<Rightarrow> db" where
  "update_coverage P f d = d\<lparr>vertex_coverage := update_rows P f (vertex_coverage d)\<rparr>"

text \<open>Periods that ended with undelivered coverage are closed as lost.\<close>

definition close_past_periods :: "string \<Rightarrow> string \<Rightarrow> timestamp \<Rightarrow> db \<Rightarrow> db" where
  "close_past_periods a period now d =
     update_coverage (\<lambda>c. vc_account c = a \<and> vc_period c < period \<and> vc_delivery c = Pending)
       (\<lambda>c. c\<lparr>vc_pending := 0, vc_lost := max (vc_lost c + vc_pending c) 1, vc_delivery := Delivered,
             vc_claim := None, vc_updated := now\<rparr>) d"

definition pending_coverage ::
  "timestamp \<Rightarrow> string \<Rightarrow> string \<Rightarrow> string \<Rightarrow> db \<Rightarrow> claimed_coverage list tx" where
  "pending_coverage now random a billing d =
     (let period = period_of now;
          d1 = close_past_periods a period now d;
          r0 = new_coverage now a d1
      in if \<not> has_key coverage_key (coverage_key r0) (vertex_coverage d1) \<and> \<not> has_account a d1
         then (Inl (Postgres ''foreign_key_violation''), d)
         else
           let d2 = d1\<lparr>vertex_coverage := insert_ignore coverage_key r0 (vertex_coverage d1)\<rparr>;
               here = (\<lambda>c. vc_account c = a \<and> vc_period c = period)
           in case List.find (\<lambda>c. here c \<and> vc_delivery c = Pending \<and> unclaimed now (vc_claim c)) (vertex_coverage d2) of
                None \<Rightarrow> (Inr [], d2)
              | Some r \<Rightarrow>
                  if vc_sequence r < 0 then (Inl (Store ''invalid Vertex coverage sequence''), d)
                  else if vc_pending r < 0 then (Inl (Store ''invalid Vertex pending count''), d)
                  else if vc_lost r < 0 then (Inl (Store ''invalid Vertex lost count''), d)
                  else (Inr [\<lparr>cc_claim = random, cc_snapshot = \<lparr>cs_account = billing, cs_period = period,
                               cs_sequence = nat (vc_sequence r), cs_pending = nat (vc_pending r),
                               cs_lost = nat (vc_lost r),
                               cs_observed = format_epoch_millis (vc_updated r div 1000)\<rparr>\<rparr>],
                        update_coverage here
                          (\<lambda>c. c\<lparr>vc_claim := Some (random, now + seconds CLAIM_SECONDS)\<rparr>) d2))"

definition coverage_claimed :: "string \<Rightarrow> string \<Rightarrow> int \<Rightarrow> string \<Rightarrow> coverage_row \<Rightarrow> bool" where
  "coverage_claimed a period sequence claim c \<longleftrightarrow>
     vc_account c = a \<and> vc_period c = period \<and> vc_sequence c = sequence \<and> map_option fst (vc_claim c) = Some claim"

definition persist_coverage_snapshot ::
  "string \<Rightarrow> string \<Rightarrow> coverage_snapshot \<Rightarrow> coverage_snapshot \<Rightarrow> db \<Rightarrow> unit tx" where
  "persist_coverage_snapshot a claim predecessor replacement d =
     (if cs_period predecessor \<noteq> cs_period replacement
      then (Inl (Conflict ''coverage period changed during reconciliation''), d)
      else case parse_epoch_millis (cs_observed replacement) of
        None \<Rightarrow> (Inl (Store ''invalid coverage timestamp''), d)
      | Some observed_at \<Rightarrow>
          if int (cs_sequence predecessor) > i64_max then (Inl (Store ''coverage predecessor sequence overflow''), d)
          else if int (cs_sequence replacement) > i64_max then (Inl (Store ''coverage sequence overflow''), d)
          else if int (cs_pending replacement) > i64_max then (Inl (Store ''coverage pending overflow''), d)
          else if int (cs_lost replacement) > i64_max then (Inl (Store ''coverage lost overflow''), d)
          else
            let hit = coverage_claimed a (cs_period predecessor) (int (cs_sequence predecessor)) claim
            in if exists_row hit (vertex_coverage d) \<and> cs_sequence replacement = 0
               then (Inl (Postgres ''check_violation''), d)
               else if count_rows hit (vertex_coverage d) \<noteq> 1
               then (Inl (Conflict ''coverage predecessor changed during reconciliation''), d)
               else (Inr (), update_coverage hit
                      (\<lambda>c. c\<lparr>vc_sequence := int (cs_sequence replacement), vc_pending := int (cs_pending replacement),
                            vc_lost := int (cs_lost replacement), vc_delivery := Pending,
                            vc_updated := observed_at * 1000\<rparr>) d))"

definition complete_coverage :: "timestamp \<Rightarrow> string \<Rightarrow> string \<Rightarrow> string \<Rightarrow> nat \<Rightarrow> db \<Rightarrow> unit tx" where
  "complete_coverage now a claim period sequence d =
     (if int sequence > i64_max then (Inl (Store ''coverage sequence overflow''), d)
      else
        let hit = (\<lambda>c. coverage_claimed a period (int sequence) claim c \<and> vc_delivery c = Pending)
        in if exists_row hit (vertex_coverage d)
           then (Inr (), update_coverage hit
                  (\<lambda>c. c\<lparr>vc_delivery := Delivered, vc_claim := None, vc_updated := now\<rparr>) d)
           else if (case List.find (\<lambda>c. vc_account c = a \<and> vc_period c = period \<and> vc_sequence c = int sequence)
                            (vertex_coverage d) of
                      Some c \<Rightarrow> vc_delivery c = Delivered | None \<Rightarrow> False)
           then (Inr (), d)
           else (Inl (Conflict ''Vertex coverage claim is no longer authoritative''), d))"

definition invalidate_stale_coverage :: "timestamp \<Rightarrow> string \<Rightarrow> string \<Rightarrow> string \<Rightarrow> nat \<Rightarrow> db \<Rightarrow> unit tx" where
  "invalidate_stale_coverage now a claim period sequence d =
     (if int sequence > i64_max then (Inl (Store ''coverage sequence overflow''), d)
      else (Inr (), update_coverage (coverage_claimed a period (int sequence) claim)
             (\<lambda>c. c\<lparr>vc_sequence := vc_sequence c + 1, vc_lost := max (vc_lost c) 1, vc_delivery := Pending,
                   vc_claim := None, vc_updated := now\<rparr>) d))"

section \<open>Histories\<close>

datatype usage_op =
    BeginInvocation timestamp string vertex_operation string string bytes
  | BeginAttempt timestamp string vertex_operation string string bytes bytes
  | SettleResponse timestamp string string vertex_metadata
  | SettleAmbiguous timestamp string string "int option"
  | SettleNotBilled timestamp string string int
  | SettlePreEgress timestamp string string
  | ClaimEvents timestamp string string string bool
  | CompleteDelivery timestamp string string "string list"
  | DeliveryFailed string string "string list"
  | ClaimCoverage timestamp string string string
  | PersistCoverage string string coverage_snapshot coverage_snapshot
  | CompleteCoverage timestamp string string string nat
  | InvalidateCoverage timestamp string string string nat

fun usage_step :: "(bytes \<Rightarrow> bytes) \<Rightarrow> usage_op \<Rightarrow> db \<Rightarrow> db" where
  "usage_step sha (BeginInvocation now a p m l c) d = snd (begin_invocation sha now a p m l c d)"
| "usage_step sha (BeginAttempt now a p m l c i) d = snd (begin_invocation_attempt sha now a p m l c i d)"
| "usage_step sha (SettleResponse now a e m) d = snd (settle_response now a e m d)"
| "usage_step sha (SettleAmbiguous now a e s) d = snd (settle_ambiguous now a e s d)"
| "usage_step sha (SettleNotBilled now a e s) d = snd (settle_not_billed now a e s d)"
| "usage_step sha (SettlePreEgress now a e) d = snd (settle_pre_egress_not_billed now a e d)"
| "usage_step sha (ClaimEvents now r a b f) d = snd (pending_events now r a b f d)"
| "usage_step sha (CompleteDelivery now a c es) d = snd (complete_delivery now a c es d)"
| "usage_step sha (DeliveryFailed a c es) d = snd (note_delivery_failure a c es d)"
| "usage_step sha (ClaimCoverage now r a b) d = snd (pending_coverage now r a b d)"
| "usage_step sha (PersistCoverage a c p q) d = snd (persist_coverage_snapshot a c p q d)"
| "usage_step sha (CompleteCoverage now a c p n) d = snd (complete_coverage now a c p n d)"
| "usage_step sha (InvalidateCoverage now a c p n) d = snd (invalidate_stale_coverage now a c p n d)"

subsection \<open>The ledger touches its own two tables only\<close>

definition ledger_frame :: "db \<Rightarrow> db \<Rightarrow> bool" where
  "ledger_frame d d' \<longleftrightarrow> d' = d\<lparr>vertex_events := vertex_events d', vertex_coverage := vertex_coverage d'\<rparr>"

lemma ledger_frame_refl [simp, intro]: "ledger_frame d d"
  by (simp add: ledger_frame_def)

lemma ledger_frame_trans: "ledger_frame d d1 \<Longrightarrow> ledger_frame d1 d2 \<Longrightarrow> ledger_frame d d2"
proof -
  assume "ledger_frame d d1" "ledger_frame d1 d2"
  then obtain u v x y where "d1 = d\<lparr>vertex_events := u, vertex_coverage := v\<rparr>" "d2 = d1\<lparr>vertex_events := x, vertex_coverage := y\<rparr>"
    unfolding ledger_frame_def by blast
  then show ?thesis by (simp add: ledger_frame_def)
qed

lemma ledger_frame_updates [simp]:
  "ledger_frame d (update_event P f d)" "ledger_frame d (update_coverage Q g d)"
  "ledger_frame d (d\<lparr>vertex_events := x\<rparr>)" "ledger_frame d (d\<lparr>vertex_coverage := y\<rparr>)"
  "ledger_frame d (snd (refresh_coverage now a d))" "ledger_frame d (poison_event now a e d)"
  "ledger_frame d (claim_event now a c e d)" "ledger_frame d (note_failure a c k d)"
  "ledger_frame d (close_past_periods a p now d)"
  by (simp_all add: ledger_frame_def update_event_def update_coverage_def refresh_coverage_def Let_def poison_event_def
      claim_event_def note_failure_def close_past_periods_def)

lemma ledger_frame_fold: "(\<And>x d. ledger_frame d (f x d)) \<Longrightarrow> ledger_frame d (fold f xs d)"
  by (induction xs arbitrary: d) (auto intro: ledger_frame_trans)

lemma ledger_frame_all [simp]:
  "ledger_frame d (poison_all now a es d)" "ledger_frame d (claim_all now a c es d)"
  by (simp_all add: poison_all_def claim_all_def ledger_frame_fold)

lemma refreshed_cases:
  obtains (failed) err where "refreshed now a d d1 = (Inl err, d)"
  | (stored) d2 where "refresh_coverage now a d1 = (Inr (), d2)" "refreshed now a d d1 = (Inr (), d2)"
  by (cases "refresh_coverage now a d1"; cases "fst (refresh_coverage now a d1)") (auto simp: refreshed_def)

lemma refresh_coverage_events [simp]: "vertex_events (snd (refresh_coverage now a d)) = vertex_events d"
  by (simp add: refresh_coverage_def Let_def)

lemma refresh_coverage_Inr:
  "refresh_coverage now a d = (r, d') \<Longrightarrow> vertex_events d' = vertex_events d \<and> ledger_frame d d'"
  using refresh_coverage_events [of now a d] ledger_frame_updates(5) [of d now a] by auto

lemma ledger_frame_refreshed: "ledger_frame d d1 \<Longrightarrow> ledger_frame d (snd (refreshed now a d d1))"
  by (cases rule: refreshed_cases [of now a d d1]) (auto dest: refresh_coverage_Inr intro: ledger_frame_trans)

text \<open>
  One round of the loop that only poisons, and what the loop returns: after some such rounds either
  the outbox is empty or a batch is claimed.
\<close>

definition poison_round :: "timestamp \<Rightarrow> string \<Rightarrow> string \<Rightarrow> db \<Rightarrow> db \<Rightarrow> bool" where
  "poison_round now a b d d1 \<longleftrightarrow> (\<exists>es. outbox_rows now a d \<noteq> []
     \<and> collect_res (event_from_row b) (outbox_rows now a d) = Inr es \<and> filter event_models_are_safe es = []
     \<and> d1 = poison_all now a es d)"

definition claim_round :: "timestamp \<Rightarrow> string \<Rightarrow> string \<Rightarrow> string \<Rightarrow> usage_event list \<Rightarrow> db \<Rightarrow> db \<Rightarrow> bool" where
  "claim_round now random a b es d d1 \<longleftrightarrow> collect_res (event_from_row b) (outbox_rows now a d) = Inr es
     \<and> filter event_models_are_safe es \<noteq> []
     \<and> d1 = claim_all now a random (filter event_models_are_safe es)
         (poison_all now a (filter (Not \<circ> event_models_are_safe) es) d)"

lemma refresh_if_frame: "refresh_if dirty now a d = (r, d') \<Longrightarrow> vertex_events d' = vertex_events d \<and> ledger_frame d d'"
  by (auto simp: refresh_if_def dest: refresh_coverage_Inr split: if_splits)

lemma pending_loop_result:
  assumes "pending_loop now random a b dirty d = (Inr r, d')"
  shows "\<exists>d1 d2. (poison_round now a b)\<^sup>*\<^sup>* d d1 \<and> vertex_events d' = vertex_events d2 \<and> ledger_frame d2 d'
    \<and> (r = None \<and> outbox_rows now a d1 = [] \<and> d2 = d1
       \<or> (\<exists>es. claim_round now random a b es d1 d2
            \<and> r = Some \<lparr>ub_claim = random, ub_events = filter event_models_are_safe es\<rparr>))"
  using assms
proof (induction now random a b dirty d rule: pending_loop.induct)
  case (1 now random a b dirty d)
  show ?case
  proof (cases "outbox_rows now a d = []")
    case True
    with "1.prems" obtain x where "refresh_if dirty now a d = (x, d')" "r = None"
      by (subst (asm) pending_loop.simps) (auto split: prod.splits sum.splits)
    with True show ?thesis using refresh_if_frame by blast
  next
    case ne: False
    with "1.prems" obtain es where es: "collect_res (event_from_row b) (outbox_rows now a d) = Inr es"
      by (subst (asm) pending_loop.simps) (auto split: sum.splits)
    let ?p = "filter (Not \<circ> event_models_are_safe) es"
    let ?d1 = "poison_all now a ?p d"
    show ?thesis
    proof (cases "filter event_models_are_safe es = []")
      case True
      have loop: "pending_loop now random a b (dirty \<or> ?p \<noteq> []) ?d1 = (Inr r, d')"
        using "1.prems" by (subst (asm) pending_loop.simps) (simp add: ne es True)
      have "poison_round now a b d ?d1"
        using ne es True by (auto simp: poison_round_def all_poison [OF True])
      with "1.IH" [OF refl ne es refl _ refl refl True loop] show ?thesis
        by (auto intro: converse_rtranclp_into_rtranclp)
    next
      case False
      let ?d2 = "claim_all now a random (filter event_models_are_safe es) ?d1"
      from "1.prems" ne es False obtain x where "refresh_if (dirty \<or> ?p \<noteq> []) now a ?d2 = (x, d')"
        and "r = Some \<lparr>ub_claim = random, ub_events = filter event_models_are_safe es\<rparr>"
        by (subst (asm) pending_loop.simps) (auto split: prod.splits sum.splits)
      moreover have "claim_round now random a b es d ?d2" using es False by (simp add: claim_round_def)
      ultimately show ?thesis using refresh_if_frame by blast
    qed
  qed
qed

lemma poison_rounds_frame: "(poison_round now a b)\<^sup>*\<^sup>* d d1 \<Longrightarrow> ledger_frame d d1"
  by (induction rule: rtranclp_induct) (auto simp: poison_round_def intro: ledger_frame_trans)

lemma claim_round_frame: "claim_round now random a b es d d1 \<Longrightarrow> ledger_frame d d1"
  using ledger_frame_trans [OF ledger_frame_all(1) ledger_frame_all(2)] by (auto simp: claim_round_def)

text \<open>The same for the transaction.\<close>

definition gave_up :: "timestamp \<Rightarrow> string \<Rightarrow> bool \<Rightarrow> db \<Rightarrow> db" where
  "gave_up now a force d = update_event (give_up now a force) (\<lambda>v. v\<lparr>ve_outcome := Ambiguous\<rparr>) d"

lemma pending_events_result:
  assumes "pending_events now random a b force d = (Inr r, d')"
  obtains d1 where "(poison_round now a b)\<^sup>*\<^sup>* (gave_up now a force d) d1" "r = None"
    "outbox_rows now a d1 = []" "vertex_events d' = vertex_events d1" "ledger_frame d d'"
  | d1 d2 es where "(poison_round now a b)\<^sup>*\<^sup>* (gave_up now a force d) d1" "claim_round now random a b es d1 d2"
    "r = Some \<lparr>ub_claim = random, ub_events = filter event_models_are_safe es\<rparr>"
    "vertex_events d' = vertex_events d2" "ledger_frame d d'"
proof -
  have "ledger_frame d (gave_up now a force d)" by (simp add: gave_up_def)
  moreover from assms obtain dirty where "pending_loop now random a b dirty (gave_up now a force d) = (Inr r, d')"
    by (auto simp: pending_events_def Let_def gave_up_def split: prod.splits sum.splits)
  note pending_loop_result [OF this]
  ultimately show ?thesis using that poison_rounds_frame claim_round_frame ledger_frame_trans by metis
qed

lemma pending_events_Inl: "pending_events now random a b force d = (Inl err, d') \<Longrightarrow> d' = d"
  by (auto simp: pending_events_def Let_def split: prod.splits sum.splits)

lemma ledger_frame_pending: "ledger_frame d (snd (pending_events now random a b force d))"
proof (cases "pending_events now random a b force d")
  case (Pair r d')
  then show ?thesis
    by (cases r) (auto dest: pending_events_Inl elim: pending_events_result)
qed

lemma ledger_frame_complete_each: "ledger_frame d (snd (complete_each a c es d))"
  by (induction a c es d rule: complete_each.induct) (auto intro: ledger_frame_trans [OF ledger_frame_updates(1)])

text \<open>What admitting an invocation can do.\<close>

lemma begin_invocation_cases:
  fixes sha now a p m0 l0 c d
  defines "m \<equiv> take_chars 256 m0" and "l \<equiv> take_chars 128 l0"
  defines "fp \<equiv> vertex_invocation_fingerprint sha a p m l c"
  obtains (refused) err where "begin_invocation sha now a p m0 l0 c d = (Inl err, d)"
  | (known) r where "begin_invocation sha now a p m0 l0 c d = (Inr (event_id_of fp), d)" "account_active d a"
      "find_event a (event_id_of fp) d = Some r" "ve_fingerprint r = fp"
  | (announced) d1 where "begin_invocation sha now a p m0 l0 c d = (Inr (event_id_of fp), d1)" "account_active d a"
      "find_event a (event_id_of fp) d = None"
      "refresh_coverage now a (d\<lparr>vertex_events := vertex_events d @ [new_event now a (event_id_of fp) fp p m l]\<rparr>) = (Inr (), d1)"
proof (cases "find_event a (event_id_of fp) d")
  case None
  obtain x d1 where r: "refresh_coverage now a (d\<lparr>vertex_events := vertex_events d @
      [new_event now a (event_id_of fp) fp p m l]\<rparr>) = (x, d1)"
    by (rule prod.exhaust)
  note defs = begin_invocation_def Let_def m_def l_def fp_def
  show ?thesis
  proof (cases "account_active d a")
    case True
    with None r show ?thesis
      by (cases x) (simp_all add: that(1) [of "projl x"] that(3) [of d1] defs)
  next
    case False
    then show ?thesis by (intro that(1)) (simp add: defs)
  qed
next
  case (Some r)
  then show ?thesis
    using that by (cases "account_active d a"; cases "ve_fingerprint r = fp")
      (auto simp: begin_invocation_def Let_def m_def l_def fp_def)
qed

lemma replay_admission_outcome:
  "replay_admission (outcome_text w) = Inr (if w = NotBilled then ConfirmedNotBilled else AmbiguousTerminal)"
  by (cases w) (simp_all add: replay_admission_def outcome_text_def)

definition started :: "string \<Rightarrow> string \<Rightarrow> event_row \<Rightarrow> bool" where
  "started a e v \<longleftrightarrow> is_event a e v \<and> ve_outcome v = Started"

lemma begin_attempt_cases:
  fixes sha now a p m0 l0 c i d
  defines "m \<equiv> take_chars 256 m0" and "l \<equiv> take_chars 128 l0"
  defines "fp \<equiv> vertex_invocation_fingerprint sha a p m l c" and "e \<equiv> vertex_attempt_event_id sha i"
  obtains (refused) err where "begin_invocation_attempt sha now a p m0 l0 c i d = (Inl err, d)"
  | (sent) d1 where "begin_invocation_attempt sha now a p m0 l0 c i d = (Inr \<lparr>ia_event = e, ia_admission = Send\<rparr>, d1)"
      "account_active d a" "find_event a e d = None"
      "refresh_coverage now a (d\<lparr>vertex_events := vertex_events d @ [new_event now a e fp p m l]\<rparr>) = (Inr (), d1)"
  | (replayed) r d1 where "account_active d a" "find_event a e d = Some r"
      "begin_invocation_attempt sha now a p m0 l0 c i d =
        (if ve_fingerprint r = fp
         then Inr \<lparr>ia_event = e, ia_admission = if ve_outcome r = NotBilled then ConfirmedNotBilled else AmbiguousTerminal\<rparr>
         else Inl (Conflict ''Vertex invocation attempt id was reused with different input''), d1)"
      "if ve_outcome r = Started
       then refresh_coverage now a (update_event (started a e) (\<lambda>v. v\<lparr>ve_outcome := Ambiguous\<rparr>) d) = (Inr (), d1)
       else d1 = d"
proof (cases "find_event a e d")
  case None
  obtain x d1 where r: "refresh_coverage now a (d\<lparr>vertex_events := vertex_events d @ [new_event now a e fp p m l]\<rparr>) = (x, d1)"
    by (rule prod.exhaust)
  note defs = begin_invocation_attempt_def Let_def m_def l_def fp_def e_def
  show ?thesis
  proof (cases "account_active d a")
    case True
    with None r show ?thesis
      by (cases x) (simp_all add: that(1) [of "projl x"] that(2) [of d1] defs)
  next
    case False
    then show ?thesis by (intro that(1)) (simp add: defs)
  qed
next
  case (Some r)
  show ?thesis
  proof (cases "account_active d a")
    case active: True
    let ?d = "update_event (started a e) (\<lambda>v. v\<lparr>ve_outcome := Ambiguous\<rparr>) d"
    note defs = begin_invocation_attempt_def Let_def m_def l_def fp_def e_def replay_admission_outcome started_def [abs_def]
    show ?thesis
    proof (cases "ve_outcome r = Started")
      case True
      show ?thesis
      proof (cases "refresh_coverage now a ?d")
        case (Pair x d1)
        show ?thesis
        proof (cases x)
          case (Inl err)
          with Pair Some active True show ?thesis by (intro that(1) [of err]) (simp add: defs)
        next
          case (Inr u)
          with Pair Some active True show ?thesis by (intro that(3) [of r d1]) (simp_all add: defs)
        qed
      qed
    next
      case False
      with Some active show ?thesis by (intro that(3) [of r d]) (simp_all add: defs)
    qed
  next
    case False
    then show ?thesis by (intro that(1)) (simp add: begin_invocation_attempt_def Let_def)
  qed
qed

lemma refresh_coverage_frame: "refresh_coverage now a d1 = (r, d2) \<Longrightarrow> ledger_frame d d1 \<Longrightarrow> ledger_frame d d2"
  by (auto dest: refresh_coverage_Inr intro: ledger_frame_trans)

lemma ledger_frame_step: "ledger_frame d (usage_step sha x d)"
proof (cases x)
  case (BeginAttempt now a p m l c i)
  show ?thesis
  proof (cases rule: begin_attempt_cases [of sha now a p m l c i d])
    case (replayed r d1)
    then show ?thesis by (auto simp: BeginAttempt split: if_splits intro: refresh_coverage_frame)
  qed (auto simp: BeginAttempt intro: refresh_coverage_frame)
next
  case (BeginInvocation now a p m l c)
  show ?thesis
    by (cases rule: begin_invocation_cases [of sha now a p m l c d])
      (auto simp: BeginInvocation intro: refresh_coverage_frame)
next
  case (CompleteDelivery now a c es)
  then show ?thesis
    using ledger_frame_complete_each [of d a c es]
    by (auto simp: complete_delivery_def ledger_frame_refreshed split: sum.split prod.split)
next
  case (ClaimCoverage now r a b)
  then show ?thesis
    by (simp add: pending_coverage_def Let_def ledger_frame_def update_coverage_def close_past_periods_def split: option.split)
qed (auto simp: settle_response_def settle_ambiguous_def settle_not_billed_def settle_pre_egress_not_billed_def
    settle_simple_outcome_def Let_def ledger_frame_refreshed ledger_frame_pending ledger_frame_fold note_delivery_failure_def
    persist_coverage_snapshot_def complete_coverage_def invalidate_stale_coverage_def split: option.split prod.split)

end
