(* ===== verification/Usage_Ledger.thy ===== *)
theory Usage_Ledger
  imports Model_Usage
begin

text \<open>
  What the invocation ledger of \<open>Model_Usage\<close> promises: the life of an event, the invariant of its
  rows, and the behaviour of the billing outbox.
\<close>

section \<open>The life of an event\<close>

type_synonym event_view = "(outcome \<times> delivery_state) option"

definition row_view :: "event_row \<Rightarrow> outcome \<times> delivery_state" where
  "row_view r = (ve_outcome r, ve_delivery r)"

definition event_view :: "string \<Rightarrow> string \<Rightarrow> db \<Rightarrow> event_view" where
  "event_view a e d = map_option row_view (find_event a e d)"

text \<open>
  An invocation is announced, settled once, and then leaves the outbox once, as what it was settled
  to be or, when its model names cannot be billed, as one of unknown usage.
\<close>

inductive usage_life :: "event_view \<Rightarrow> event_view \<Rightarrow> bool" where
  intent: "usage_life None (Some (Started, Pending))"
| settle: "w \<noteq> Started \<Longrightarrow> w \<noteq> NotBilled \<Longrightarrow> usage_life (Some (Started, Pending)) (Some (w, Pending))"
| not_billed: "usage_life (Some (Started, Pending)) (Some (NotBilled, Delivered))"
| deliver: "w \<noteq> Started \<Longrightarrow> usage_life (Some (w, Pending)) (Some (w, Delivered))"
| poison: "w \<noteq> Started \<Longrightarrow> usage_life (Some (w, Pending)) (Some (UsageMissing, Delivered))"

inductive_simps usage_life_delivered [simp]: "usage_life (Some (w, Delivered)) y"

lemmas usage_life_step = usage_life.intros [THEN r_into_rtranclp [of usage_life]]

lemma delivered_is_final:
  assumes "usage_life\<^sup>*\<^sup>* (Some (w, Delivered)) y"
  shows "y = Some (w, Delivered)"
  using assms by (induction rule: rtranclp_induct) auto

section \<open>The invariant of the rows\<close>

definition event_ok :: "event_row \<Rightarrow> bool" where
  "event_ok r \<longleftrightarrow>
     (ve_outcome r = Started \<longrightarrow> ve_delivery r = Pending)
   \<and> (ve_outcome r = NotBilled \<longrightarrow> ve_delivery r = Delivered)
   \<and> (ve_claim r \<noteq> None \<longrightarrow> ve_outcome r \<noteq> Started \<and> ve_delivery r = Pending)
   \<and> (ve_outcome r = Metered \<longrightarrow> ve_returned_model r \<noteq> None)
   \<and> (\<forall>m. ve_returned_model r = Some m \<longrightarrow> vertex_model_name_is_billing_safe m)
   \<and> status_ok (ve_http_status r)
   \<and> list_all (\<lambda>c. \<not> negative (snd c)) (token_columns (ve_tokens r))"

definition event_key :: "event_row \<Rightarrow> string \<times> string" where
  "event_key r = (ve_account r, ve_event r)"

definition events_ok :: "db \<Rightarrow> bool" where
  "events_ok d \<longleftrightarrow> distinct (map event_key (vertex_events d)) \<and> (\<forall>r\<in>set (vertex_events d). event_ok r)"

lemma is_event_key: "is_event a e r \<longleftrightarrow> event_key r = (a, e)"
  by (simp add: is_event_def event_key_def)

lemma find_event_lookup: "find_event a e d = lookup_row event_key (a, e) (vertex_events d)"
  by (simp add: find_event_def lookup_row_def is_event_key [abs_def])

text \<open>A step that keeps the invariant and moves every event along its life.\<close>

definition refines :: "db \<Rightarrow> db \<Rightarrow> bool" where
  "refines d d' \<longleftrightarrow> (events_ok d \<longrightarrow> events_ok d' \<and> (\<forall>a e. usage_life\<^sup>*\<^sup>* (event_view a e d) (event_view a e d')))"

lemma refines_refl [simp, intro]: "refines d d"
  by (simp add: refines_def)

lemma refines_trans: "refines d d1 \<Longrightarrow> refines d1 d2 \<Longrightarrow> refines d d2"
  unfolding refines_def by (meson rtranclp_trans)

lemma refines_same: "vertex_events d' = vertex_events d \<Longrightarrow> refines d d'"
  by (simp add: refines_def events_ok_def event_view_def find_event_def)

definition good_update :: "(event_row \<Rightarrow> bool) \<Rightarrow> (event_row \<Rightarrow> event_row) \<Rightarrow> db \<Rightarrow> bool" where
  "good_update P f d \<longleftrightarrow> (\<forall>r\<in>set (vertex_events d). event_ok r \<longrightarrow> P r \<longrightarrow>
     event_ok (f r) \<and> usage_life\<^sup>*\<^sup>* (Some (row_view r)) (Some (row_view (f r))))"

lemma refines_update:
  assumes "vertex_events d' = update_rows P f (vertex_events d)" "\<And>r. event_key (f r) = event_key r"
    and "events_ok d \<Longrightarrow> good_update P f d"
  shows "refines d d'"
  unfolding refines_def
proof (intro impI conjI allI)
  assume ok: "events_ok d"
  then have good: "good_update P f d" by (rule assms(3))
  show "events_ok d'"
    using ok good by (auto simp: events_ok_def assms(1) map_update_rows assms(2) set_update_rows good_update_def)
  fix a e
  have f: "find_event a e d' = map_option (\<lambda>r. if P r then f r else r) (find_event a e d)"
    by (simp add: find_event_lookup assms(1) lookup_row_update assms(2))
  show "usage_life\<^sup>*\<^sup>* (event_view a e d) (event_view a e d')"
  proof (cases "find_event a e d")
    case (Some r)
    then have "r \<in> set (vertex_events d)" by (auto simp: find_event_lookup dest: lookup_row_Some)
    with Some f ok good show ?thesis by (auto simp: event_view_def events_ok_def good_update_def)
  qed (simp add: f event_view_def)
qed

lemma refines_append:
  assumes "find_event a e d = None" "vertex_events d' = vertex_events d @ [new_event now a e fp p m l]"
  shows "refines d d'"
  unfolding refines_def
proof (intro impI conjI allI)
  let ?n = "new_event now a e fp p m l"
  have n: "event_key ?n = (a, e)" "event_ok ?n" "row_view ?n = (Started, Pending)"
    by (simp_all add: new_event_def event_key_def event_ok_def row_view_def status_ok_def token_columns_def no_tokens_def
        negative_def)
  have fresh: "(a, e) \<notin> event_key ` set (vertex_events d)"
    using assms(1) by (simp add: find_event_lookup lookup_row_None)
  assume "events_ok d"
  with fresh n show "events_ok d'" by (auto simp: events_ok_def assms(2))
  fix a1 e1
  show "usage_life\<^sup>*\<^sup>* (event_view a1 e1 d) (event_view a1 e1 d')"
    by (cases "(a1, e1) = (a, e)")
      (auto simp: event_view_def find_event_lookup assms(2) lookup_row_append n usage_life_step split: option.split)
qed

lemma refines_refreshed: "refines d d1 \<Longrightarrow> refines d (snd (refreshed now a d d1))"
  by (cases rule: refreshed_cases [of now a d d1])
    (auto dest: refresh_coverage_Inr intro: refines_trans [OF _ refines_same])

section \<open>Refinement, operation by operation\<close>

lemma refines_begin: "refines d (snd (begin_invocation sha now a p m l c d))"
  by (cases rule: begin_invocation_cases [of sha now a p m l c d])
    (auto dest!: refresh_coverage_Inr intro: refines_append)

lemma refines_to_ambiguous:
  assumes "\<And>r. P r \<Longrightarrow> ve_outcome r = Started"
    "vertex_events d' = update_rows P (\<lambda>v. v\<lparr>ve_outcome := Ambiguous\<rparr>) (vertex_events d)"
  shows "refines d d'"
proof (rule refines_update [OF assms(2)])
  have "event_ok (r\<lparr>ve_outcome := Ambiguous\<rparr>) \<and> usage_life\<^sup>*\<^sup>* (Some (row_view r)) (Some (row_view (r\<lparr>ve_outcome := Ambiguous\<rparr>)))"
    if "event_ok r" "P r" for r
    using that(1) assms(1) [OF that(2)] by (auto simp: event_ok_def row_view_def usage_life_step)
  then show "good_update P (\<lambda>v. v\<lparr>ve_outcome := Ambiguous\<rparr>) d" by (simp add: good_update_def)
qed (simp add: event_key_def)

lemma refines_begin_attempt: "refines d (snd (begin_invocation_attempt sha now a p m l c i d))"
proof (cases rule: begin_attempt_cases [of sha now a p m l c i d])
  case (sent d1)
  then show ?thesis by (auto dest!: refresh_coverage_Inr intro: refines_append)
next
  case (replayed r d1)
  have "refines d d1"
  proof (cases "ve_outcome r = Started")
    case True
    with replayed(4) have "vertex_events d1 =
        update_rows (started a (vertex_attempt_event_id sha i)) (\<lambda>v. v\<lparr>ve_outcome := Ambiguous\<rparr>) (vertex_events d)"
      by (simp add: update_event_def) (drule refresh_coverage_Inr, simp)
    then show ?thesis by (rule refines_to_ambiguous [rotated]) (simp add: started_def)
  next
    case False
    with replayed(4) show ?thesis by simp
  qed
  with replayed(3) show ?thesis by simp
qed simp

lemma refines_settle_simple:
  assumes "w \<noteq> Started" "w = NotBilled \<longleftrightarrow> dl = Delivered" "w \<noteq> Metered"
  shows "refines d (snd (settle_simple_outcome now a e w dl s d))"
proof -
  let ?hit = "\<lambda>v. is_event a e v \<and> ve_outcome v = Started"
  have "usage_life\<^sup>*\<^sup>* (Some (Started, Pending)) (Some (w, dl))"
    using assms by (cases dl) (auto intro: usage_life_step)
  then have "refines d (update_event ?hit (\<lambda>v. v\<lparr>ve_outcome := w, ve_delivery := dl, ve_http_status := s\<rparr>) d)"
    if "status_ok s"
    using assms that
    by (intro refines_update [where P = ?hit and f = "\<lambda>v. v\<lparr>ve_outcome := w, ve_delivery := dl, ve_http_status := s\<rparr>"])
      (auto simp: update_event_def event_key_def good_update_def event_ok_def row_view_def)
  then show ?thesis
    by (auto simp: settle_simple_outcome_def Let_def intro!: refines_refreshed split: option.split)
qed

lemma normalized_model_safe:
  "normalized_billable_response m = (model, n) \<Longrightarrow>
   (\<forall>x. model = Some x \<longrightarrow> vertex_model_name_is_billing_safe x) \<and> (n \<noteq> None \<longrightarrow> model \<noteq> None)"
  by (auto simp: normalized_billable_response_def Let_def split: option.splits if_splits)

lemma usage_tokens_natural: "list_all (\<lambda>c. \<not> negative (snd c)) (token_columns (usage_tokens u))"
proof -
  have "\<not> negative (to_i64 v)" for v by (simp add: negative_def to_i64_def split: option.split)
  then show ?thesis by (simp add: token_columns_def usage_tokens_def)
qed

lemma refines_settle_response: "refines d (snd (settle_response now a e m d))"
proof -
  obtain model n where nb: "normalized_billable_response m = (model, n)" by (rule prod.exhaust)
  let ?hit = "\<lambda>v. is_event a e v \<and> ve_outcome v = Started"
  let ?w = "if n \<noteq> None then Metered else UsageMissing"
  let ?f = "\<lambda>v. v\<lparr>ve_returned_model := model, ve_traffic := normalized_traffic_type (vm_traffic_type m),
    ve_http_status := Some 200, ve_tokens := usage_tokens (case n of Some u \<Rightarrow> u | None \<Rightarrow> default_usage),
    ve_outcome := ?w\<rparr>"
  have "refines d (update_event ?hit ?f d)"
  proof (rule refines_update [where P = ?hit and f = ?f])
    show "good_update ?hit ?f d"
      using normalized_model_safe [OF nb]
      by (auto simp: good_update_def event_ok_def row_view_def usage_tokens_natural status_ok_def usage_life_step
          split: if_splits)
  qed (simp_all add: update_event_def event_key_def)
  then show ?thesis
    by (auto simp: settle_response_def Let_def nb intro!: refines_refreshed split: option.split)
qed

lemma one_of_rows:
  assumes "events_ok d" "collect_res (event_from_row b) (outbox_rows now a d) = Inr es" "r \<in> set (vertex_events d)"
    and "one_of a es r"
  shows "claimable now a r"
proof -
  have "ue_event ` set es = ve_event ` set (outbox_rows now a d)"
    using collected_ids [OF assms(2)] by (metis set_map)
  with assms(4) obtain q where q: "q \<in> set (outbox_rows now a d)" "ve_event r = ve_event q" "ve_account r = a"
    by (auto simp: one_of_def)
  from set_outbox_rows [OF q(1)] have "q \<in> set (vertex_events d)" "claimable now a q" by simp_all
  moreover from this q have "r = q"
    using assms(1,3) by (intro key_unique [of event_key "vertex_events d"]) (auto simp: events_ok_def event_key_def claimable_def)
  ultimately show ?thesis by simp
qed

lemma one_of_filter: "one_of a (filter P es) r \<Longrightarrow> one_of a es r"
  by (auto simp: one_of_def)

lemma poisoned_ok:
  "event_ok r \<Longrightarrow> claimable now a r \<Longrightarrow> event_ok (poisoned r) \<and> usage_life\<^sup>*\<^sup>* (Some (row_view r)) (Some (row_view (poisoned r)))"
  by (auto simp: event_ok_def poisoned_def claimable_def row_view_def token_columns_def no_tokens_def negative_def
      usage_life_step)

lemma refines_poison:
  assumes "collect_res (event_from_row b) (outbox_rows now a d) = Inr es"
  shows "refines d (poison_all now a (filter P es) d)"
proof (rule refines_update [OF poison_all_events])
  show "good_update (one_of a (filter P es)) poisoned d" if "events_ok d"
    unfolding good_update_def
  proof (intro ballI impI)
    fix r assume r: "r \<in> set (vertex_events d)" "event_ok r" "one_of a (filter P es) r"
    from poisoned_ok [OF r(2) one_of_rows [OF that assms r(1) one_of_filter [OF r(3)]]]
    show "event_ok (poisoned r) \<and> usage_life\<^sup>*\<^sup>* (Some (row_view r)) (Some (row_view (poisoned r)))" .
  qed
qed (simp add: event_key_def poisoned_def)

lemma refines_poison_rounds: "(poison_round now a b)\<^sup>*\<^sup>* d d1 \<Longrightarrow> refines d d1"
proof (induction rule: rtranclp_induct)
  case (step d1 d2)
  then obtain es where "collect_res (event_from_row b) (outbox_rows now a d1) = Inr es" "d2 = poison_all now a es d1"
    by (auto simp: poison_round_def)
  with refines_poison [OF this(1), where P = "\<lambda>_. True"] step show ?case by (auto intro: refines_trans)
qed simp

lemma outbox_event_unique:
  assumes "events_ok d" "r \<in> set (outbox_rows now a d)" "q \<in> set (outbox_rows now a d)" "ve_event r = ve_event q"
  shows "r = q"
proof -
  have "r \<in> set (vertex_events d)" "claimable now a r" "q \<in> set (vertex_events d)" "claimable now a q"
    using set_outbox_rows [OF assms(2)] set_outbox_rows [OF assms(3)] by simp_all
  then show ?thesis
    using assms(1,4) by (intro key_unique [of event_key "vertex_events d"]) (auto simp: events_ok_def event_key_def claimable_def)
qed

lemma distinct_outbox:
  assumes "events_ok d"
  shows "distinct (map ve_event (outbox_rows now a d))"
proof -
  have "distinct (vertex_events d)" using assms by (simp add: events_ok_def distinct_map)
  then have "distinct (outbox_rows now a d)" by (simp add: outbox_rows_def)
  then show ?thesis using outbox_event_unique [OF assms] by (simp add: distinct_map inj_on_def)
qed

lemma collected_distinct:
  assumes "events_ok d" "collect_res (event_from_row b) (outbox_rows now a d) = Inr es"
  shows "distinct (map ue_event es)"
  using distinct_outbox [OF assms(1)] collected_ids [OF assms(2)] by simp

lemma deliverable_row:
  assumes "events_ok d" "collect_res (event_from_row b) (outbox_rows now a d) = Inr es"
    and "r \<in> set (vertex_events (poison_all now a (filter (Not \<circ> event_models_are_safe) es) d))"
    and "one_of a (filter event_models_are_safe es) r"
  shows "claimable now a r \<and> r \<in> set (vertex_events d)"
proof -
  have disj: "\<not> one_of a (filter (Not \<circ> event_models_are_safe) es) q" if "ve_event q = ve_event r" for q
    using assms(4) that collected_distinct [OF assms(1,2)]
    by (auto simp: one_of_def distinct_map inj_on_def)
  from assms(3) have "r \<in> set (vertex_events d) \<or>
      (\<exists>q. r = poisoned q \<and> one_of a (filter (Not \<circ> event_models_are_safe) es) q)"
    by (auto simp: poison_all_events set_update_rows)
  moreover have "ve_event q = ve_event r" if "r = poisoned q" for q using that by (simp add: poisoned_def)
  ultimately have "r \<in> set (vertex_events d)" using disj by blast
  with one_of_rows [OF assms(1,2) _ one_of_filter [OF assms(4)]] show ?thesis by simp
qed

lemma refines_claim_round:
  assumes "claim_round now random a b es d d1"
  shows "refines d d1"
proof -
  let ?s = "filter event_models_are_safe es" and ?p = "filter (Not \<circ> event_models_are_safe) es"
  let ?d = "poison_all now a ?p d"
  from assms have c: "collect_res (event_from_row b) (outbox_rows now a d) = Inr es"
    and d1: "d1 = claim_all now a random ?s ?d" by (simp_all add: claim_round_def)
  have "refines ?d d1" if "events_ok d" unfolding d1
  proof (rule refines_update [OF claim_all_events])
    show "good_update (one_of a ?s) (claimed_by now random) ?d"
      unfolding good_update_def
    proof (intro ballI impI)
      fix r assume r: "r \<in> set (vertex_events ?d)" "event_ok r" "one_of a ?s r"
      from deliverable_row [OF that c r(1,3)] r(2)
      show "event_ok (claimed_by now random r) \<and> usage_life\<^sup>*\<^sup>* (Some (row_view r)) (Some (row_view (claimed_by now random r)))"
        by (simp add: claimable_def event_ok_def claimed_by_def row_view_def)
    qed
  qed (simp add: event_key_def claimed_by_def)
  with refines_poison [OF c] show ?thesis
    unfolding refines_def by (meson rtranclp_trans)
qed

lemma refines_pending: "refines d (snd (pending_events now random a b force d))"
proof (cases "pending_events now random a b force d")
  case (Pair r d')
  have g: "refines d (gave_up now a force d)"
    by (rule refines_to_ambiguous [where P = "give_up now a force"]) (simp_all add: gave_up_def update_event_def give_up_def)
  show ?thesis
  proof (cases r)
    case (Inl err)
    with Pair show ?thesis using pending_events_Inl by fastforce
  next
    case (Inr x)
    with Pair have "pending_events now random a b force d = (Inr x, d')" by simp
    then show ?thesis
    proof (cases rule: pending_events_result)
      case (1 d1)
      with g refines_poison_rounds [OF 1(1)] show ?thesis
        by (auto simp: Pair intro: refines_trans [OF _ refines_trans [OF _ refines_same]])
    next
      case (2 d1 d2 es)
      with g refines_poison_rounds [OF 2(1)] refines_claim_round [OF 2(2)] show ?thesis
        by (auto simp: Pair intro: refines_trans [OF _ refines_trans [OF _ refines_trans [OF _ refines_same]]])
    qed
  qed
qed

lemma holds_claim_ok: "event_ok r \<Longrightarrow> holds_claim a e c r \<Longrightarrow> ve_outcome r \<noteq> Started \<and> ve_delivery r = Pending"
  by (auto simp: holds_claim_def event_ok_def)

lemma refines_complete_each: "refines d (snd (complete_each a c es d))"
proof (induction a c es d rule: complete_each.induct)
  case (2 a c e es d)
  let ?d = "update_event (holds_claim a e c) (\<lambda>v. v\<lparr>ve_delivery := Delivered, ve_claim := None\<rparr>) d"
  have "refines d ?d"
  proof (rule refines_update [where P = "holds_claim a e c" and f = "\<lambda>v. v\<lparr>ve_delivery := Delivered, ve_claim := None\<rparr>"])
    have "event_ok (r\<lparr>ve_delivery := Delivered, ve_claim := None\<rparr>) \<and>
       usage_life\<^sup>*\<^sup>* (Some (row_view r)) (Some (row_view (r\<lparr>ve_delivery := Delivered, ve_claim := None\<rparr>)))"
      if "event_ok r" "holds_claim a e c r" for r
      using that(1) holds_claim_ok [OF that] by (auto simp: event_ok_def row_view_def usage_life_step)
    then show "good_update (holds_claim a e c) (\<lambda>v. v\<lparr>ve_delivery := Delivered, ve_claim := None\<rparr>) d"
      by (simp add: good_update_def)
  qed (simp_all add: update_event_def event_key_def)
  with 2 show ?case by (auto intro: refines_trans)
qed simp

lemma refines_note_failure: "refines d (note_failure a c e d)"
proof (rule refines_update [where P = "holds_claim a e c" and f = "\<lambda>v. v\<lparr>ve_attempts := ve_attempts v + 1, ve_claim := None\<rparr>"])
  show "good_update (holds_claim a e c) (\<lambda>v. v\<lparr>ve_attempts := ve_attempts v + 1, ve_claim := None\<rparr>) d"
    by (simp add: good_update_def event_ok_def row_view_def)
qed (simp_all add: note_failure_def update_event_def event_key_def)

lemma refines_fold: "(\<And>x d. refines d (f x d)) \<Longrightarrow> refines d (fold f xs d)"
  by (induction xs arbitrary: d) (auto intro: refines_trans)

lemma coverage_ops_events [simp]:
  "vertex_events (snd (pending_coverage now r a b d)) = vertex_events d"
  "vertex_events (snd (persist_coverage_snapshot a c p q d)) = vertex_events d"
  "vertex_events (snd (complete_coverage now a c t n d)) = vertex_events d"
  "vertex_events (snd (invalidate_stale_coverage now a c t n d)) = vertex_events d"
  by (simp_all add: pending_coverage_def persist_coverage_snapshot_def complete_coverage_def invalidate_stale_coverage_def
      Let_def update_coverage_def close_past_periods_def split: option.split)

lemma refines_usage_step: "refines d (usage_step sha x d)"
proof (cases x)
  case (CompleteDelivery now a c es)
  then show ?thesis using refines_complete_each [of d a c es]
    by (auto simp: complete_delivery_def refines_refreshed split: sum.split prod.split)
next
  case (DeliveryFailed a c es)
  then show ?thesis using refines_fold [of "note_failure a c"] refines_note_failure by (simp add: note_delivery_failure_def)
qed (auto simp: refines_begin refines_begin_attempt refines_settle_response refines_settle_simple refines_pending
    settle_ambiguous_def settle_not_billed_def settle_pre_egress_not_billed_def intro!: refines_same)

section \<open>The outbox makes progress\<close>

lemma event_from_row_total: "event_ok r \<Longrightarrow> \<exists>e. event_from_row b r = Inr e"
proof -
  assume ok: "event_ok r"
  then have "List.find (\<lambda>c. negative (snd c)) (token_columns (ve_tokens r)) = None"
    by (force simp: find_None_iff event_ok_def list_all_iff)
  moreover have "case ve_http_status r of None \<Rightarrow> True | Some n \<Rightarrow> 0 \<le> n \<and> n < 65536"
    using ok by (auto simp: event_ok_def status_ok_def split: option.splits)
  ultimately show ?thesis by (simp add: event_from_row_def)
qed

lemma collect_total: "(\<And>x. x \<in> set xs \<Longrightarrow> \<exists>y. f x = Inr y) \<Longrightarrow> \<exists>ys. collect_res f xs = Inr ys"
  by (induction xs) (fastforce split: sum.split)+

lemma outbox_collected: "events_ok d \<Longrightarrow> \<exists>es. collect_res (event_from_row b) (outbox_rows now a d) = Inr es"
  using set_outbox_rows [of _ now a d] event_from_row_total by (intro collect_total) (auto simp: events_ok_def)

lemma refresh_if_total: "has_account a d \<Longrightarrow> \<exists>d'. refresh_if dirty now a d = (Inr (), d')"
  by (simp add: refresh_if_def refresh_coverage_def Let_def)

lemma has_account_frame: "ledger_frame d d' \<Longrightarrow> has_account a d' = has_account a d"
proof -
  assume "ledger_frame d d'"
  then obtain x y where "d' = d\<lparr>vertex_events := x, vertex_coverage := y\<rparr>" unfolding ledger_frame_def by blast
  then show ?thesis by (simp add: has_account_def)
qed

lemma events_ok_refines: "refines d d' \<Longrightarrow> events_ok d \<Longrightarrow> events_ok d'"
  by (simp add: refines_def)

lemma pending_loop_total:
  "events_ok d \<Longrightarrow> has_account a d \<Longrightarrow> \<exists>r d'. pending_loop now random a b dirty d = (Inr r, d')"
proof (induction now random a b dirty d rule: pending_loop.induct)
  case (1 now random a b dirty d)
  show ?case
  proof (cases "outbox_rows now a d = []")
    case True
    obtain d' where "refresh_if dirty now a d = (Inr (), d')" using refresh_if_total [OF "1.prems"(2)] by blast
    with True show ?thesis by (subst pending_loop.simps) simp
  next
    case ne: False
    obtain es where es: "collect_res (event_from_row b) (outbox_rows now a d) = Inr es"
      using outbox_collected [OF "1.prems"(1)] by blast
    let ?p = "filter (Not \<circ> event_models_are_safe) es"
    let ?d1 = "poison_all now a ?p d"
    show ?thesis
    proof (cases "filter event_models_are_safe es = []")
      case True
      have "\<exists>r d'. pending_loop now random a b (dirty \<or> ?p \<noteq> []) ?d1 = (Inr r, d')"
        using "1.prems" refines_poison [OF es] has_account_frame [OF ledger_frame_all(1)]
        by (intro "1.IH" [OF refl ne es refl _ refl refl True]) (auto intro: events_ok_refines)
      with ne es True show ?thesis by (subst pending_loop.simps) simp
    next
      case False
      let ?d2 = "claim_all now a random (filter event_models_are_safe es) ?d1"
      have "has_account a ?d2"
        using "1.prems"(2) by (simp add: has_account_frame [OF ledger_frame_all(1)] has_account_frame [OF ledger_frame_all(2)])
      from refresh_if_total [OF this] obtain d' where "refresh_if (dirty \<or> ?p \<noteq> []) now a ?d2 = (Inr (), d')" by blast
      with ne es False show ?thesis by (subst pending_loop.simps) simp
    qed
  qed
qed

lemma gave_up_frame: "ledger_frame d (gave_up now a force d)" "refines d (gave_up now a force d)"
proof -
  show "ledger_frame d (gave_up now a force d)" by (simp add: gave_up_def)
  show "refines d (gave_up now a force d)"
    by (rule refines_to_ambiguous [where P = "give_up now a force"]) (simp_all add: gave_up_def update_event_def give_up_def)
qed

lemma outbox_empty: "outbox_rows now a d = [] \<Longrightarrow> r \<in> set (vertex_events d) \<Longrightarrow> \<not> claimable now a r"
  by (auto simp: outbox_rows_def OUTBOX_BATCH_def filter_empty_conv dest: arg_cong [of _ _ set])

text \<open>Events whose requested model can be billed keep their place in the outbox.\<close>

definition keeps_billable :: "db \<Rightarrow> db \<Rightarrow> bool" where
  "keeps_billable d d' \<longleftrightarrow> (\<forall>q\<in>set (vertex_events d). vertex_model_name_is_billing_safe (ve_requested_model q) \<longrightarrow>
     (\<exists>q'\<in>set (vertex_events d'). event_key q' = event_key q \<and> ve_requested_model q' = ve_requested_model q
        \<and> ve_delivery q' = ve_delivery q))"

lemma keeps_billable_trans: "keeps_billable d d1 \<Longrightarrow> keeps_billable d1 d2 \<Longrightarrow> keeps_billable d d2"
  unfolding keeps_billable_def by metis

lemma keeps_billable_update:
  assumes "vertex_events d' = update_rows P f (vertex_events d)"
    and "\<And>q. q \<in> set (vertex_events d) \<Longrightarrow> P q \<Longrightarrow> vertex_model_name_is_billing_safe (ve_requested_model q) \<Longrightarrow>
      event_key (f q) = event_key q \<and> ve_requested_model (f q) = ve_requested_model q \<and> ve_delivery (f q) = ve_delivery q"
  shows "keeps_billable d d'"
  unfolding keeps_billable_def
proof (intro ballI impI)
  fix q assume q: "q \<in> set (vertex_events d)" "vertex_model_name_is_billing_safe (ve_requested_model q)"
  let ?q = "if P q then f q else q"
  have "?q \<in> set (vertex_events d')" using q(1) by (auto simp: assms(1) update_rows_def)
  moreover have "event_key ?q = event_key q \<and> ve_requested_model ?q = ve_requested_model q \<and> ve_delivery ?q = ve_delivery q"
    using assms(2) [OF q(1) _ q(2)] by simp
  ultimately show "\<exists>q'\<in>set (vertex_events d'). event_key q' = event_key q \<and> ve_requested_model q' = ve_requested_model q
      \<and> ve_delivery q' = ve_delivery q" by blast
qed

lemma unsafe_requested:
  assumes "event_ok r" "event_from_row b r = Inr e" "\<not> event_models_are_safe e"
  shows "\<not> vertex_model_name_is_billing_safe (ve_requested_model r)"
proof -
  from assms(2) have "ue_requested_model e = ve_requested_model r" "ue_returned_model e = ve_returned_model r"
    "ue_outcome e = outcome_text (ve_outcome r)"
    by (auto simp: event_from_row_def split: if_splits option.splits)
  with assms(1,3) show ?thesis
    by (cases "ve_outcome r") (auto simp: event_models_are_safe_def event_ok_def outcome_text_def split: option.splits)
qed

lemma collected_row:
  assumes "collect_res f rows = Inr es" "e \<in> set es"
  shows "\<exists>r\<in>set rows. f r = Inr e"
proof -
  have "map f rows = map Inr es" using assms(1) by (simp add: collect_res_Inr)
  then have "Inr ` set es = f ` set rows" by (metis set_map)
  with assms(2) show ?thesis by force
qed

lemma poison_rows_unsafe:
  assumes "events_ok d" "collect_res (event_from_row b) (outbox_rows now a d) = Inr es"
    and "one_of a (filter (Not \<circ> event_models_are_safe) es) q" "q \<in> set (vertex_events d)"
  shows "\<not> vertex_model_name_is_billing_safe (ve_requested_model q)"
proof -
  from assms(3) obtain e where e: "e \<in> set es" "\<not> event_models_are_safe e" "ue_event e = ve_event q" "ve_account q = a"
    by (auto simp: one_of_def)
  from collected_row [OF assms(2) e(1)] obtain r where
    r: "r \<in> set (outbox_rows now a d)" "event_from_row b r = Inr e" by blast
  from set_outbox_rows [OF r(1)] have rs: "r \<in> set (vertex_events d)" "ve_account r = a" by (simp_all add: claimable_def)
  then have "q = r"
    using assms(1,4) e event_from_row_id [OF r(2)]
    by (intro key_unique [of event_key "vertex_events d"]) (auto simp: events_ok_def event_key_def)
  with unsafe_requested [OF _ r(2) e(2)] assms(1) rs show ?thesis by (simp add: events_ok_def)
qed

lemma keeps_billable_poison:
  assumes "events_ok d" "collect_res (event_from_row b) (outbox_rows now a d) = Inr es"
  shows "keeps_billable d (poison_all now a (filter (Not \<circ> event_models_are_safe) es) d)"
  by (rule keeps_billable_update [OF poison_all_events]) (use poison_rows_unsafe [OF assms] in blast)

lemma keeps_billable_rounds: "(poison_round now a b)\<^sup>*\<^sup>* d d1 \<Longrightarrow> events_ok d \<Longrightarrow> keeps_billable d d1"
proof (induction rule: rtranclp_induct)
  case base
  then show ?case by (auto simp: keeps_billable_def)
next
  case (step d1 d2)
  then obtain es where es: "collect_res (event_from_row b) (outbox_rows now a d1) = Inr es"
    "filter event_models_are_safe es = []" "d2 = poison_all now a es d1"
    by (auto simp: poison_round_def)
  have "events_ok d1" using events_ok_refines [OF refines_poison_rounds [OF step(1)] step.prems] .
  from keeps_billable_poison [OF this es(1)] es(3) step show ?case
    by (simp only: all_poison [OF es(2)]) (blast intro: keeps_billable_trans)
qed

lemma keeps_billable_claim:
  assumes "events_ok d" "claim_round now random a b es d d1"
  shows "keeps_billable d d1"
proof -
  from assms(2) have c: "collect_res (event_from_row b) (outbox_rows now a d) = Inr es"
    and d1: "d1 = claim_all now a random (filter event_models_are_safe es)
      (poison_all now a (filter (Not \<circ> event_models_are_safe) es) d)" by (simp_all add: claim_round_def)
  show ?thesis unfolding d1
    by (rule keeps_billable_trans [OF keeps_billable_poison [OF assms(1) c]],
        rule keeps_billable_update [OF claim_all_events]) (simp add: claimed_by_def event_key_def)
qed

lemma keeps_billable_pending:
  assumes "events_ok d" "pending_events now random a b force d = (Inr r, d')"
  shows "keeps_billable d d'"
proof -
  let ?d = "gave_up now a force d"
  have g: "keeps_billable d ?d"
    by (rule keeps_billable_update [where P = "give_up now a force" and f = "\<lambda>v. v\<lparr>ve_outcome := Ambiguous\<rparr>"])
      (simp_all add: gave_up_def update_event_def event_key_def)
  have ok: "events_ok ?d" using assms(1) by (rule events_ok_refines [OF gave_up_frame(2)])
  from assms(2) show ?thesis
  proof (cases rule: pending_events_result)
    case (1 d1)
    then show ?thesis using keeps_billable_trans [OF g keeps_billable_rounds [OF 1(1) ok]] by (simp add: keeps_billable_def)
  next
    case (2 d1 d2 es)
    have "events_ok d1" using events_ok_refines [OF refines_poison_rounds [OF 2(1)] ok] .
    from keeps_billable_trans [OF g keeps_billable_trans [OF keeps_billable_rounds [OF 2(1) ok] keeps_billable_claim [OF this 2(2)]]] 2(4)
    show ?thesis by (simp add: keeps_billable_def)
  qed
qed

text \<open>C27. The billing outbox never gets stuck: for an existing account the transaction that
  fetches work always commits. It returns no batch only when nothing of the account is left to
  deliver that is not under another live claim, and it never takes an event off the outbox whose
  requested model can be billed.\<close>

theorem usage_outbox_progress:
  assumes "events_ok d" and "has_account a d"
  shows "\<exists>r d'. pending_events now random a b force d = (Inr r, d')
    \<and> (r = None \<longrightarrow> (\<forall>q\<in>set (vertex_events d'). \<not> claimable now a q))
    \<and> (\<forall>q\<in>set (vertex_events d). vertex_model_name_is_billing_safe (ve_requested_model q) \<longrightarrow>
        (\<exists>q'\<in>set (vertex_events d'). event_key q' = event_key q \<and> ve_delivery q' = ve_delivery q))"
proof -
  let ?d = "gave_up now a force d"
  have "events_ok ?d" "has_account a ?d"
    using assms events_ok_refines [OF gave_up_frame(2)] has_account_frame [OF gave_up_frame(1)] by simp_all
  then obtain r d' where "pending_loop now random a b (exists_row (give_up now a force) (vertex_events d)) ?d = (Inr r, d')"
    using pending_loop_total by blast
  then have p: "pending_events now random a b force d = (Inr r, d')"
    by (simp add: pending_events_def gave_up_def Let_def)
  have "r = None \<longrightarrow> (\<forall>q\<in>set (vertex_events d'). \<not> claimable now a q)"
    using p by (cases rule: pending_events_result) (auto dest: outbox_empty)
  with p keeps_billable_pending [OF assms(1) p] show ?thesis unfolding keeps_billable_def by blast
qed

definition usage_db :: db where
  "usage_db = empty_db\<lparr>accounts := [\<lparr>acc_id = ''a'', acc_email = ''e'', acc_status = Active,
     acc_provider = ''google'', acc_subject = ''s'', acc_created = 0\<rparr>],
     vertex_events := [(new_event 0 ''a'' ''e1'' [] AudioWindow ''m'' ''l'')\<lparr>ve_outcome := Ambiguous\<rparr>,
       new_event 0 ''a'' ''e2'' [] AudioWindow ''m'' ''l'',
       (new_event 0 ''a'' ''e3'' [] AudioWindow ''/'' ''l'')\<lparr>ve_outcome := Ambiguous\<rparr>]\<rparr>"

lemma usage_db_ok: "events_ok usage_db" "has_account ''a'' usage_db"
  by (simp_all add: usage_db_def empty_db_def events_ok_def event_key_def event_ok_def new_event_def status_ok_def
      token_columns_def no_tokens_def negative_def has_account_def)

theorem usage_outbox_progress_witness:
  "\<exists>r d'. pending_events 7 ''c'' ''a'' ''b'' False usage_db = (Inr r, d')
     \<and> (\<exists>q'\<in>set (vertex_events d'). event_key q' = (''a'', ''e1'') \<and> ve_delivery q' = Pending)"
proof -
  let ?q = "(new_event 0 ''a'' ''e1'' [] AudioWindow ''m'' ''l'')\<lparr>ve_outcome := Ambiguous\<rparr>"
  have q: "?q \<in> set (vertex_events usage_db)" by (simp add: usage_db_def)
  have k: "event_key ?q = (''a'', ''e1'')" "ve_delivery ?q = Pending" "ve_requested_model ?q = ''m''"
    by (simp_all add: new_event_def event_key_def)
  have m: "vertex_model_name_is_billing_safe ''m''"
    by (simp add: vertex_model_name_is_billing_safe_def is_ascii_alphanumeric_def)
  from usage_outbox_progress [OF usage_db_ok, of 7 "''c''" "''b''" False] q k m show ?thesis by metis
qed

lemma poison_round_shrinks:
  assumes "poison_round now a b d d1"
  shows "length (filter (claimable now a) (vertex_events d1)) < length (filter (claimable now a) (vertex_events d))"
  using assms poison_shrinks [of b now a d] by (auto simp: poison_round_def)

lemma poison_rounds_bounded:
  assumes "(poison_round now a b ^^ n) d d1"
  shows "n + length (filter (claimable now a) (vertex_events d1)) \<le> length (filter (claimable now a) (vertex_events d))"
  using assms
proof (induction n arbitrary: d1)
  case (Suc n)
  then obtain d0 where "(poison_round now a b ^^ n) d d0" "poison_round now a b d0 d1" by auto
  with Suc.IH [of d0] poison_round_shrinks [of now a b d0 d1] show ?case by simp
qed simp



section \<open>What a batch holds\<close>

lemma pending_before_poison:
  "(poison_round now a b)\<^sup>*\<^sup>* d d1 \<Longrightarrow> r \<in> set (vertex_events d1) \<Longrightarrow> ve_delivery r = Pending \<Longrightarrow> r \<in> set (vertex_events d)"
proof (induction rule: rtranclp_induct)
  case (step d1 d2)
  from step.prems step.hyps(2) have "r \<in> set (vertex_events d1)"
    by (auto simp: poison_round_def poison_all_events set_update_rows poisoned_def)
  with step show ?case by simp
qed simp

lemma before_giving_up:
  "r \<in> set (vertex_events (gave_up now a force d)) \<Longrightarrow> \<exists>q\<in>set (vertex_events d). event_key q = event_key r \<and> ve_claim q = ve_claim r"
  by (auto simp: gave_up_def update_event_def set_update_rows event_key_def)

lemma claimed_row:
  assumes "events_ok d" "claim_round now random a b es d d1" "e \<in> set (filter event_models_are_safe es)"
  obtains r where "r \<in> set (vertex_events d)" "claimable now a r" "event_from_row b r = Inr e"
    "claimed_by now random r \<in> set (vertex_events d1)"
proof -
  let ?s = "filter event_models_are_safe es" and ?p = "filter (Not \<circ> event_models_are_safe) es"
  from assms(2) have c: "collect_res (event_from_row b) (outbox_rows now a d) = Inr es"
    and d1: "d1 = claim_all now a random ?s (poison_all now a ?p d)" by (simp_all add: claim_round_def)
  from assms(3) have e: "e \<in> set es" by simp
  from collected_row [OF c e] obtain r where r: "r \<in> set (outbox_rows now a d)" "event_from_row b r = Inr e" by blast
  note rd = set_outbox_rows [OF r(1)]
  have id: "ve_event r = ue_event e" "ve_account r = a"
    using event_from_row_id [OF r(2)] rd by (simp_all add: claimable_def)
  have "one_of a ?s r" using assms(3) id by (auto simp: one_of_def)
  moreover have "\<not> one_of a ?p r"
    using collected_distinct [OF assms(1) c] assms(3) id by (auto simp: one_of_def distinct_map inj_on_def)
  ultimately have "claimed_by now random r \<in> set (vertex_events d1)"
    using rd by (auto simp: d1 claim_all_events poison_all_events set_update_rows)
  with that rd r(2) show ?thesis by blast
qed

lemma event_from_row_claimed: "event_from_row b (claimed_by now c r) = event_from_row b r"
  by (cases r) (simp only: event_from_row_def claimed_by_def event_row.select_convs event_row.update_convs)

lemma batch_size: "claim_round now random a b es d d1 \<Longrightarrow> length (filter event_models_are_safe es) \<le> OUTBOX_BATCH"
proof -
  assume "claim_round now random a b es d d1"
  then have "collect_res (event_from_row b) (outbox_rows now a d) = Inr es" by (simp add: claim_round_def)
  from collected_ids [OF this] have "map ue_event es = map ve_event (outbox_rows now a d)" .
  then have "length es \<le> OUTBOX_BATCH" by (metis length_map length_take min.cobounded2 outbox_rows_def)
  then show ?thesis using le_trans length_filter_le by blast
qed

text \<open>A batch of the billing outbox is between one and a hundred events with distinct ids
  whose model names can be billed. Each is settled, undelivered, and claimed by this batch for two
  minutes, and none of them was under another claim that had not expired.\<close>

theorem usage_outbox_batch:
  assumes "events_ok d" and "pending_events now random a b force d = (Inr (Some batch), d')"
  shows "ub_claim batch = random \<and> 1 \<le> length (ub_events batch) \<and> length (ub_events batch) \<le> OUTBOX_BATCH
    \<and> distinct (map ue_event (ub_events batch))
    \<and> (\<forall>e\<in>set (ub_events batch). event_models_are_safe e
        \<and> (\<exists>r\<in>set (vertex_events d'). ve_account r = a \<and> event_from_row b r = Inr e \<and> ve_outcome r \<noteq> Started
             \<and> ve_delivery r = Pending \<and> ve_claim r = Some (random, now + seconds CLAIM_SECONDS))
        \<and> (\<forall>q\<in>set (vertex_events d). is_event a (ue_event e) q \<longrightarrow> unclaimed now (ve_claim q)))"
proof -
  let ?d = "gave_up now a force d"
  from assms(2) obtain d1 d2 es where rounds: "(poison_round now a b)\<^sup>*\<^sup>* ?d d1" and claim: "claim_round now random a b es d1 d2"
    and batch: "batch = \<lparr>ub_claim = random, ub_events = filter event_models_are_safe es\<rparr>"
    and d': "vertex_events d' = vertex_events d2"
    by (cases rule: pending_events_result) auto
  have ok: "events_ok d1"
    using assms(1) by (intro events_ok_refines [OF refines_poison_rounds [OF rounds]] events_ok_refines [OF gave_up_frame(2)])
  have "event_models_are_safe e
        \<and> (\<exists>r\<in>set (vertex_events d'). ve_account r = a \<and> event_from_row b r = Inr e \<and> ve_outcome r \<noteq> Started
             \<and> ve_delivery r = Pending \<and> ve_claim r = Some (random, now + seconds CLAIM_SECONDS))
        \<and> (\<forall>q\<in>set (vertex_events d). is_event a (ue_event e) q \<longrightarrow> unclaimed now (ve_claim q))"
    if e: "e \<in> set (filter event_models_are_safe es)" for e
  proof -
    from claimed_row [OF ok claim e] obtain r where r: "r \<in> set (vertex_events d1)" "claimable now a r"
      "event_from_row b r = Inr e" "claimed_by now random r \<in> set (vertex_events d2)" .
    let ?r = "claimed_by now random r"
    have "event_from_row b ?r = Inr e" using r(3) by (simp add: event_from_row_claimed)
    moreover have "ve_account ?r = a" "ve_outcome ?r \<noteq> Started" "ve_delivery ?r = Pending"
      "ve_claim ?r = Some (random, now + seconds CLAIM_SECONDS)"
      using r(2) by (simp_all add: claimed_by_def claimable_def)
    moreover have "unclaimed now (ve_claim q)" if q: "q \<in> set (vertex_events d)" "is_event a (ue_event e) q" for q
    proof -
      have "r \<in> set (vertex_events ?d)"
        using pending_before_poison [OF rounds r(1)] r(2) by (simp add: claimable_def)
      then obtain q0 where q0: "q0 \<in> set (vertex_events d)" "event_key q0 = event_key r" "ve_claim q0 = ve_claim r"
        using before_giving_up by blast
      moreover have "event_key r = (a, ue_event e)"
        using r(2) event_from_row_id [OF r(3)] by (simp add: claimable_def event_key_def)
      ultimately have "q = q0"
        using assms(1) q by (intro key_unique [of event_key "vertex_events d"]) (auto simp: events_ok_def is_event_key)
      with q0(3) r(2) show ?thesis by (simp add: claimable_def)
    qed
    ultimately show ?thesis using e r(4) d' by auto
  qed
  moreover have "filter event_models_are_safe es \<noteq> []" using claim by (simp add: claim_round_def)
  moreover have "distinct (map ue_event (filter event_models_are_safe es))"
  proof -
    from claim have "collect_res (event_from_row b) (outbox_rows now a d1) = Inr es" by (simp add: claim_round_def)
    from collected_distinct [OF ok this] show ?thesis by (rule distinct_map_filter)
  qed
  ultimately show ?thesis using batch_size [OF claim] by (simp add: batch Suc_le_eq)
qed

theorem usage_outbox_batch_witness:
  "\<exists>batch d'. pending_events 7 ''c'' ''a'' ''b'' False usage_db = (Inr (Some batch), d')
     \<and> ub_claim batch = ''c'' \<and> map ue_event (ub_events batch) = [''e1''] \<and> length (ub_events batch) \<le> OUTBOX_BATCH"
proof -
  have "map_sum id (map_option (\<lambda>b. map ue_event (ub_events b)))
      (fst (pending_events 7 ''c'' ''a'' ''b'' False usage_db)) = Inr (Some [''e1''])"
    by code_simp
  then obtain batch d' where p: "pending_events 7 ''c'' ''a'' ''b'' False usage_db = (Inr (Some batch), d')"
    and e: "map ue_event (ub_events batch) = [''e1'']"
    by (cases "pending_events 7 ''c'' ''a'' ''b'' False usage_db"; cases "fst (pending_events 7 ''c'' ''a'' ''b'' False usage_db)")
      auto
  from usage_outbox_batch [OF usage_db_ok(1) p] have "ub_claim batch = ''c''" "length (ub_events batch) \<le> OUTBOX_BATCH"
    by simp_all
  with p e show ?thesis by (intro exI conjI)
qed



section \<open>Settlements are final\<close>

lemma find_event_update_event:
  "(\<And>r. event_key (f r) = event_key r) \<Longrightarrow>
   find_event a e (update_event P f d) = map_option (\<lambda>r. if P r then f r else r) (find_event a e d)"
  by (simp add: find_event_lookup update_event_def lookup_row_update)

lemma find_event_refresh: "vertex_events d' = vertex_events d \<Longrightarrow> find_event a e d' = find_event a e d"
  by (simp add: find_event_def)

lemma started_exists:
  assumes "events_ok d"
  shows "exists_row (\<lambda>v. is_event a e v \<and> ve_outcome v = Started) (vertex_events d) \<longleftrightarrow>
    (\<exists>r. find_event a e d = Some r \<and> ve_outcome r = Started)"
proof -
  have "distinct (map event_key (vertex_events d))" using assms by (simp add: events_ok_def)
  then show ?thesis
    using lookup_row_unique [of event_key "vertex_events d"] lookup_row_Some [of event_key "(a, e)" "vertex_events d"]
    by (auto simp: find_event_lookup is_event_key) metis
qed

text \<open>The row of an invocation whose response was recorded.\<close>

definition records :: "vertex_metadata \<Rightarrow> event_row \<Rightarrow> bool" where
  "records m r \<longleftrightarrow> (case normalized_billable_response m of (model, n) \<Rightarrow>
     ve_outcome r = (if n \<noteq> None then Metered else UsageMissing) \<and> ve_http_status r = Some 200
   \<and> ve_returned_model r = model \<and> ve_traffic r = normalized_traffic_type (vm_traffic_type m)
   \<and> ve_tokens r = usage_tokens (case n of Some u \<Rightarrow> u | None \<Rightarrow> default_usage))"

lemma settle_response_records:
  assumes "events_ok d" "settle_response now a e m d = (Inr (), d1)"
  shows "\<exists>r. find_event a e d1 = Some r \<and> records m r"
proof -
  obtain model n where nb: "normalized_billable_response m = (model, n)" by (rule prod.exhaust)
  let ?hit = "\<lambda>v. is_event a e v \<and> ve_outcome v = Started"
  let ?f = "\<lambda>v. v\<lparr>ve_returned_model := model, ve_traffic := normalized_traffic_type (vm_traffic_type m),
    ve_http_status := Some 200, ve_tokens := usage_tokens (case n of Some u \<Rightarrow> u | None \<Rightarrow> default_usage),
    ve_outcome := if n \<noteq> None then Metered else UsageMissing\<rparr>"
  show ?thesis
  proof (cases "\<exists>r. find_event a e d = Some r \<and> ve_outcome r = Started")
    case True
    then obtain r where r: "find_event a e d = Some r" "ve_outcome r = Started" by blast
    from True assms(2) have "refreshed now a d (update_event ?hit ?f d) = (Inr (), d1)"
      by (simp add: settle_response_def Let_def nb started_exists [OF assms(1)] del: exists_row_iff)
    then have "vertex_events d1 = vertex_events (update_event ?hit ?f d)"
      by (cases rule: refreshed_cases [of now a d "update_event ?hit ?f d"]) (auto dest: refresh_coverage_Inr)
    from find_event_refresh [OF this] have "find_event a e d1 = find_event a e (update_event ?hit ?f d)" .
    also have "\<dots> = map_option (\<lambda>r. if ?hit r then ?f r else r) (find_event a e d)"
      by (rule find_event_update_event) (simp add: event_key_def)
    finally have "find_event a e d1 = map_option (\<lambda>r. if ?hit r then ?f r else r) (find_event a e d)" .
    moreover have "is_event a e r" using r(1) by (auto simp: find_event_def dest: find_Some_match)
    ultimately show ?thesis using r by (simp add: records_def nb)
  next
    case False
    with assms(2) obtain r where r: "find_event a e d = Some r" "records m r" "refreshed now a d d = (Inr (), d1)"
      by (simp add: settle_response_def Let_def nb started_exists [OF assms(1)] records_def del: exists_row_iff
          split: option.splits if_splits)
    from r(3) have "vertex_events d1 = vertex_events d"
      by (cases rule: refreshed_cases [of now a d d]) (auto dest: refresh_coverage_Inr)
    with r find_event_refresh show ?thesis by metis
  qed
qed

lemma settled_not_started: "records m r \<Longrightarrow> ve_outcome r \<in> {Metered, UsageMissing}"
  by (auto simp: records_def split: prod.splits if_splits)

lemma refreshed_total: "has_account a d \<Longrightarrow> \<exists>d2. refreshed now a d d = (Inr (), d2) \<and> vertex_events d2 = vertex_events d"
  by (simp add: refreshed_def refresh_coverage_def Let_def)

text \<open>Recording a response is final and repeatable: afterwards the event holds exactly the
  normalised response; recording the same response again succeeds and leaves the events as they
  are, and settling the invocation as ambiguous or as not billed is refused and changes nothing.\<close>

theorem settled_response_is_final:
  assumes "events_ok d" and "has_account a d" and "settle_response now a e m d = (Inr (), d1)"
  shows "(\<exists>r. find_event a e d1 = Some r \<and> records m r)
    \<and> (\<exists>d2. settle_response now2 a e m d1 = (Inr (), d2) \<and> vertex_events d2 = vertex_events d1)
    \<and> settle_ambiguous now2 a e s d1 = (Inl (Conflict ''Vertex invocation already has a different terminal outcome''), d1)
    \<and> settle_not_billed now2 a e k d1 = (Inl (Conflict ''Vertex invocation already has a different terminal outcome''), d1)
    \<and> settle_pre_egress_not_billed now2 a e d1
        = (Inl (Conflict ''Vertex invocation already has a different terminal outcome''), d1)"
proof -
  obtain model n where nb: "normalized_billable_response m = (model, n)" by (rule prod.exhaust)
  have d1: "d1 = usage_step (\<lambda>_. []) (SettleResponse now a e m) d" by (simp add: assms(3))
  have ok: "events_ok d1" using events_ok_refines [OF refines_usage_step assms(1)] by (simp only: d1)
  have acc: "has_account a d1" using has_account_frame [OF ledger_frame_step] assms(2) by (simp only: d1)
  obtain r where r: "find_event a e d1 = Some r" "records m r"
    using settle_response_records [OF assms(1,3)] by blast
  from settled_not_started [OF r(2)] have w: "ve_outcome r \<in> {Metered, UsageMissing}" .
  have none: "\<not> exists_row (\<lambda>v. is_event a e v \<and> ve_outcome v = Started) (vertex_events d1)"
    using r(1) w by (auto simp: started_exists [OF ok] simp del: exists_row_iff)
  have "\<exists>d2. settle_response now2 a e m d1 = (Inr (), d2) \<and> vertex_events d2 = vertex_events d1"
    using refreshed_total [OF acc, of now2] none r
    by (simp add: settle_response_def Let_def nb records_def del: exists_row_iff)
  moreover have "settle_ambiguous now2 a e s d1 = (Inl (Conflict ''Vertex invocation already has a different terminal outcome''), d1)"
    using none r(1) w by (auto simp: settle_ambiguous_def settle_simple_outcome_def Let_def simp del: exists_row_iff)
  moreover have "settle_not_billed now2 a e k d1 = (Inl (Conflict ''Vertex invocation already has a different terminal outcome''), d1)"
    using none r(1) w by (auto simp: settle_not_billed_def settle_simple_outcome_def Let_def simp del: exists_row_iff)
  moreover have "settle_pre_egress_not_billed now2 a e d1
      = (Inl (Conflict ''Vertex invocation already has a different terminal outcome''), d1)"
    using none r(1) w by (auto simp: settle_pre_egress_not_billed_def settle_simple_outcome_def Let_def simp del: exists_row_iff)
  ultimately show ?thesis using r by blast
qed

definition sample_response :: vertex_metadata where
  "sample_response = \<lparr>vm_usage = Some (default_usage\<lparr>vu_prompt_details := True, vu_prompt := Some 5, vu_output := Some 2,
     vu_total := Some 7, vu_input_text := Some 5\<rparr>), vm_model_version = Some ''m'', vm_traffic_type = None\<rparr>"

theorem settled_response_is_final_witness:
  "\<exists>d1. settle_response 9 ''a'' ''e2'' sample_response usage_db = (Inr (), d1)
    \<and> (\<exists>r. find_event ''a'' ''e2'' d1 = Some r \<and> records sample_response r \<and> ve_outcome r = Metered)"
proof -
  have "fst (settle_response 9 ''a'' ''e2'' sample_response usage_db) = Inr ()"
    "map_option ve_outcome (find_event ''a'' ''e2'' (snd (settle_response 9 ''a'' ''e2'' sample_response usage_db))) = Some Metered"
    by code_simp+
  then obtain d1 where d1: "settle_response 9 ''a'' ''e2'' sample_response usage_db = (Inr (), d1)"
    and w: "map_option ve_outcome (find_event ''a'' ''e2'' d1) = Some Metered"
    by (cases "settle_response 9 ''a'' ''e2'' sample_response usage_db") auto
  from settled_response_is_final [OF usage_db_ok d1] obtain r where
    "find_event ''a'' ''e2'' d1 = Some r" "records sample_response r" by blast
  with d1 w show ?thesis by auto
qed

text \<open>C40. Usage is reported only when it is complete and consistent, and then as the provider sent
  it: prompt, output and total are present and the first and last are positive, no tool was used,
  a cache breakdown adds up and stays within each modality, and normalising again changes nothing.\<close>

theorem normalized_usage_sound:
  assumes "normalized_usage m = Some u"
  shows "\<exists>p t w. vu_prompt u = Some p \<and> vu_total u = Some t \<and> vu_output u = Some w \<and> 0 < p \<and> 0 < t
    \<and> or_zero (vu_tool u) = 0 \<and> vu_prompt_details u
    \<and> (\<exists>v. vm_usage m = Some v \<and> vu_prompt v = Some p \<and> vu_total v = Some t \<and> vu_output v = Some w)
    \<and> (vu_cache_details u \<longrightarrow>
        sat_add_u64 (sat_add_u64 (or_zero (vu_cached_text u)) (or_zero (vu_cached_audio u))) (or_zero (vu_cached_image u))
          = or_zero (vu_cached u)
        \<and> or_zero (vu_cached_text u) \<le> or_zero (vu_input_text u)
        \<and> or_zero (vu_cached_audio u) \<le> or_zero (vu_input_audio u)
        \<and> or_zero (vu_cached_image u) \<le> or_zero (vu_input_image u))
    \<and> normalized_usage (m\<lparr>vm_usage := Some u\<rparr>) = Some u"
proof -
  obtain v p t w where v: "vm_usage m = Some v" "vu_prompt v = Some p" "vu_total v = Some t" "vu_output v = Some w"
    using assms by (auto simp: normalized_usage_def split: option.splits)
  with assms have g: "p \<noteq> 0" "t \<noteq> 0" "or_zero (vu_tool v) = 0" "vu_prompt_details v"
    by (auto simp: normalized_usage_def split: if_splits)
  show ?thesis
    using assms v g by (cases "vu_cache_details v")
      (auto simp: normalized_usage_def Let_def or_zero_def [of "Some _"] split: if_splits)
qed

theorem normalized_usage_sound_witness:
  "\<exists>u. normalized_usage sample_response = Some u \<and> vu_total u = Some 7 \<and> normalized_usage (sample_response\<lparr>vm_usage := Some u\<rparr>) = Some u"
proof -
  have "map_option vu_total (normalized_usage sample_response) = Some (Some 7)" by code_simp
  then obtain u where u: "normalized_usage sample_response = Some u" "vu_total u = Some 7" by auto
  with normalized_usage_sound [OF u(1)] show ?thesis by blast
qed

end
