(* ===== verification/Fleet.thy ===== *)
theory Fleet
  imports Usage_Ledger Service
begin

text \<open>
  The account-facing repositories and the invocation ledger together: a fleet history is any
  interleaving of their transactions on the tables they share.
\<close>

datatype fleet_op = ServiceOp service_op | UsageOp usage_op

fun fleet_step :: "env \<Rightarrow> fleet_op \<Rightarrow> db \<Rightarrow> db" where
  "fleet_step v (ServiceOp x) d = service_step v x d"
| "fleet_step v (UsageOp x) d = usage_step (sha256 v) x d"

section \<open>What the ledger keeps of the account tables\<close>

lemma schema_ok_usage: "schema_ok (usage_step sha x d) = schema_ok d"
  "life_of a (usage_step sha x d) = life_of a d"
proof -
  obtain y z where "usage_step sha x d = d\<lparr>vertex_events := y, vertex_coverage := z\<rparr>"
    using ledger_frame_step [of d sha x] unfolding ledger_frame_def by blast
  then show "schema_ok (usage_step sha x d) = schema_ok d" "life_of a (usage_step sha x d) = life_of a d"
    by (simp_all add: schema_ok_def identity_ok_def oauth_ok_def account_ids_def client_ids_def life_of_def account_status_of_def)
qed

lemma schema_ok_fleet_step: "schema_ok d \<Longrightarrow> schema_ok (fleet_step v x d)"
  by (cases x) (simp_all add: schema_ok_service_step schema_ok_usage)

lemma closing_fleet_step: "closing (life_of a d) \<Longrightarrow> closing (life_of a (fleet_step v x d))"
  by (cases x) (auto simp: schema_ok_usage intro: closing_step [OF life_refine_service])

section \<open>What the account transactions keep of the ledger\<close>

lemma events_frame [simp]:
  "vertex_events (oauth_step x d) = vertex_events d"
  "vertex_events (identity_step v y d) = vertex_events d"
proof -
  show "vertex_events (oauth_step x d) = vertex_events d"
    by (cases x; simp add: oauth_defs split: option.split sum.split)
  show "vertex_events (identity_step v y d) = vertex_events d"
  proof (cases y)
    case (LinkApple a g)
    then show ?thesis by (auto simp: link_apple_identity_def Let_def insert_identity_def touch_identity_def
        upsert_apple_credential_def split: option.split)
  qed (auto simp: upsert_subject_account_def upsert_apple_account_def Let_def touch_identity_def set_account_email_def
        upsert_apple_credential_def split: option.split prod.split sum.split elim: create_account_Inr)
qed

lemma events_lifecycle:
  "vertex_events (lifecycle_step x d) = vertex_events d \<or>
   (\<exists>a. closing (life_of a (lifecycle_step x d)) \<and>
     vertex_events (lifecycle_step x d) = delete_rows (\<lambda>r. ve_account r = a) (vertex_events d))"
proof (cases x)
  case (RequestDeletion now random a)
  then show ?thesis by (cases rule: request_cases [of now random a d]) (auto simp: only_operations_def)
next
  case (BeginDeletion now random a)
  show ?thesis
  proof (cases rule: begin_guards [of now random a d])
    case (passed d1)
    from refuse_uploads_frame(1) [OF passed(1)] show ?thesis
      by (cases rule: begin_rest_cases [of now random a d d1])
        (auto simp: BeginDeletion passed(5) only_operations_def revoke_sessions_def)
  qed (simp add: BeginDeletion)
next
  case (UpdateDeletion now a reason retry hard)
  then show ?thesis using update_status_frame [of d now a reason retry hard] by (auto simp: only_operations_def)
next
  case (FinalizeDeletion now a)
  show ?thesis
  proof (cases rule: finalize_cases [of now a d])
    case (refused e)
    then show ?thesis by (simp add: FinalizeDeletion)
  next
    case (again p d1 d2)
    then show ?thesis using refuse_uploads_frame(1) [OF again(1)] by (auto simp: FinalizeDeletion only_operations_def)
  next
    case (buried p d1 d2)
    have "life_of a d2 = (None, True)" using only_operations_life [OF buried(5), of a] life_bury [of a a d1] by simp
    moreover have "vertex_events d2 = delete_rows (\<lambda>r. ve_account r = a) (vertex_events d)"
      using buried(5) refuse_uploads_frame(1) [OF buried(1)]
      by (auto simp: only_operations_def bury_def Let_def delete_account_def)
    moreover have "lifecycle_step x d = d2" by (simp add: FinalizeDeletion buried(6))
    ultimately show ?thesis by (metis (no_types, lifting) closing_def option.case(1) prod.case)
  qed
next
  case (RevokeApple now a c)
  then show ?thesis by (simp add: mark_apple_credential_revoked_def Let_def)
qed

lemma events_service:
  "vertex_events (service_step v x d) = vertex_events d \<or>
   (\<exists>a. closing (life_of a (service_step v x d)) \<and>
     vertex_events (service_step v x d) = delete_rows (\<lambda>r. ve_account r = a) (vertex_events d))"
proof (cases x)
  case (LifecycleOp y)
  then show ?thesis using events_lifecycle [of y d] by simp
qed simp_all

section \<open>The attempts that may call a provider\<close>

fun sends :: "env \<Rightarrow> string \<times> bytes \<Rightarrow> fleet_op \<Rightarrow> db \<Rightarrow> bool" where
  "sends v k (UsageOp (BeginAttempt now a p m l c i)) d \<longleftrightarrow>
     k = (a, i) \<and> map_sum id ia_admission (fst (begin_invocation_attempt (sha256 v) now a p m l c i d)) = Inr Send"
| "sends v k _ d \<longleftrightarrow> False"

definition attempt_held :: "env \<Rightarrow> string \<times> bytes \<Rightarrow> db \<Rightarrow> bool" where
  "attempt_held v k d \<longleftrightarrow> (case k of (a, i) \<Rightarrow>
     (a, vertex_attempt_event_id (sha256 v) i) \<in> event_key ` set (vertex_events d) \<or> closing (life_of a d))"

lemma find_event_held: "find_event a e d = None \<longleftrightarrow> (a, e) \<notin> event_key ` set (vertex_events d)"
  by (simp add: find_event_lookup lookup_row_None)

lemma event_never_vanishes: "usage_life\<^sup>*\<^sup>* x y \<Longrightarrow> x \<noteq> None \<Longrightarrow> y \<noteq> None"
  by (induction rule: rtranclp_induct) (auto elim: usage_life.cases)

lemma events_grow:
  assumes "events_ok d" "(a, e) \<in> event_key ` set (vertex_events d)"
  shows "(a, e) \<in> event_key ` set (vertex_events (usage_step sha x d))"
proof -
  have "event_view a e d \<noteq> None" using assms(2) find_event_held by (auto simp: event_view_def)
  moreover have "usage_life\<^sup>*\<^sup>* (event_view a e d) (event_view a e (usage_step sha x d))"
    using assms(1) refines_usage_step [of d sha x] by (simp add: refines_def)
  ultimately have "event_view a e (usage_step sha x d) \<noteq> None" by (metis event_never_vanishes)
  then show ?thesis using find_event_held by (auto simp: event_view_def)
qed

definition fleet_ok :: "db \<Rightarrow> bool" where
  "fleet_ok d \<longleftrightarrow> schema_ok d \<and> events_ok d"

lemma fleet_ok_step: "fleet_ok d \<Longrightarrow> fleet_ok (fleet_step v x d)"
proof (cases x)
  case (ServiceOp y)
  assume "fleet_ok d"
  then show ?thesis using schema_ok_fleet_step [of d v x] events_service [of v y d]
    by (auto simp: fleet_ok_def ServiceOp events_ok_def)
next
  case (UsageOp y)
  assume "fleet_ok d"
  then show ?thesis using schema_ok_fleet_step [of d v x] refines_usage_step
    by (auto simp: fleet_ok_def UsageOp intro: events_ok_refines)
qed

lemma send_result:
  assumes "map_sum id ia_admission (fst (begin_invocation_attempt sha now a p m l c i d)) = Inr Send"
  shows "account_active d a \<and> find_event a (vertex_attempt_event_id sha i) d = None
    \<and> (a, vertex_attempt_event_id sha i) \<in> event_key ` set (vertex_events (snd (begin_invocation_attempt sha now a p m l c i d)))"
proof (cases rule: begin_attempt_cases [of sha now a p m l c i d])
  case (sent d1)
  from refresh_coverage_Inr [OF sent(4)] sent(1-3) show ?thesis by (simp add: event_key_def new_event_def)
next
  case (replayed r d1)
  with assms show ?thesis by (auto split: if_splits)
next
  case (refused err)
  with assms show ?thesis by simp
qed

lemma held_service:
  assumes "attempt_held v (a, i) d"
  shows "attempt_held v (a, i) (service_step w x d)"
proof (cases "closing (life_of a (service_step w x d))")
  case False
  then have "\<not> closing (life_of a d)" using closing_fleet_step [of a d w "ServiceOp x"] by auto
  with assms obtain r where r: "r \<in> set (vertex_events d)" "event_key r = (a, vertex_attempt_event_id (sha256 v) i)"
    by (auto simp: attempt_held_def)
  from events_service [of w x d] False r have "r \<in> set (vertex_events (service_step w x d))"
    by (auto simp: event_key_def)
  with r(2) show ?thesis by (force simp: attempt_held_def)
qed (simp add: attempt_held_def)

lemma sends_attempt:
  "sends v (a, i) x d \<Longrightarrow> account_active d a \<and> (a, vertex_attempt_event_id (sha256 v) i) \<notin> event_key ` set (vertex_events d)
    \<and> (a, vertex_attempt_event_id (sha256 v) i) \<in> event_key ` set (vertex_events (fleet_step v x d))"
proof (induction v "(a, i)" x d rule: sends.induct)
  case (1 v now b p m l c j d)
  then have "b = a" "j = i" and
    s: "map_sum id ia_admission (fst (begin_invocation_attempt (sha256 v) now a p m l c i d)) = Inr Send" by simp_all
  with send_result [OF s] find_event_held show ?case by simp
qed simp_all

interpretation egress: grant_ledger "fleet_step v" fleet_ok "attempt_held v" "sends v"
  for v
proof
  fix d :: db and x :: fleet_op and k :: "string \<times> bytes"
  assume ok: "fleet_ok d"
  then show "fleet_ok (fleet_step v x d)" by (rule fleet_ok_step)
  obtain a i where k: "k = (a, i)" by fastforce
  have closed: "\<not> account_active d a" if "closing (life_of a d)"
    using ok that not_active_when_closing by (auto simp: fleet_ok_def)
  show "\<not> attempt_held v k d" if "sends v k x d"
    using sends_attempt [of v a i x d] that closed by (auto simp: attempt_held_def k)
  show "attempt_held v k (fleet_step v x d)" if "sends v k x d"
    using sends_attempt [of v a i x d] that by (simp add: attempt_held_def k)
  show "attempt_held v k (fleet_step v x d)" if "attempt_held v k d"
  proof (cases x)
    case (ServiceOp y)
    with that held_service k show ?thesis by simp
  next
    case (UsageOp y)
    with that ok events_grow [of d a _ "sha256 v" y] closing_fleet_step [of a d v x] show ?thesis
      by (auto simp: attempt_held_def k fleet_ok_def)
  qed
qed

end
