(* ===== verification/Delivery_Outbox.thy ===== *)
theory Delivery_Outbox
  imports Schema Isotime Rust_Str "HOL-Library.List_Lexorder" "HOL-Library.Char_ord"
begin

text \<open>
  Outbound deliveries: the provider outcomes of \<^verbatim>\<open>persistence/work.rs\<close> and the webhook and push
  channels of \<^verbatim>\<open>persistence/postgres/delivery_outbox.rs\<close>. A claim freezes the request, takes the
  provider's lane and leaves a fence before anything is sent; a settlement or the recovery of an
  expired claim takes them away again. \<open>now\<close> is the clock and \<open>token\<close> the random claim token of
  the transaction. The rendered episode that accompanies a webhook candidate is computed by the
  presentation code and is the argument \<open>present\<close>. What differs between the channels is an argument
  of the shared steps: the name in their messages and which fence belongs to a delivery.
\<close>

section \<open>Provider outcomes\<close>

datatype webhook_outcome =
    WSent int
  | WRetry "int option" string string
  | WAmbiguous
  | WFailed "int option" string

datatype email_outcome =
    EAccepted int string
  | ERetry "int option" string string
  | EAmbiguous
  | EFailed "int option" string

datatype push_outcome =
    PAccepted int
  | PRetry "int option" string string
  | PAmbiguous
  | PFailed "int option" string
  | PTokenTerminal int string

definition valid_provider_text :: "string \<Rightarrow> int \<Rightarrow> bool" where
  "valid_provider_text value maximum \<longleftrightarrow>
     value \<noteq> [] \<and> int (length value) \<le> maximum \<and> \<not> list_ex (\<lambda>b. byte b = 0 \<or> byte b < 32 \<or> byte b = 127) value"

definition valid_provider_timestamp :: "string \<Rightarrow> bool" where
  "valid_provider_timestamp value \<longleftrightarrow>
     value \<noteq> [] \<and> length value \<le> 64
   \<and> (case parse_epoch_millis value of None \<Rightarrow> False | Some millis \<Rightarrow> format_epoch_millis millis = value)"

definition http_status :: "int \<Rightarrow> bool" where
  "http_status s \<longleftrightarrow> 100 \<le> s \<and> s \<le> 599"

definition optional_status :: "int option \<Rightarrow> bool" where
  "optional_status s \<longleftrightarrow> (case s of None \<Rightarrow> True | Some n \<Rightarrow> http_status n)"

fun webhook_valid :: "webhook_outcome \<Rightarrow> bool" where
  "webhook_valid (WSent status) \<longleftrightarrow> 200 \<le> status \<and> status \<le> 299"
| "webhook_valid (WRetry status code retry_at) \<longleftrightarrow>
     optional_status status \<and> valid_provider_text code 256 \<and> valid_provider_timestamp retry_at"
| "webhook_valid WAmbiguous \<longleftrightarrow> True"
| "webhook_valid (WFailed status code) \<longleftrightarrow> optional_status status \<and> valid_provider_text code 256"

fun email_valid :: "email_outcome \<Rightarrow> bool" where
  "email_valid (EAccepted status message_id) \<longleftrightarrow> 200 \<le> status \<and> status \<le> 299 \<and> valid_provider_text message_id 512"
| "email_valid (ERetry status code retry_at) \<longleftrightarrow>
     optional_status status \<and> valid_provider_text code 256 \<and> valid_provider_timestamp retry_at"
| "email_valid EAmbiguous \<longleftrightarrow> True"
| "email_valid (EFailed status code) \<longleftrightarrow> optional_status status \<and> valid_provider_text code 256"

fun push_valid :: "push_outcome \<Rightarrow> bool" where
  "push_valid (PAccepted status) \<longleftrightarrow> http_status status \<and> status = 200"
| "push_valid (PRetry status code retry_at) \<longleftrightarrow>
     optional_status status \<and> valid_provider_text code 256 \<and> valid_provider_timestamp retry_at"
| "push_valid PAmbiguous \<longleftrightarrow> True"
| "push_valid (PFailed status code) \<longleftrightarrow> optional_status status \<and> valid_provider_text code 256"
| "push_valid (PTokenTerminal status code) \<longleftrightarrow> http_status status \<and> valid_provider_text code 256"

section \<open>Shared steps of a channel\<close>

definition MAX_DELIVERY_AGE_SECONDS :: int where "MAX_DELIVERY_AGE_SECONDS = 24 * 60 * 60"

text \<open>\<^verbatim>\<open>PROVIDER_PACE_MILLIS\<close>, in microseconds.\<close>

definition provider_pace :: timestamp where "provider_pace = 250 * 1000"

definition bounded :: "string \<Rightarrow> int \<Rightarrow> string \<Rightarrow> unit res" where
  "bounded value maximum name =
     (if value = [] \<or> int (length value) > maximum \<or> list_ex (\<lambda>b. byte b = 0) value
      then Inl (Store (''frozen email '' @ name @ '' is invalid'')) else Inr ())"

definition claim_token :: "'x delivery_row_scheme \<Rightarrow> string option" where
  "claim_token r = map_option fst (dl_claim r)"

definition waiting :: "'x delivery_row_scheme \<Rightarrow> bool" where
  "waiting r \<longleftrightarrow> dl_state r = OPending \<or> dl_state r = ORetryWait"

definition unfinished :: "'x delivery_row_scheme \<Rightarrow> bool" where
  "unfinished r \<longleftrightarrow> waiting r \<or> dl_state r = OProcessing"

definition update_deliveries ::
  "('x delivery_row_scheme \<Rightarrow> bool) \<Rightarrow> ('x delivery_row_scheme \<Rightarrow> 'x delivery_row_scheme)
   \<Rightarrow> ('x, 'f) channel \<Rightarrow> ('x, 'f) channel" where
  "update_deliveries P f c = c\<lparr>ch_deliveries := update_rows P f (ch_deliveries c)\<rparr>"

definition drop_fences :: "('f fence_row \<Rightarrow> bool) \<Rightarrow> ('x, 'f) channel \<Rightarrow> ('x, 'f) channel" where
  "drop_fences P c = c\<lparr>ch_fences := delete_rows P (ch_fences c)\<rparr>"

definition lane_owner :: "('x, 'f) channel \<Rightarrow> string option" where
  "lane_owner c = map_option fst (ln_owner (ch_lane c))"

definition release_lane :: "string \<Rightarrow> ('x, 'f) channel \<Rightarrow> ('x, 'f) channel" where
  "release_lane token c =
     (if lane_owner c = Some token then c\<lparr>ch_lane := (ch_lane c)\<lparr>ln_owner := None\<rparr>\<rparr> else c)"

subsection \<open>Recovery of expired claims\<close>

definition lease_over :: "timestamp \<Rightarrow> string \<Rightarrow> 'x delivery_row_scheme \<Rightarrow> bool" where
  "lease_over now a r \<longleftrightarrow> dl_account r = a \<and> dl_state r = OProcessing
     \<and> (case dl_claim r of None \<Rightarrow> False | Some (_, until) \<Rightarrow> until \<le> now)"

text \<open>A delivery's fence: of the same account and claim and, except for push, of the same item.\<close>

definition same_item :: "'x delivery_row_scheme \<Rightarrow> 'f fence_row \<Rightarrow> bool" where
  "same_item r f \<longleftrightarrow> fen_item f = dl_id r"

definition any_item :: "'x delivery_row_scheme \<Rightarrow> 'f fence_row \<Rightarrow> bool" where
  "any_item r f \<longleftrightarrow> True"

definition own_fence ::
  "('x delivery_row_scheme \<Rightarrow> 'f fence_row \<Rightarrow> bool) \<Rightarrow> 'x delivery_row_scheme \<Rightarrow> 'f fence_row \<Rightarrow> bool" where
  "own_fence item r f \<longleftrightarrow> fen_account f = dl_account r \<and> item r f \<and> Some (fen_claim f) = claim_token r"

definition recovered_row :: "timestamp \<Rightarrow> bool \<Rightarrow> 'x delivery_row_scheme \<Rightarrow> 'x delivery_row_scheme" where
  "recovered_row now disclosed q =
     q\<lparr>dl_state := (if disclosed then OAmbiguous else ORetryWait), dl_completed := claim_token q,
       dl_claim := None, dl_updated := now\<rparr>"

text \<open>One expired row, with its disclosure read before anything was changed.\<close>

definition recover_claim ::
  "('x delivery_row_scheme \<Rightarrow> 'f fence_row \<Rightarrow> bool) \<Rightarrow> timestamp
   \<Rightarrow> 'x delivery_row_scheme \<times> bool \<Rightarrow> ('x, 'f) channel \<Rightarrow> ('x, 'f) channel" where
  "recover_claim item now row c =
     (case row of (r, disclosed) \<Rightarrow>
      case claim_token r of None \<Rightarrow> c | Some token \<Rightarrow>
        release_lane token (drop_fences (own_fence item r)
          (update_deliveries (\<lambda>q. dl_account q = dl_account r \<and> dl_id q = dl_id r \<and> claim_token q = Some token)
            (recovered_row now disclosed) c)))"

definition recover_expired ::
  "('x delivery_row_scheme \<Rightarrow> 'f fence_row \<Rightarrow> bool) \<Rightarrow> timestamp \<Rightarrow> string \<Rightarrow> ('x, 'f) channel \<Rightarrow> ('x, 'f) channel" where
  "recover_expired item now a c =
     fold (recover_claim item now)
       (map (\<lambda>r. (r, exists_row (own_fence item r) (ch_fences c))) (filter (lease_over now a) (ch_deliveries c))) c"

definition recover_expired_webhook_claims :: "timestamp \<Rightarrow> string \<Rightarrow> db \<Rightarrow> db" where
  "recover_expired_webhook_claims now a d = d\<lparr>webhook_channel := recover_expired same_item now a (webhook_channel d)\<rparr>"

definition recover_expired_push_claims :: "timestamp \<Rightarrow> string \<Rightarrow> db \<Rightarrow> db" where
  "recover_expired_push_claims now a d = d\<lparr>push_channel := recover_expired any_item now a (push_channel d)\<rparr>"

definition recover_expired_email_claims :: "timestamp \<Rightarrow> string \<Rightarrow> db \<Rightarrow> db" where
  "recover_expired_email_claims now a d = d\<lparr>email_channel := recover_expired same_item now a (email_channel d)\<rparr>"

subsection \<open>Claims\<close>

definition lane_available :: "timestamp \<Rightarrow> ('x, 'f) channel \<Rightarrow> bool" where
  "lane_available now c \<longleftrightarrow>
     ln_owner (ch_lane c) = None \<and> ln_next (ch_lane c) \<le> now
   \<and> (case ln_circuit (ch_lane c) of None \<Rightarrow> True | Some until \<Rightarrow> until \<le> now)"

text \<open>
  The last part of a claim: exactly one waiting row becomes the claimed one, the fence is inserted
  under its primary key and unique claim, and the lane is taken. \<open>None\<close> rolls back.
\<close>

definition processing_row ::
  "timestamp \<Rightarrow> string \<Rightarrow> timestamp \<Rightarrow> int \<Rightarrow> 'x delivery_row_scheme \<Rightarrow> 'x delivery_row_scheme" where
  "processing_row now token until attempt r =
     r\<lparr>dl_state := OProcessing, dl_attempts := attempt, dl_claim := Some (token, until), dl_completed := None,
       dl_updated := now\<rparr>"

definition publish_claim ::
  "timestamp \<Rightarrow> string \<Rightarrow> timestamp \<Rightarrow> int \<Rightarrow> ('x delivery_row_scheme \<Rightarrow> bool) \<Rightarrow> 'f fence_row \<Rightarrow> ('x, 'f) channel
   \<Rightarrow> ('x, 'f) channel option res" where
  "publish_claim now token until attempt here fence c =
     (if count_rows (\<lambda>r. here r \<and> waiting r) (ch_deliveries c) \<noteq> 1 then Inr None
      else if has_key (\<lambda>f. (fen_account f, fen_item f)) (fen_account fence, fen_item fence) (ch_fences c)
            \<or> has_key fen_claim (fen_claim fence) (ch_fences c)
      then Inl (Postgres ''unique_violation'')
      else
        let c1 = update_deliveries (\<lambda>r. here r \<and> waiting r) (processing_row now token until attempt) c
        in Inr (Some (c1\<lparr>ch_fences := ch_fences c1 @ [fence],
             ch_lane := (ch_lane c1)\<lparr>ln_owner := Some (token, until)\<rparr>\<rparr>)))"

text \<open>\<^verbatim>\<open>floor(extract(epoch FROM clock + lease) * 1000)\<close>.\<close>

definition lease_end_ms :: "timestamp \<Rightarrow> int \<Rightarrow> int" where
  "lease_end_ms now lease_seconds = (now + seconds lease_seconds) div 1000"

subsection \<open>Settlement\<close>

definition settlement_ok :: "bool \<Rightarrow> int option \<Rightarrow> bool" where
  "settlement_ok valid circuit \<longleftrightarrow> valid \<and> (case circuit of None \<Rightarrow> True | Some s \<Rightarrow> 1 \<le> s \<and> s \<le> 6 * 60 * 60)"

definition retry_timestamp :: "string \<Rightarrow> int res" where
  "retry_timestamp value = (case parse_epoch_millis value of
     Some millis \<Rightarrow> Inr millis | None \<Rightarrow> Inl (Store ''email outcome timestamp is invalid''))"

text \<open>The lane after a settlement: free, paced and, when asked for, with its circuit open.\<close>

definition pace_lane :: "timestamp \<Rightarrow> int option \<Rightarrow> string \<Rightarrow> ('x, 'f) channel \<Rightarrow> ('x, 'f) channel" where
  "pace_lane now circuit token c =
     (if lane_owner c = Some token then
        c\<lparr>ch_lane := \<lparr>ln_owner = None, ln_next = now + provider_pace,
           ln_circuit = (case circuit of None \<Rightarrow> ln_circuit (ch_lane c) | Some s \<Rightarrow> Some (now + seconds s))\<rparr>\<rparr>
      else c)"

record settlement =
  se_state :: outbound_state
  se_status :: "int option"
  se_retry :: "int option"

definition settled_row ::
  "timestamp \<Rightarrow> string \<Rightarrow> settlement \<Rightarrow> 'x delivery_row_scheme \<Rightarrow> 'x delivery_row_scheme" where
  "settled_row now token s q =
     q\<lparr>dl_state := se_state s, dl_completed := Some token, dl_claim := None,
       dl_next := (case se_retry s of None \<Rightarrow> dl_next q | Some ms \<Rightarrow> ms * 1000),
       dl_status := se_status s, dl_updated := now\<rparr>"

text \<open>
  The transaction of a settlement: \<open>here\<close> selects the delivery, \<open>authority\<close> the fence with the
  frozen request, \<open>gone\<close> the fences to remove.
\<close>

definition settle_delivery ::
  "string \<Rightarrow> timestamp \<Rightarrow> ('x delivery_row_scheme \<Rightarrow> bool) \<Rightarrow> string \<Rightarrow> ('f fence_row \<Rightarrow> bool) \<Rightarrow> ('f fence_row \<Rightarrow> bool)
   \<Rightarrow> settlement res \<Rightarrow> int option \<Rightarrow> ('x, 'f) channel \<Rightarrow> ('x, 'f) channel option res" where
  "settle_delivery name now here token authority gone plan circuit c =
     (case List.find here (ch_deliveries c) of
        None \<Rightarrow> Inl (Conflict (name @ '' delivery disappeared''))
      | Some r \<Rightarrow>
          if dl_completed r = Some token then Inr None
          else if dl_state r \<noteq> OProcessing \<or> claim_token r \<noteq> Some token
          then Inl (Conflict (name @ '' delivery claim is no longer authoritative''))
          else if \<not> exists_row authority (ch_fences c)
          then Inl (Conflict (name @ '' disclosure fence disappeared''))
          else case plan of Inl err \<Rightarrow> Inl err
          | Inr s \<Rightarrow>
              let hit = (\<lambda>q. here q \<and> dl_state q = OProcessing \<and> claim_token q = Some token)
              in if count_rows hit (ch_deliveries c) \<noteq> 1
                 then Inl (Conflict (name @ '' delivery was not settled exactly once''))
                 else Inr (Some (pace_lane now circuit token (drop_fences gone (update_deliveries hit
                        (settled_row now token s) c)))))"

section \<open>Webhooks\<close>

record 'e webhook_candidate =
  wc_account :: string
  wc_episode_id :: int
  wc_subscription :: string
  wc_version :: int
  wc_event :: string
  wc_attempts :: int
  wc_include :: bool
  wc_endpoint :: string
  wc_secret :: string
  wc_revision :: int
  wc_episode :: 'e

record frozen_webhook =
  fw_endpoint :: string
  fw_secret :: string
  fw_include :: bool
  fw_body :: string

record webhook_claim =
  wl_account :: string
  wl_episode_id :: int
  wl_subscription :: string
  wl_version :: int
  wl_event :: string
  wl_token :: string
  wl_expires :: string
  wl_attempts :: int
  wl_request :: frozen_webhook

definition find_subscription :: "string \<Rightarrow> string \<Rightarrow> db \<Rightarrow> webhook_row option" where
  "find_subscription a s d = List.find (\<lambda>w. wh_account w = a \<and> wh_id w = s) (webhook_subscriptions d)"

definition find_episode :: "string \<Rightarrow> int \<Rightarrow> db \<Rightarrow> episode_row option" where
  "find_episode a e d = List.find (\<lambda>q. epi_account q = a \<and> epi_id q = e) (episodes d)"

definition update_webhooks ::
  "(delivery_row \<Rightarrow> bool) \<Rightarrow> (delivery_row \<Rightarrow> delivery_row) \<Rightarrow> db \<Rightarrow> db" where
  "update_webhooks P f d = d\<lparr>webhook_channel := update_deliveries P f (webhook_channel d)\<rparr>"

definition end_delivery :: "timestamp \<Rightarrow> outbound_state \<Rightarrow> 'x delivery_row_scheme \<Rightarrow> 'x delivery_row_scheme" where
  "end_delivery now s r = r\<lparr>dl_state := s, dl_updated := now\<rparr>"

definition too_old :: "timestamp \<Rightarrow> 'x delivery_row_scheme \<Rightarrow> bool" where
  "too_old now r \<longleftrightarrow> dl_created r \<le> now - seconds MAX_DELIVERY_AGE_SECONDS"

definition webhook_authorized :: "db \<Rightarrow> delivery_row \<Rightarrow> bool" where
  "webhook_authorized d r \<longleftrightarrow> account_active d (dl_account r)
     \<and> exists_row (\<lambda>w. wh_account w = dl_account r \<and> wh_id w = dl_target r \<and> wh_enabled w) (webhook_subscriptions d)"

definition has_final_brief :: "db \<Rightarrow> delivery_row \<Rightarrow> bool" where
  "has_final_brief d r \<longleftrightarrow>
     exists_row (\<lambda>e. epi_account e = dl_account r \<and> epi_id e = dl_episode r \<and> epi_complete e \<and> epi_finalized e \<noteq> None
       \<and> exists_row (\<lambda>b. b = (epi_account e, epi_id e)) (final_briefs d)) (episodes d)"

text \<open>Deliveries of one target go out in the order of their creation.\<close>

definition earlier :: "'x delivery_row_scheme \<Rightarrow> 'x delivery_row_scheme \<Rightarrow> bool" where
  "earlier q r \<longleftrightarrow> dl_created q < dl_created r \<or> (dl_created q = dl_created r \<and> dl_id q < dl_id r)"

definition head_of_line :: "('x, 'f) channel \<Rightarrow> 'x delivery_row_scheme \<Rightarrow> bool" where
  "head_of_line c r \<longleftrightarrow> \<not> exists_row (\<lambda>q. dl_account q = dl_account r \<and> dl_target q = dl_target r \<and> unfinished q
     \<and> earlier q r) (ch_deliveries c)"

definition first_due ::
  "('x delivery_row_scheme \<Rightarrow> bool) \<Rightarrow> timestamp \<Rightarrow> string \<Rightarrow> ('x, 'f) channel \<Rightarrow> 'x delivery_row_scheme option" where
  "first_due joined now a c =
     (case sort_key dl_created (sort_key dl_target (sort_key dl_id
             (filter (\<lambda>r. dl_account r = a \<and> waiting r \<and> dl_next r \<le> now \<and> joined r \<and> head_of_line c r)
               (ch_deliveries c)))) of
        [] \<Rightarrow> None | r # _ \<Rightarrow> Some r)"

definition prune_webhooks :: "timestamp \<Rightarrow> string \<Rightarrow> db \<Rightarrow> db" where
  "prune_webhooks now a d =
     (let d1 = recover_expired_webhook_claims now a d;
          d2 = update_webhooks (\<lambda>r. dl_account r = a \<and> waiting r \<and> too_old now r) (end_delivery now OCancelled) d1;
          d3 = update_webhooks (\<lambda>r. dl_account r = a \<and> waiting r \<and> \<not> webhook_authorized d2 r)
                 (end_delivery now OCancelled) d2
      in update_webhooks (\<lambda>r. dl_account r = a \<and> waiting r \<and> \<not> has_final_brief d3 r) (end_delivery now OFailed) d3)"

definition next_webhook_candidate ::
  "(string \<Rightarrow> int \<Rightarrow> db \<Rightarrow> 'e res) \<Rightarrow> timestamp \<Rightarrow> string \<Rightarrow> db \<Rightarrow> 'e webhook_candidate option tx" where
  "next_webhook_candidate present now a d =
     (let d1 = prune_webhooks now a d;
          joined = (\<lambda>r. account_active d1 a
            \<and> (case find_subscription a (dl_target r) d1 of Some w \<Rightarrow> wh_enabled w | None \<Rightarrow> False)
            \<and> find_episode a (dl_episode r) d1 \<noteq> None
            \<and> exists_row (\<lambda>b. b = (a, dl_episode r)) (final_briefs d1))
      in case first_due joined now a (webhook_channel d1) of
           None \<Rightarrow> (Inr None, d1)
         | Some r \<Rightarrow>
             (case (find_subscription a (dl_target r) d1, find_episode a (dl_episode r) d1) of
                (Some w, Some e) \<Rightarrow>
                  (case present a (dl_episode r) d1 of
                     Inl err \<Rightarrow> (Inl err, d)
                   | Inr episode \<Rightarrow>
                       (Inr (Some \<lparr>wc_account = a, wc_episode_id = dl_episode r, wc_subscription = dl_target r,
                          wc_version = dl_version r, wc_event = dl_id r, wc_attempts = dl_attempts r,
                          wc_include = wh_include w, wc_endpoint = wh_endpoint w, wc_secret = wh_secret w,
                          wc_revision = epi_revision e, wc_episode = episode\<rparr>), d1))
              | _ \<Rightarrow> (Inr None, d1)))"

definition webhook_here :: "string \<Rightarrow> int \<Rightarrow> string \<Rightarrow> int \<Rightarrow> string \<Rightarrow> delivery_row \<Rightarrow> bool" where
  "webhook_here a episode subscription version event r \<longleftrightarrow>
     dl_account r = a \<and> dl_episode r = episode \<and> dl_target r = subscription \<and> dl_version r = version \<and> dl_id r = event"

definition claim_webhook ::
  "timestamp \<Rightarrow> string \<Rightarrow> 'e webhook_candidate \<Rightarrow> frozen_webhook \<Rightarrow> int \<Rightarrow> db \<Rightarrow> webhook_claim option tx" where
  "claim_webhook now token cand req lease_seconds d =
     (if \<not> (1 \<le> lease_seconds \<and> lease_seconds \<le> 120) \<or> wc_attempts cand < 0 \<or> wc_attempts cand \<ge> 10
         \<or> fw_endpoint req \<noteq> wc_endpoint cand \<or> fw_secret req \<noteq> wc_secret cand \<or> fw_include req \<noteq> wc_include cand
      then (Inl (Store ''webhook delivery candidate is invalid''), d)
      else case bounded (fw_endpoint req) 2048 ''webhook endpoint'' of Inl err \<Rightarrow> (Inl err, d) | Inr _ \<Rightarrow>
           case bounded (fw_secret req) 512 ''webhook signing secret'' of Inl err \<Rightarrow> (Inl err, d) | Inr _ \<Rightarrow>
           case bounded (fw_body req) (512 * 1024) ''webhook event body'' of Inl err \<Rightarrow> (Inl err, d) | Inr _ \<Rightarrow>
           let a = wc_account cand;
               d1 = recover_expired_webhook_claims now a d;
               c = webhook_channel d1;
               here = webhook_here a (wc_episode_id cand) (wc_subscription cand) (wc_version cand) (wc_event cand);
               until_ms = lease_end_ms now lease_seconds
           in if \<not> lane_available now c then (Inr None, d)
              else case List.find (\<lambda>r. here r \<and> waiting r \<and> dl_next r \<le> now) (ch_deliveries c) of
                None \<Rightarrow> (Inr None, d)
              | Some r \<Rightarrow>
                (case (lookup_row acc_id a (accounts d1), find_subscription a (dl_target r) d1) of
                   (Some u, Some w) \<Rightarrow>
                     if \<not> (acc_status u = Active \<and> wh_enabled w \<and> wh_endpoint w = fw_endpoint req
                            \<and> wh_secret w = fw_secret req \<and> wh_include w = fw_include req
                            \<and> dl_attempts r = wc_attempts cand
                            \<and> map_option epi_revision (find_episode a (dl_episode r) d1) = Some (wc_revision cand))
                     then (Inr None, d)
                     else
                       (case publish_claim now token (until_ms * 1000) (wc_attempts cand + 1) here
                               \<lparr>fen_account = a, fen_item = wc_event cand, fen_claim = token,
                                fen_expires = until_ms * 1000,
                                fen_request = \<lparr>wr_subscription = wc_subscription cand, wr_endpoint = fw_endpoint req,
                                  wr_secret = fw_secret req, wr_include = fw_include req\<rparr>\<rparr> c of
                          Inl err \<Rightarrow> (Inl err, d)
                        | Inr None \<Rightarrow> (Inr None, d)
                        | Inr (Some c1) \<Rightarrow>
                            (Inr (Some \<lparr>wl_account = a, wl_episode_id = wc_episode_id cand,
                               wl_subscription = wc_subscription cand, wl_version = wc_version cand,
                               wl_event = wc_event cand, wl_token = token,
                               wl_expires = format_epoch_millis until_ms, wl_attempts = wc_attempts cand + 1,
                               wl_request = req\<rparr>), d1\<lparr>webhook_channel := c1\<rparr>))
                 | _ \<Rightarrow> (Inr None, d)))"

fun webhook_settlement :: "webhook_outcome \<Rightarrow> settlement res" where
  "webhook_settlement (WSent status) = Inr \<lparr>se_state = ODelivered, se_status = Some status, se_retry = None\<rparr>"
| "webhook_settlement (WRetry status code retry_at) =
     (case retry_timestamp retry_at of Inl err \<Rightarrow> Inl err
      | Inr ms \<Rightarrow> Inr \<lparr>se_state = ORetryWait, se_status = status, se_retry = Some ms\<rparr>)"
| "webhook_settlement WAmbiguous = Inr \<lparr>se_state = OAmbiguous, se_status = None, se_retry = None\<rparr>"
| "webhook_settlement (WFailed status code) = Inr \<lparr>se_state = OFailed, se_status = status, se_retry = None\<rparr>"

definition settle_webhook :: "timestamp \<Rightarrow> webhook_claim \<Rightarrow> webhook_outcome \<Rightarrow> int option \<Rightarrow> db \<Rightarrow> unit tx" where
  "settle_webhook now cl outcome circuit d =
     (if \<not> settlement_ok (webhook_valid outcome) circuit
      then (Inl (Store ''webhook delivery settlement is invalid''), d)
      else
        let at = (\<lambda>f. fen_account f = wl_account cl \<and> fen_item f = wl_event cl \<and> fen_claim f = wl_token cl)
        in case settle_delivery ''webhook'' now
                  (webhook_here (wl_account cl) (wl_episode_id cl) (wl_subscription cl) (wl_version cl) (wl_event cl))
                  (wl_token cl)
                  (\<lambda>f. at f \<and> fen_request f = \<lparr>wr_subscription = wl_subscription cl,
                       wr_endpoint = fw_endpoint (wl_request cl), wr_secret = fw_secret (wl_request cl),
                       wr_include = fw_include (wl_request cl)\<rparr>)
                  at (webhook_settlement outcome) circuit (webhook_channel d) of
             Inl err \<Rightarrow> (Inl err, d)
           | Inr None \<Rightarrow> (Inr (), d)
           | Inr (Some c) \<Rightarrow> (Inr (), d\<lparr>webhook_channel := c\<rparr>))"

definition cancel_webhook_deliveries :: "timestamp \<Rightarrow> string \<Rightarrow> string \<Rightarrow> db \<Rightarrow> unit tx" where
  "cancel_webhook_deliveries now a subscription d =
     (let d1 = recover_expired_webhook_claims now a d
      in if exists_row (\<lambda>r. dl_account r = a \<and> dl_target r = subscription \<and> dl_state r = OProcessing)
              (ch_deliveries (webhook_channel d1))
            \<or> exists_row (\<lambda>f. fen_account f = a \<and> wr_subscription (fen_request f) = subscription)
              (ch_fences (webhook_channel d1))
         then (Inl (Conflict ''webhook subscription has an in-flight send''), d)
         else (Inr (), update_webhooks (\<lambda>r. dl_account r = a \<and> dl_target r = subscription \<and> waiting r)
                 (end_delivery now OCancelled) d1))"

record status_entry =
  sy_outcome :: string
  sy_attempts :: "int option"
  sy_response :: "int option"
  sy_updated :: string

record status_summary =
  su_pending :: int
  su_retry :: int
  su_sent :: int
  su_failed :: int
  su_ambiguous :: int
  su_cancelled :: int
  su_latest :: "status_entry option"

fun outcome_name :: "outbound_state \<Rightarrow> string" where
  "outcome_name OPending = ''pending''"
| "outcome_name OProcessing = ''pending''"
| "outcome_name ORetryWait = ''retry''"
| "outcome_name ODelivered = ''sent''"
| "outcome_name OFailed = ''failed''"
| "outcome_name OAmbiguous = ''ambiguous''"
| "outcome_name OCancelled = ''cancelled''"

definition webhook_delivery_status :: "string \<Rightarrow> string \<Rightarrow> db \<Rightarrow> status_summary" where
  "webhook_delivery_status a subscription d =
     (let rows = filter (\<lambda>r. dl_account r = a \<and> dl_target r = subscription) (ch_deliveries (webhook_channel d));
          count = (\<lambda>S. count_rows (\<lambda>r. dl_state r \<in> S) rows)
      in \<lparr>su_pending = count {OPending, OProcessing}, su_retry = count {ORetryWait}, su_sent = count {ODelivered},
          su_failed = count {OFailed}, su_ambiguous = count {OAmbiguous}, su_cancelled = count {OCancelled},
          su_latest = (case rev (sort_key dl_updated (sort_key dl_id rows)) of
             [] \<Rightarrow> None
           | r # _ \<Rightarrow> Some \<lparr>sy_outcome = outcome_name (dl_state r),
               sy_attempts = (if 0 \<le> dl_attempts r \<and> dl_attempts r \<le> 10 then Some (dl_attempts r) else None),
               sy_response = (case dl_status r of Some n \<Rightarrow> if http_status n then Some n else None | None \<Rightarrow> None),
               sy_updated = format_epoch_millis (dl_updated r div 1000)\<rparr>)\<rparr>)"

section \<open>Push notifications\<close>

record push_candidate =
  pc_account_id :: string
  pc_episode :: int
  pc_binding :: string
  pc_installation :: string
  pc_version :: int
  pc_delivery :: string
  pc_handoff :: string
  pc_collapse :: string
  pc_attempts :: int
  pc_created :: string
  pc_topic :: string
  pc_environment :: string
  pc_token :: string
  pc_generation :: int

record frozen_push =
  fp_topic :: string
  fp_environment :: string
  fp_token :: string
  fp_generation :: int

record push_claim =
  pl_account :: string
  pl_episode :: int
  pl_binding :: string
  pl_installation :: string
  pl_version :: int
  pl_delivery :: string
  pl_handoff :: string
  pl_collapse :: string
  pl_token :: string
  pl_expires :: string
  pl_attempts :: int
  pl_created :: string
  pl_request :: frozen_push

text \<open>\<^verbatim>\<open>'p1:'||p.id||':'||p.token_generation::text\<close>; generations are positive.\<close>

definition binding_of :: "push_row \<Rightarrow> string" where
  "binding_of p = ''p1:'' @ pu_id p @ '':'' @ fmt_int 0 (pu_generation p)"

definition update_pushes ::
  "(push_delivery_row \<Rightarrow> bool) \<Rightarrow> (push_delivery_row \<Rightarrow> push_delivery_row) \<Rightarrow> db \<Rightarrow> db" where
  "update_pushes P f d = d\<lparr>push_channel := update_deliveries P f (push_channel d)\<rparr>"

definition push_authorized :: "db \<Rightarrow> push_delivery_row \<Rightarrow> bool" where
  "push_authorized d r \<longleftrightarrow> account_active d (dl_account r)
     \<and> exists_row (\<lambda>p. pu_account p = dl_account r \<and> pu_enabled p \<and> dl_target r = binding_of p) (push_installations d)"

definition prune_pushes :: "timestamp \<Rightarrow> string \<Rightarrow> db \<Rightarrow> db" where
  "prune_pushes now a d =
     (let d1 = recover_expired_push_claims now a d;
          d2 = update_pushes (\<lambda>r. dl_account r = a \<and> waiting r \<and> too_old now r) (end_delivery now OCancelled) d1
      in update_pushes (\<lambda>r. dl_account r = a \<and> waiting r \<and> \<not> push_authorized d2 r) (end_delivery now OCancelled) d2)"

definition next_push_candidate :: "timestamp \<Rightarrow> string \<Rightarrow> db \<Rightarrow> push_candidate option tx" where
  "next_push_candidate now a d =
     (let d1 = prune_pushes now a d;
          joined = (\<lambda>r. account_active d1 a
            \<and> exists_row (\<lambda>p. pu_account p = a \<and> dl_target r = binding_of p \<and> pu_enabled p) (push_installations d1))
      in case first_due joined now a (push_channel d1) of
           None \<Rightarrow> (Inr None, d1)
         | Some r \<Rightarrow>
             (case List.find (\<lambda>p. pu_account p = a \<and> dl_target r = binding_of p \<and> pu_enabled p) (push_installations d1) of
                None \<Rightarrow> (Inr None, d1)
              | Some p \<Rightarrow>
                  (Inr (Some \<lparr>pc_account_id = a, pc_episode = dl_episode r, pc_binding = dl_target r,
                     pc_installation = pu_id p, pc_version = dl_version r, pc_delivery = dl_id r,
                     pc_handoff = dl_handoff r, pc_collapse = dl_collapse r, pc_attempts = dl_attempts r,
                     pc_created = format_epoch_millis (dl_created r div 1000), pc_topic = pu_topic p,
                     pc_environment = pu_environment p, pc_token = pu_token p, pc_generation = pu_generation p\<rparr>), d1)))"

definition push_here :: "string \<Rightarrow> int \<Rightarrow> string \<Rightarrow> int \<Rightarrow> string \<Rightarrow> push_delivery_row \<Rightarrow> bool" where
  "push_here a episode binding version delivery r \<longleftrightarrow>
     dl_account r = a \<and> dl_episode r = episode \<and> dl_target r = binding \<and> dl_version r = version \<and> dl_id r = delivery"

definition claim_push ::
  "timestamp \<Rightarrow> string \<Rightarrow> push_candidate \<Rightarrow> frozen_push \<Rightarrow> int \<Rightarrow> db \<Rightarrow> push_claim option tx" where
  "claim_push now token cand req lease_seconds d =
     (if \<not> (1 \<le> lease_seconds \<and> lease_seconds \<le> 120) \<or> pc_attempts cand < 0 \<or> pc_attempts cand \<ge> 10
         \<or> fp_topic req \<noteq> pc_topic cand \<or> fp_environment req \<noteq> pc_environment cand \<or> fp_token req \<noteq> pc_token cand
         \<or> fp_generation req \<noteq> pc_generation cand \<or> fp_generation req \<le> 0
      then (Inl (Store ''push delivery candidate is invalid''), d)
      else case bounded (fp_topic req) 256 ''push topic'' of Inl err \<Rightarrow> (Inl err, d) | Inr _ \<Rightarrow>
           case bounded (fp_environment req) 32 ''push environment'' of Inl err \<Rightarrow> (Inl err, d) | Inr _ \<Rightarrow>
           case bounded (fp_token req) 512 ''push device token'' of Inl err \<Rightarrow> (Inl err, d) | Inr _ \<Rightarrow>
           let a = pc_account_id cand;
               d1 = recover_expired_push_claims now a d;
               c = push_channel d1;
               here = push_here a (pc_episode cand) (pc_binding cand) (pc_version cand) (pc_delivery cand);
               until_ms = lease_end_ms now lease_seconds
           in if \<not> lane_available now c then (Inr None, d)
              else case List.find (\<lambda>r. here r \<and> waiting r \<and> dl_next r \<le> now) (ch_deliveries c) of
                None \<Rightarrow> (Inr None, d)
              | Some r \<Rightarrow>
                (case (lookup_row acc_id a (accounts d1),
                       List.find (\<lambda>p. pu_account p = a \<and> pu_id p = pc_installation cand) (push_installations d1)) of
                   (Some u, Some p) \<Rightarrow>
                     if \<not> (acc_status u = Active \<and> pu_enabled p \<and> pu_topic p = fp_topic req
                            \<and> pu_environment p = fp_environment req \<and> pu_token p = fp_token req
                            \<and> pu_generation p = fp_generation req \<and> dl_attempts r = pc_attempts cand)
                     then (Inr None, d)
                     else
                       (case publish_claim now token (until_ms * 1000) (pc_attempts cand + 1) here
                               \<lparr>fen_account = a, fen_item = pc_installation cand, fen_claim = token,
                                fen_expires = until_ms * 1000, fen_request = fp_generation req\<rparr> c of
                          Inl err \<Rightarrow> (Inl err, d)
                        | Inr None \<Rightarrow> (Inr None, d)
                        | Inr (Some c1) \<Rightarrow>
                            (Inr (Some \<lparr>pl_account = a, pl_episode = pc_episode cand, pl_binding = pc_binding cand,
                               pl_installation = pc_installation cand, pl_version = pc_version cand,
                               pl_delivery = pc_delivery cand, pl_handoff = pc_handoff cand,
                               pl_collapse = pc_collapse cand, pl_token = token,
                               pl_expires = format_epoch_millis until_ms, pl_attempts = pc_attempts cand + 1,
                               pl_created = pc_created cand, pl_request = req\<rparr>), d1\<lparr>push_channel := c1\<rparr>))
                 | _ \<Rightarrow> (Inr None, d)))"

fun push_settlement :: "push_outcome \<Rightarrow> settlement res" where
  "push_settlement (PAccepted status) = Inr \<lparr>se_state = ODelivered, se_status = Some status, se_retry = None\<rparr>"
| "push_settlement (PRetry status code retry_at) =
     (case retry_timestamp retry_at of Inl err \<Rightarrow> Inl err
      | Inr ms \<Rightarrow> Inr \<lparr>se_state = ORetryWait, se_status = status, se_retry = Some ms\<rparr>)"
| "push_settlement PAmbiguous = Inr \<lparr>se_state = OAmbiguous, se_status = None, se_retry = None\<rparr>"
| "push_settlement (PFailed status code) = Inr \<lparr>se_state = OFailed, se_status = status, se_retry = None\<rparr>"
| "push_settlement (PTokenTerminal status code) = Inr \<lparr>se_state = OFailed, se_status = Some status, se_retry = None\<rparr>"

fun is_token_terminal :: "push_outcome \<Rightarrow> bool" where
  "is_token_terminal (PTokenTerminal status code) \<longleftrightarrow> True"
| "is_token_terminal _ \<longleftrightarrow> False"

definition settle_push :: "timestamp \<Rightarrow> push_claim \<Rightarrow> push_outcome \<Rightarrow> int option \<Rightarrow> db \<Rightarrow> unit tx" where
  "settle_push now cl outcome circuit d =
     (if \<not> settlement_ok (push_valid outcome) circuit
      then (Inl (Store ''push delivery settlement is invalid''), d)
      else
        case settle_delivery ''push'' now
               (push_here (pl_account cl) (pl_episode cl) (pl_binding cl) (pl_version cl) (pl_delivery cl))
               (pl_token cl)
               (\<lambda>f. fen_account f = pl_account cl \<and> fen_item f = pl_installation cl
                  \<and> fen_request f = fp_generation (pl_request cl) \<and> fen_claim f = pl_token cl)
               (\<lambda>f. fen_account f = pl_account cl \<and> fen_claim f = pl_token cl)
               (push_settlement outcome) circuit (push_channel d) of
          Inl err \<Rightarrow> (Inl err, d)
        | Inr None \<Rightarrow> (Inr (), d)
        | Inr (Some c) \<Rightarrow>
            (Inr (), d\<lparr>push_channel := c,
               push_installations :=
                 (if is_token_terminal outcome
                  then update_rows (\<lambda>p. pu_account p = pl_account cl \<and> pu_id p = pl_installation cl
                           \<and> pu_generation p = fp_generation (pl_request cl)) (\<lambda>p. p\<lparr>pu_enabled := False\<rparr>)
                         (push_installations d)
                  else push_installations d)\<rparr>))"

definition resolve_push_handoff :: "string \<Rightarrow> string \<Rightarrow> db \<Rightarrow> int option" where
  "resolve_push_handoff a handle d =
     map_option dl_episode (List.find (\<lambda>r. dl_account r = a \<and> dl_handoff r = handle
        \<and> dl_state r \<in> {OPending, OProcessing, ORetryWait, ODelivered, OAmbiguous}
        \<and> exists_row (\<lambda>e. epi_account e = a \<and> epi_id e = dl_episode r \<and> epi_complete e) (episodes d))
       (ch_deliveries (push_channel d)))"

end
