(* ===== verification/Delivery_Channel.thy ===== *)
theory Delivery_Channel
  imports Delivery_Outbox
begin

text \<open>
  What the outbound channels guarantee: a channel discloses to one destination at a time, every
  open disclosure has its fence, its lease and the provider's lane, and a delivery moves along a
  fixed life. Proved for the shared steps of \<open>Delivery_Outbox\<close> once, for every kind of channel.
\<close>

section \<open>The invariant of a channel\<close>

definition delivery_key :: "'x delivery_row_scheme \<Rightarrow> string \<times> string" where
  "delivery_key r = (dl_account r, dl_id r)"

definition in_flight :: "('x, 'f) channel \<Rightarrow> 'x delivery_row_scheme list" where
  "in_flight c = filter (\<lambda>r. dl_state r = OProcessing) (ch_deliveries c)"

text \<open>
  Nothing is in flight and the channel is idle, or exactly one delivery is, with exactly its fence,
  and the lane belongs to its claim.
\<close>

definition channel_ok ::
  "('x delivery_row_scheme \<Rightarrow> 'f fence_row \<Rightarrow> bool) \<Rightarrow> ('x, 'f) channel \<Rightarrow> bool" where
  "channel_ok item c \<longleftrightarrow>
     distinct (map delivery_key (ch_deliveries c))
   \<and> (\<forall>r\<in>set (ch_deliveries c). dl_claim r \<noteq> None \<longleftrightarrow> dl_state r = OProcessing)
   \<and> ((in_flight c = [] \<and> ch_fences c = [] \<and> ln_owner (ch_lane c) = None)
      \<or> (\<exists>r f. in_flight c = [r] \<and> ch_fences c = [f] \<and> own_fence item r f \<and> lane_owner c = claim_token r))"

lemma channel_ok_empty [simp]: "channel_ok item empty_channel"
  by (simp add: channel_ok_def in_flight_def)

lemma claim_iff: "channel_ok item c \<Longrightarrow> r \<in> set (ch_deliveries c) \<Longrightarrow> dl_claim r \<noteq> None \<longleftrightarrow> dl_state r = OProcessing"
  by (simp add: channel_ok_def)

lemma in_flight_set: "r \<in> set (in_flight c) \<longleftrightarrow> r \<in> set (ch_deliveries c) \<and> dl_state r = OProcessing"
  by (auto simp: in_flight_def)

text \<open>Changes of rows that are not in flight and do not put one in flight.\<close>

lemma in_flight_update:
  assumes "\<And>r. P r \<Longrightarrow> dl_state r \<noteq> OProcessing \<and> dl_state (f r) \<noteq> OProcessing"
  shows "in_flight (update_deliveries P f c) = in_flight c"
proof -
  have "filter (\<lambda>r. dl_state r = OProcessing) (update_rows P f t) = filter (\<lambda>r. dl_state r = OProcessing) t" for t
    using assms by (induction t) (auto simp: update_rows_def)
  then show ?thesis by (simp add: in_flight_def update_deliveries_def)
qed

lemma channel_ok_update:
  assumes "channel_ok item c" "\<And>r. P r \<Longrightarrow> dl_state r \<noteq> OProcessing \<and> dl_state (f r) \<noteq> OProcessing"
    and "\<And>r. delivery_key (f r) = delivery_key r" "\<And>r. dl_claim (f r) = dl_claim r"
  shows "channel_ok item (update_deliveries P f c)"
proof -
  have "in_flight (update_deliveries P f c) = in_flight c" using assms(2) by (rule in_flight_update)
  moreover have "\<forall>r\<in>set (ch_deliveries (update_deliveries P f c)). dl_claim r \<noteq> None \<longleftrightarrow> dl_state r = OProcessing"
  proof
    fix r assume "r \<in> set (ch_deliveries (update_deliveries P f c))"
    then consider "r \<in> set (ch_deliveries c)" | q where "q \<in> set (ch_deliveries c)" "P q" "r = f q"
      by (auto simp: update_deliveries_def set_update_rows)
    then show "dl_claim r \<noteq> None \<longleftrightarrow> dl_state r = OProcessing"
    proof cases
      case (2 q)
      with assms(1) have "dl_claim q \<noteq> None \<longleftrightarrow> dl_state q = OProcessing" by (simp add: channel_ok_def)
      with assms(2) [OF 2(2)] assms(4) [of q] 2(3) show ?thesis by simp
    qed (use assms(1) in \<open>simp add: channel_ok_def\<close>)
  qed
  ultimately show ?thesis
    using assms(1,3) by (auto simp: channel_ok_def update_deliveries_def lane_owner_def map_update_rows)
qed

lemma channel_ok_end:
  assumes "channel_ok item c" "\<And>r. P r \<Longrightarrow> waiting r" "s \<noteq> OProcessing"
  shows "channel_ok item (update_deliveries P (end_delivery now s) c)"
proof (rule channel_ok_update [OF assms(1)])
  show "dl_state r \<noteq> OProcessing \<and> dl_state (end_delivery now s r) \<noteq> OProcessing" if "P r" for r
    using assms(2) [OF that] assms(3) by (auto simp: waiting_def end_delivery_def)
qed (simp_all add: end_delivery_def delivery_key_def)

section \<open>Ending what is in flight\<close>

text \<open>Recovery and settlement do the same to the one delivery in flight: its row gets a result, its
  fence goes and the lane is free.\<close>

lemma in_flight_single:
  assumes "channel_ok item c" "r \<in> set (ch_deliveries c)" "dl_state r = OProcessing"
  obtains f where "in_flight c = [r]" "ch_fences c = [f]" "own_fence item r f" "lane_owner c = claim_token r"
proof -
  have "r \<in> set (in_flight c)" using assms(2,3) by (simp add: in_flight_set)
  with assms(1) that show ?thesis by (auto simp: channel_ok_def)
qed

lemma end_in_flight:
  assumes ok: "channel_ok item c" and r: "r \<in> set (ch_deliveries c)" "dl_state r = OProcessing"
    and hit: "\<And>q. q \<in> set (ch_deliveries c) \<Longrightarrow> hit q \<longleftrightarrow> q = r"
    and f: "\<And>q. dl_state (g q) \<noteq> OProcessing \<and> dl_claim (g q) = None \<and> delivery_key (g q) = delivery_key q"
    and lane: "ln_owner l = None" and gone: "\<And>f. own_fence item r f \<Longrightarrow> gone f"
  shows "channel_ok item ((drop_fences gone (update_deliveries hit g c))\<lparr>ch_lane := l\<rparr>)"
proof -
  obtain f where one: "in_flight c = [r]" "ch_fences c = [f]" "own_fence item r f"
    using in_flight_single [OF ok r] by blast
  have none: "dl_state q \<noteq> OProcessing" if "q \<in> set (ch_deliveries (update_deliveries hit g c))" for q
  proof -
    from that consider "q \<in> set (ch_deliveries c)" "\<not> hit q" | p where "q = g p"
      by (auto simp: update_deliveries_def set_update_rows)
    then show ?thesis
    proof cases
      case 1
      then have "q \<noteq> r" using hit by blast
      with 1 one(1) in_flight_set [of q c] show ?thesis by auto
    qed (simp add: f)
  qed
  have claims: "dl_claim q = None" if "q \<in> set (ch_deliveries (update_deliveries hit g c))" for q
  proof -
    from that consider "q \<in> set (ch_deliveries c)" "\<not> hit q" | p where "q = g p"
      by (auto simp: update_deliveries_def set_update_rows)
    then show ?thesis
    proof cases
      case 1
      with claim_iff [OF ok] none [OF that] show ?thesis by blast
    qed (simp add: f)
  qed
  have "distinct (map delivery_key (ch_deliveries (update_deliveries hit g c)))"
    using ok f by (simp add: channel_ok_def update_deliveries_def map_update_rows)
  moreover have "ch_fences (drop_fences gone (update_deliveries hit g c)) = []"
    using one gone by (simp add: drop_fences_def update_deliveries_def delete_rows_def)
  ultimately show ?thesis
    using none claims lane by (simp add: channel_ok_def in_flight_def drop_fences_def filter_empty_conv)
qed

lemma key_row:
  assumes "channel_ok item c" "r \<in> set (ch_deliveries c)" "q \<in> set (ch_deliveries c)" "dl_account q = dl_account r" "dl_id q = dl_id r"
  shows "q = r"
  using assms by (intro key_unique [of delivery_key "ch_deliveries c"]) (auto simp: channel_ok_def delivery_key_def)

text \<open>The recovery either finds nothing or ends the one delivery in flight as ambiguous.\<close>

lemma recover_expired_cases:
  assumes ok: "channel_ok item c"
  obtains (idle) "recover_expired item now a c = c" "filter (lease_over now a) (ch_deliveries c) = []"
  | (expired) r token where "r \<in> set (ch_deliveries c)" "lease_over now a r" "claim_token r = Some token"
      "recover_expired item now a c = (drop_fences (own_fence item r) (update_deliveries (\<lambda>q. dl_account q = dl_account r \<and> dl_id q = dl_id r \<and> claim_token q = Some token)
            (recovered_row now True) c))
        \<lparr>ch_lane := (ch_lane c)\<lparr>ln_owner := None\<rparr>\<rparr>"
proof (cases "filter (lease_over now a) (ch_deliveries c)")
  case Nil
  then show ?thesis by (intro idle) (simp_all add: recover_expired_def)
next
  case (Cons r rs)
  then have "r \<in> set (filter (lease_over now a) (ch_deliveries c))" by simp
  then have r: "r \<in> set (ch_deliveries c)" "lease_over now a r" by simp_all
  then have rp: "dl_state r = OProcessing" by (simp add: lease_over_def)
  obtain f where one: "in_flight c = [r]" "ch_fences c = [f]" "own_fence item r f" "lane_owner c = claim_token r"
    using in_flight_single [OF ok r(1) rp] .
  have "filter (lease_over now a) (ch_deliveries c) = filter (lease_over now a) (in_flight c)"
    by (auto simp: in_flight_def lease_over_def intro: filter_cong)
  with one(1) r(2) have e: "filter (lease_over now a) (ch_deliveries c) = [r]" by simp
  from r(2) obtain token where t: "claim_token r = Some token"
    by (auto simp: lease_over_def claim_token_def split: option.splits)
  show ?thesis
  proof (rule expired [OF r t])
    show "recover_expired item now a c = (drop_fences (own_fence item r) (update_deliveries (\<lambda>q. dl_account q = dl_account r \<and> dl_id q = dl_id r \<and> claim_token q = Some token)
            (recovered_row now True) c))
        \<lparr>ch_lane := (ch_lane c)\<lparr>ln_owner := None\<rparr>\<rparr>"
      using one t by (simp add: recover_expired_def e recover_claim_def release_lane_def lane_owner_def drop_fences_def
          update_deliveries_def)
  qed
qed

lemma channel_ok_recover:
  assumes ok: "channel_ok item c"
  shows "channel_ok item (recover_expired item now a c)"
  using ok
proof (cases rule: recover_expired_cases [of item c now a])
  case (expired r token)
  show ?thesis
    unfolding expired(4)
  proof (rule end_in_flight [OF ok expired(1)])
    show "dl_state r = OProcessing" using expired(2) by (simp add: lease_over_def)
    show "(dl_account q = dl_account r \<and> dl_id q = dl_id r \<and> claim_token q = Some token) \<longleftrightarrow> q = r"
      if "q \<in> set (ch_deliveries c)" for q
      using key_row [OF ok expired(1) that] expired(3) by blast
  qed (simp_all add: delivery_key_def recovered_row_def)
qed (simp add: ok)

section \<open>Claims\<close>

lemma lane_free:
  assumes "channel_ok item c" "lane_available now c"
  shows "in_flight c = [] \<and> ch_fences c = []"
  using assms by (auto simp: channel_ok_def lane_available_def lane_owner_def own_fence_def)

lemma count_one:
  assumes "count_rows P t = 1"
  obtains r where "filter P t = [r]"
  using assms by (cases "filter P t"; cases "tl (filter P t)") (auto simp: count_rows_def)

lemma publish_claim_Some:
  assumes "publish_claim now token until attempt here fence c = Inr (Some c1)"
  obtains r where "filter (\<lambda>r. here r \<and> waiting r) (ch_deliveries c) = [r]"
    "c1 = (update_deliveries (\<lambda>r. here r \<and> waiting r)
        (processing_row now token until attempt) c)
      \<lparr>ch_fences := ch_fences c @ [fence], ch_lane := (ch_lane c)\<lparr>ln_owner := Some (token, until)\<rparr>\<rparr>"
proof -
  from assms have "count_rows (\<lambda>r. here r \<and> waiting r) (ch_deliveries c) = 1"
    by (auto simp: publish_claim_def split: if_splits)
  then obtain r where "filter (\<lambda>r. here r \<and> waiting r) (ch_deliveries c) = [r]" by (rule count_one)
  with that assms show ?thesis
    by (auto simp: publish_claim_def Let_def update_deliveries_def split: if_splits)
qed

lemma filter_updated:
  assumes "\<And>r. P r \<Longrightarrow> Q (f r)" "\<And>r. r \<in> set t \<Longrightarrow> \<not> Q r"
  shows "filter Q (update_rows P f t) = map f (filter P t)"
  using assms by (induction t) (auto simp: update_rows_def)

lemma channel_ok_publish:
  assumes ok: "channel_ok item c" and lane: "lane_available now c"
    and p: "publish_claim now token until attempt here fence c = Inr (Some c1)"
    and fence: "fen_claim fence = token" "\<And>r. here r \<Longrightarrow> fen_account fence = dl_account r \<and> item r fence"
    and item: "\<And>r. item (processing_row now token until attempt r) fence = item r fence"
  shows "channel_ok item c1"
proof -
  let ?f = "processing_row now token until attempt"
  from lane_free [OF ok lane] have idle: "in_flight c = []" "ch_fences c = []" by simp_all
  from p obtain r where r: "filter (\<lambda>r. here r \<and> waiting r) (ch_deliveries c) = [r]"
    and c1: "c1 = (update_deliveries (\<lambda>r. here r \<and> waiting r) ?f c)
      \<lparr>ch_fences := ch_fences c @ [fence], ch_lane := (ch_lane c)\<lparr>ln_owner := Some (token, until)\<rparr>\<rparr>"
    by (rule publish_claim_Some)
  have here: "here r" using r by (metis (mono_tags, lifting) filter_eq_ConsD)
  have none: "dl_state q \<noteq> OProcessing" if "q \<in> set (ch_deliveries c)" for q
    using that idle(1) by (auto simp: in_flight_def filter_empty_conv)
  have fl: "in_flight c1 = [?f r]"
    using filter_updated [of "\<lambda>r. here r \<and> waiting r" "\<lambda>r. dl_state r = OProcessing" ?f "ch_deliveries c"] none r
    by (simp add: c1 in_flight_def update_deliveries_def processing_row_def)
  have "own_fence item (?f r) fence" using fence(2) [OF here] fence(1) item by (simp add: own_fence_def claim_token_def processing_row_def)
  moreover have "lane_owner c1 = claim_token (?f r)" by (simp add: c1 lane_owner_def claim_token_def processing_row_def)
  moreover have "distinct (map delivery_key (ch_deliveries c1))"
    using ok by (simp add: channel_ok_def c1 update_deliveries_def map_update_rows delivery_key_def processing_row_def)
  moreover have "\<forall>q\<in>set (ch_deliveries c1). dl_claim q \<noteq> None \<longleftrightarrow> dl_state q = OProcessing"
  proof
    fix q assume "q \<in> set (ch_deliveries c1)"
    then consider "q \<in> set (ch_deliveries c)" | p where "q = ?f p"
      by (auto simp: c1 update_deliveries_def set_update_rows)
    then show "dl_claim q \<noteq> None \<longleftrightarrow> dl_state q = OProcessing" by cases (use claim_iff [OF ok] in \<open>auto simp: processing_row_def\<close>)
  qed
  ultimately show ?thesis using fl by (simp add: channel_ok_def c1 idle(2))
qed

section \<open>Settlements\<close>

lemma settle_delivery_Some:
  assumes "settle_delivery name now here token authority gone plan circuit c = Inr (Some c1)"
  obtains r s where "r \<in> set (ch_deliveries c)" "here r" "dl_state r = OProcessing" "claim_token r = Some token"
    "plan = Inr s" "exists_row authority (ch_fences c)"
    "c1 = pace_lane now circuit token (drop_fences gone (update_deliveries
       (\<lambda>q. here q \<and> dl_state q = OProcessing \<and> claim_token q = Some token)
       (settled_row now token s) c))"
  using assms by (auto simp: settle_delivery_def Let_def split: option.splits sum.splits if_splits dest: find_Some_match)

lemma channel_ok_settle:
  assumes ok: "channel_ok item c"
    and p: "settle_delivery name now here token authority gone plan circuit c = Inr (Some c1)"
    and state: "\<And>s. plan = Inr s \<Longrightarrow> se_state s \<noteq> OProcessing"
    and gone: "\<And>r f. here r \<Longrightarrow> claim_token r = Some token \<Longrightarrow> own_fence item r f \<Longrightarrow> gone f"
  shows "channel_ok item c1"
proof -
  from p obtain r s where r: "r \<in> set (ch_deliveries c)" "here r" "dl_state r = OProcessing" "claim_token r = Some token"
    "plan = Inr s" and c1: "c1 = pace_lane now circuit token (drop_fences gone (update_deliveries
       (\<lambda>q. here q \<and> dl_state q = OProcessing \<and> claim_token q = Some token)
       (settled_row now token s) c))"
    by (rule settle_delivery_Some)
  obtain f where one: "in_flight c = [r]" "lane_owner c = Some token"
    using in_flight_single [OF ok r(1,3)] r(4) by metis
  have hit: "(here q \<and> dl_state q = OProcessing \<and> claim_token q = Some token) \<longleftrightarrow> q = r" if "q \<in> set (ch_deliveries c)" for q
    using that one(1) in_flight_set [of q c] r by auto
  have lane: "c1 = (drop_fences gone (update_deliveries
       (\<lambda>q. here q \<and> dl_state q = OProcessing \<and> claim_token q = Some token)
       (settled_row now token s) c))
      \<lparr>ch_lane := \<lparr>ln_owner = None, ln_next = now + provider_pace,
        ln_circuit = (case circuit of None \<Rightarrow> ln_circuit (ch_lane c) | Some s \<Rightarrow> Some (now + seconds s))\<rparr>\<rparr>"
    using one(2) by (simp add: c1 pace_lane_def lane_owner_def drop_fences_def update_deliveries_def cong: option.case_cong)
  show ?thesis unfolding lane
    by (rule end_in_flight [OF ok r(1,3) hit]) (use gone [OF r(2,4)] state [OF r(5)] in \<open>simp_all add: delivery_key_def settled_row_def\<close>)
qed

section \<open>The life of a delivery\<close>

inductive delivery_life :: "outbound_state \<Rightarrow> outbound_state \<Rightarrow> bool" where
  take: "s \<in> {OPending, ORetryWait} \<Longrightarrow> delivery_life s OProcessing"
| close: "s \<in> {OPending, ORetryWait} \<Longrightarrow> t \<in> {OCancelled, OFailed} \<Longrightarrow> delivery_life s t"
| settle: "t \<in> {ODelivered, OFailed, ORetryWait, OAmbiguous} \<Longrightarrow> delivery_life OProcessing t"

text \<open>The states that a delivery never leaves.\<close>

definition terminal :: "outbound_state \<Rightarrow> bool" where
  "terminal s \<longleftrightarrow> s \<in> {ODelivered, OFailed, OCancelled, OAmbiguous}"

lemma terminal_final: "delivery_life\<^sup>*\<^sup>* s t \<Longrightarrow> terminal s \<Longrightarrow> t = s"
  by (induction rule: rtranclp_induct) (auto simp: terminal_def elim: delivery_life.cases)

definition state_of :: "string \<times> string \<Rightarrow> ('x, 'f) channel \<Rightarrow> outbound_state option" where
  "state_of k c = map_option dl_state (lookup_row delivery_key k (ch_deliveries c))"

definition attempts_of :: "string \<times> string \<Rightarrow> ('x, 'f) channel \<Rightarrow> int" where
  "attempts_of k c = (case lookup_row delivery_key k (ch_deliveries c) of Some r \<Rightarrow> dl_attempts r | None \<Rightarrow> 0)"

text \<open>Every delivery stays and its state moves along its life.\<close>

definition moves :: "('x, 'f) channel \<Rightarrow> ('x, 'f) channel \<Rightarrow> bool" where
  "moves c c' \<longleftrightarrow> (\<forall>k. rel_option delivery_life\<^sup>*\<^sup>* (state_of k c) (state_of k c'))"

lemma moves_refl [simp, intro]: "moves c c"
  by (simp add: moves_def option.rel_refl)

lemma moves_trans: "moves c c1 \<Longrightarrow> moves c1 c2 \<Longrightarrow> moves c c2"
  unfolding moves_def
proof
  fix k assume a: "\<forall>k. rel_option delivery_life\<^sup>*\<^sup>* (state_of k c) (state_of k c1)"
    "\<forall>k. rel_option delivery_life\<^sup>*\<^sup>* (state_of k c1) (state_of k c2)"
  then have "rel_option delivery_life\<^sup>*\<^sup>* (state_of k c) (state_of k c1)" "rel_option delivery_life\<^sup>*\<^sup>* (state_of k c1) (state_of k c2)"
    by blast+
  then show "rel_option delivery_life\<^sup>*\<^sup>* (state_of k c) (state_of k c2)"
    by (auto simp: option_rel_Some1 elim!: option.rel_cases)
qed

lemma lookup_updated:
  assumes "\<And>r. delivery_key (f r) = delivery_key r"
  shows "lookup_row delivery_key k (ch_deliveries (update_deliveries P f c)) =
    map_option (\<lambda>r. if P r then f r else r) (lookup_row delivery_key k (ch_deliveries c))"
  using assms by (simp add: update_deliveries_def lookup_row_update)

lemma moves_update:
  assumes key: "\<And>r. delivery_key (f r) = delivery_key r"
    and life: "\<And>r. r \<in> set (ch_deliveries c) \<Longrightarrow> P r \<Longrightarrow> delivery_life\<^sup>*\<^sup>* (dl_state r) (dl_state (f r))"
    and rows: "ch_deliveries c' = ch_deliveries (update_deliveries P f c)"
  shows "moves c c'"
  unfolding moves_def
proof
  fix k
  show "rel_option delivery_life\<^sup>*\<^sup>* (state_of k c) (state_of k c')"
    by (cases "lookup_row delivery_key k (ch_deliveries c)")
      (auto simp: state_of_def rows lookup_updated [OF key] dest!: lookup_row_Some intro: life)
qed

lemma attempts_update:
  assumes "\<And>r. delivery_key (f r) = delivery_key r" "\<And>r. dl_attempts (f r) = dl_attempts r"
    "ch_deliveries c' = ch_deliveries (update_deliveries P f c)"
  shows "attempts_of k c' = attempts_of k c"
  by (cases "lookup_row delivery_key k (ch_deliveries c)")
    (auto simp: attempts_of_def assms(3) lookup_updated [OF assms(1)] assms(2))

section \<open>Steps that send nothing\<close>

inductive quiet ::
  "('x delivery_row_scheme \<Rightarrow> 'f fence_row \<Rightarrow> bool) \<Rightarrow> ('x, 'f) channel \<Rightarrow> ('x, 'f) channel \<Rightarrow> bool"
  for item where
  quiet_refl: "quiet item c c"
| quiet_recover: "quiet item c c' \<Longrightarrow> quiet item c (recover_expired item now a c')"
| quiet_close: "quiet item c c' \<Longrightarrow> (\<And>r. P r \<Longrightarrow> waiting r) \<Longrightarrow> s \<in> {OCancelled, OFailed} \<Longrightarrow>
    quiet item c (update_deliveries P (end_delivery now s) c')"

lemma quiet_ok: "quiet item c c' \<Longrightarrow> channel_ok item c \<Longrightarrow> channel_ok item c'"
  by (induction rule: quiet.induct) (auto intro: channel_ok_recover channel_ok_end)

lemma recovered_rows:
  assumes "channel_ok item c"
  shows "moves c (recover_expired item now a c) \<and> attempts_of k (recover_expired item now a c) = attempts_of k c
    \<and> set (in_flight (recover_expired item now a c)) \<subseteq> set (in_flight c)"
  using assms
proof (cases rule: recover_expired_cases [of item c now a])
  case (expired r token)
  let ?P = "\<lambda>q. dl_account q = dl_account r \<and> dl_id q = dl_id r \<and> claim_token q = Some token"
  let ?c = "recover_expired item now a c"
  have rows: "ch_deliveries ?c = ch_deliveries (update_deliveries ?P (recovered_row now True) c)"
    by (simp add: expired(4) drop_fences_def)
  have one: "q = r" if "q \<in> set (ch_deliveries c)" "?P q" for q
    using key_row [OF assms expired(1) that(1)] that(2) by blast
  have "moves c ?c"
  proof (rule moves_update [OF _ _ rows])
    show "delivery_life\<^sup>*\<^sup>* (dl_state q) (dl_state (recovered_row now True q))" if "q \<in> set (ch_deliveries c)" "?P q" for q
      using one [OF that] expired(2)
      by (auto simp: recovered_row_def lease_over_def intro!: r_into_rtranclp delivery_life.settle)
  qed (simp add: delivery_key_def recovered_row_def)
  moreover have "attempts_of k ?c = attempts_of k c"
    by (rule attempts_update [OF _ _ rows]) (simp_all add: delivery_key_def recovered_row_def)
  moreover have "set (in_flight ?c) \<subseteq> set (in_flight c)"
    by (auto simp: in_flight_def rows update_deliveries_def set_update_rows recovered_row_def)
  ultimately show ?thesis by blast
qed simp

lemma closed_rows:
  assumes "\<And>r. P r \<Longrightarrow> waiting r" "s \<in> {OCancelled, OFailed}"
  shows "moves c (update_deliveries P (end_delivery now s) c)
    \<and> attempts_of k (update_deliveries P (end_delivery now s) c) = attempts_of k c
    \<and> in_flight (update_deliveries P (end_delivery now s) c) = in_flight c"
proof (intro conjI)
  have w: "dl_state r \<in> {OPending, ORetryWait}" if "P r" for r using assms(1) [OF that] by (auto simp: waiting_def)
  show "moves c (update_deliveries P (end_delivery now s) c)"
    by (rule moves_update [of "end_delivery now s"])
      (use w assms(2) in \<open>auto simp: delivery_key_def end_delivery_def intro!: r_into_rtranclp delivery_life.close\<close>)
  show "attempts_of k (update_deliveries P (end_delivery now s) c) = attempts_of k c"
    by (rule attempts_update [of "end_delivery now s"]) (simp_all add: delivery_key_def end_delivery_def)
  show "in_flight (update_deliveries P (end_delivery now s) c) = in_flight c"
  proof (rule in_flight_update)
    show "dl_state r \<noteq> OProcessing \<and> dl_state (end_delivery now s r) \<noteq> OProcessing" if "P r" for r
      using w [OF that] assms(2) by (auto simp: end_delivery_def)
  qed
qed

lemma quiet_rows:
  "quiet item c c' \<Longrightarrow> channel_ok item c \<Longrightarrow>
   moves c c' \<and> attempts_of k c' = attempts_of k c \<and> set (in_flight c') \<subseteq> set (in_flight c)"
proof (induction rule: quiet.induct)
  case (quiet_recover c c' now a)
  then have ok: "channel_ok item c'" using quiet_ok by blast
  with recovered_rows [OF ok, of now a k] quiet_recover show ?case by (auto intro: moves_trans)
next
  case (quiet_close c c' P s now)
  with closed_rows [of P s c' now k] show ?case by (auto intro: moves_trans)
qed simp

section \<open>Claims and settlements, row by row\<close>

lemma publish_rows:
  assumes ok: "channel_ok item c" and lane: "lane_available now c"
    and p: "publish_claim now token until attempt here fence c = Inr (Some c1)"
    and key: "\<And>r. here r \<Longrightarrow> delivery_key r = k"
  shows "moves c c1" "attempts_of j c1 = (if j = k then attempt else attempts_of j c)"
    "\<exists>r. r \<in> set (ch_deliveries c) \<and> here r \<and> waiting r \<and> in_flight c1 = [processing_row now token until attempt r]"
proof -
  let ?P = "\<lambda>r. here r \<and> waiting r" and ?f = "processing_row now token until attempt"
  from p obtain r where r: "filter ?P (ch_deliveries c) = [r]"
    and c1: "c1 = (update_deliveries ?P ?f c)
      \<lparr>ch_fences := ch_fences c @ [fence], ch_lane := (ch_lane c)\<lparr>ln_owner := Some (token, until)\<rparr>\<rparr>"
    by (rule publish_claim_Some)
  have rs: "r \<in> set (ch_deliveries c)" "here r" "waiting r"
    using r by (metis (mono_tags, lifting) filter_eq_ConsD in_set_conv_decomp)+
  have rows: "ch_deliveries c1 = ch_deliveries (update_deliveries ?P ?f c)" by (simp add: c1)
  have fkey: "delivery_key (?f q) = delivery_key q" for q by (simp add: delivery_key_def processing_row_def)
  show "moves c c1"
    by (rule moves_update [OF fkey _ rows])
      (auto simp: processing_row_def waiting_def intro!: r_into_rtranclp delivery_life.take)
  have none: "dl_state q \<noteq> OProcessing" if "q \<in> set (ch_deliveries c)" for q
    using that lane_free [OF ok lane] by (auto simp: in_flight_def filter_empty_conv)
  then have "in_flight c1 = [?f r]"
    using filter_updated [of ?P "\<lambda>r. dl_state r = OProcessing" ?f "ch_deliveries c"] r
    by (simp add: c1 in_flight_def update_deliveries_def processing_row_def)
  with rs show "\<exists>r. r \<in> set (ch_deliveries c) \<and> here r \<and> waiting r \<and> in_flight c1 = [?f r]" by blast
  have l: "lookup_row delivery_key k (ch_deliveries c) = Some r"
    using lookup_row_unique [of delivery_key "ch_deliveries c" r] ok rs key [OF rs(2)] by (simp add: channel_ok_def)
  show "attempts_of j c1 = (if j = k then attempt else attempts_of j c)"
  proof (cases "j = k")
    case True
    with l rs show ?thesis by (simp add: attempts_of_def rows lookup_updated [OF fkey] processing_row_def)
  next
    case False
    then have "\<not> ?P q" if "lookup_row delivery_key j (ch_deliveries c) = Some q" for q
      using lookup_row_key [OF that] key by metis
    with False show ?thesis
      by (cases "lookup_row delivery_key j (ch_deliveries c)") (auto simp: attempts_of_def rows lookup_updated [OF fkey])
  qed
qed

lemma settle_rows:
  assumes ok: "channel_ok item c"
    and p: "settle_delivery name now here token authority gone plan circuit c = Inr (Some c1)"
    and state: "\<And>s. plan = Inr s \<Longrightarrow> se_state s \<in> {ODelivered, OFailed, ORetryWait, OAmbiguous}"
  shows "moves c c1" "attempts_of j c1 = attempts_of j c" "in_flight c1 = []"
    "\<exists>r\<in>set (in_flight c). claim_token r = Some token"
proof -
  from p obtain r s where r: "r \<in> set (ch_deliveries c)" "here r" "dl_state r = OProcessing" "claim_token r = Some token"
    "plan = Inr s" and c1: "c1 = pace_lane now circuit token (drop_fences gone (update_deliveries
       (\<lambda>q. here q \<and> dl_state q = OProcessing \<and> claim_token q = Some token) (settled_row now token s) c))"
    by (rule settle_delivery_Some)
  let ?P = "\<lambda>q. here q \<and> dl_state q = OProcessing \<and> claim_token q = Some token"
  have rows: "ch_deliveries c1 = ch_deliveries (update_deliveries ?P (settled_row now token s) c)"
    by (simp add: c1 pace_lane_def drop_fences_def)
  have fkey: "delivery_key (settled_row now token s q) = delivery_key q" for q by (simp add: delivery_key_def settled_row_def)
  show "moves c c1"
    by (rule moves_update [OF fkey _ rows])
      (use state [OF r(5)] in \<open>auto simp: settled_row_def intro!: r_into_rtranclp delivery_life.settle\<close>)
  show "attempts_of j c1 = attempts_of j c"
    by (rule attempts_update [OF fkey _ rows]) (simp add: settled_row_def)
  have one: "in_flight c = [r]" using in_flight_single [OF ok r(1,3)] by blast
  show "in_flight c1 = []"
  proof -
    have "dl_state q \<noteq> OProcessing" if "q \<in> set (ch_deliveries c1)" for q
    proof -
      from that consider "q \<in> set (ch_deliveries c)" "\<not> ?P q" | p where "q = settled_row now token s p"
        by (auto simp: rows update_deliveries_def set_update_rows)
      then show ?thesis
      proof cases
        case 1
        then have "q \<noteq> r" using r by blast
        with 1 one in_flight_set [of q c] show ?thesis by auto
      next
        case (2 p)
        with state [OF r(5)] show ?thesis by (auto simp: settled_row_def)
      qed
    qed
    then show ?thesis by (simp add: in_flight_def filter_empty_conv)
  qed
  show "\<exists>r\<in>set (in_flight c). claim_token r = Some token" using one r(4) by simp
qed

text \<open>A send whose lease ran out has an unknown outcome, and is not tried again.\<close>

lemma recovered_is_ambiguous:
  assumes ok: "channel_ok item c" and r: "r \<in> set (in_flight c)" "lease_over now a r"
  shows "state_of (delivery_key r) (recover_expired item now a c) = Some OAmbiguous"
  using ok
proof (cases rule: recover_expired_cases [of item c now a])
  case idle
  with r show ?thesis by (auto simp: in_flight_set filter_empty_conv)
next
  case (expired q t)
  obtain f where one: "in_flight c = [q]"
    using in_flight_single [OF ok expired(1)] expired(2) by (auto simp: lease_over_def)
  with r(1) have "q = r" by simp
  then have l: "lookup_row delivery_key (delivery_key r) (ch_deliveries c) = Some r"
    using lookup_row_unique [of delivery_key "ch_deliveries c" r] ok expired(1) by (simp add: channel_ok_def)
  let ?P = "\<lambda>p. dl_account p = dl_account q \<and> dl_id p = dl_id q \<and> claim_token p = Some t"
  have rows: "ch_deliveries (recover_expired item now a c) = ch_deliveries (update_deliveries ?P (recovered_row now True) c)"
    by (simp add: expired(4) drop_fences_def)
  have "delivery_key (recovered_row now True p) = delivery_key p" for p :: "'a delivery_row_scheme"
    by (simp add: delivery_key_def recovered_row_def)
  note lu = lookup_updated [of "recovered_row now True", OF this]
  show ?thesis
    using l \<open>q = r\<close> expired(3) by (simp add: state_of_def rows lu recovered_row_def)
qed

end
