(* ===== verification/Delivery_Safety.thy ===== *)
theory Delivery_Safety
  imports Delivery_Channel
begin

text \<open>
  The webhook and push transactions as steps of their channels, histories of them, and the
  guarantees that hold over every history.
\<close>

datatype delivery_op =
    NextWebhook timestamp string
  | ClaimWebhook timestamp string "unit webhook_candidate" frozen_webhook int
  | SettleWebhook timestamp webhook_claim webhook_outcome "int option"
  | CancelWebhooks timestamp string string
  | NextPush timestamp string
  | ClaimPush timestamp string push_candidate frozen_push int
  | SettlePush timestamp push_claim push_outcome "int option"

type_synonym presenter = "string \<Rightarrow> int \<Rightarrow> db \<Rightarrow> unit res"

fun delivery_step :: "presenter \<Rightarrow> delivery_op \<Rightarrow> db \<Rightarrow> db" where
  "delivery_step present (NextWebhook now a) d = snd (next_webhook_candidate present now a d)"
| "delivery_step present (ClaimWebhook now t cand req lease) d = snd (claim_webhook now t cand req lease d)"
| "delivery_step present (SettleWebhook now cl w circuit) d = snd (settle_webhook now cl w circuit d)"
| "delivery_step present (CancelWebhooks now a s) d = snd (cancel_webhook_deliveries now a s d)"
| "delivery_step present (NextPush now a) d = snd (next_push_candidate now a d)"
| "delivery_step present (ClaimPush now t cand req lease) d = snd (claim_push now t cand req lease d)"
| "delivery_step present (SettlePush now cl w circuit) d = snd (settle_push now cl w circuit d)"

section \<open>The transactions seen by their channels\<close>

lemma prune_webhooks_quiet:
  "quiet same_item (webhook_channel d) (webhook_channel (prune_webhooks now a d))"
  by (auto simp: prune_webhooks_def Let_def recover_expired_webhook_claims_def update_webhooks_def
      intro!: quiet.intros)

lemma prune_pushes_quiet: "quiet any_item (push_channel d) (push_channel (prune_pushes now a d))"
  by (auto simp: prune_pushes_def Let_def recover_expired_push_claims_def update_pushes_def intro!: quiet.intros)

lemma next_webhook_result:
  "snd (next_webhook_candidate present now a d) \<in> {d, prune_webhooks now a d}"
  by (auto simp: next_webhook_candidate_def Let_def split: option.split sum.split)

lemma next_push_result: "snd (next_push_candidate now a d) = prune_pushes now a d"
  by (auto simp: next_push_candidate_def Let_def split: option.split)

lemma cancel_result:
  "snd (cancel_webhook_deliveries now a s d) = d \<or>
   snd (cancel_webhook_deliveries now a s d) = update_webhooks (\<lambda>r. dl_account r = a \<and> dl_target r = s \<and> waiting r)
     (end_delivery now OCancelled) (recover_expired_webhook_claims now a d)"
  by (simp add: cancel_webhook_deliveries_def Let_def)

definition claim_fence :: "timestamp \<Rightarrow> string \<Rightarrow> 'e webhook_candidate \<Rightarrow> frozen_webhook \<Rightarrow> int \<Rightarrow> webhook_request fence_row" where
  "claim_fence now token cand req lease = \<lparr>fen_account = wc_account cand, fen_item = wc_event cand, fen_claim = token,
     fen_expires = lease_end_ms now lease * 1000,
     fen_request = \<lparr>wr_subscription = wc_subscription cand, wr_endpoint = fw_endpoint req, wr_secret = fw_secret req,
       wr_include = fw_include req\<rparr>\<rparr>"

abbreviation candidate_here :: "'e webhook_candidate \<Rightarrow> delivery_row \<Rightarrow> bool" where
  "candidate_here cand \<equiv> webhook_here (wc_account cand) (wc_episode_id cand) (wc_subscription cand) (wc_version cand) (wc_event cand)"

text \<open>A claim sends to the destination the account has configured at that moment, or does nothing.\<close>

lemma claim_webhook_cases:
  obtains (refused) "snd (claim_webhook now token cand req lease d) = d"
      "\<And>cl. fst (claim_webhook now token cand req lease d) \<noteq> Inr (Some cl)"
  | (claimed) c1 r u w where
      "claim_webhook now token cand req lease d = (Inr (Some \<lparr>wl_account = wc_account cand, wl_episode_id = wc_episode_id cand,
         wl_subscription = wc_subscription cand, wl_version = wc_version cand, wl_event = wc_event cand, wl_token = token,
         wl_expires = format_epoch_millis (lease_end_ms now lease), wl_attempts = wc_attempts cand + 1, wl_request = req\<rparr>),
        d\<lparr>webhook_channel := c1\<rparr>)"
      "0 \<le> wc_attempts cand" "wc_attempts cand < 10" "1 \<le> lease" "lease \<le> 120"
      "lane_available now (recover_expired same_item now (wc_account cand) (webhook_channel d))"
      "publish_claim now token (lease_end_ms now lease * 1000) (wc_attempts cand + 1) (candidate_here cand)
         (claim_fence now token cand req lease) (recover_expired same_item now (wc_account cand) (webhook_channel d))
       = Inr (Some c1)"
      "r \<in> set (ch_deliveries (recover_expired same_item now (wc_account cand) (webhook_channel d)))"
      "candidate_here cand r" "waiting r" "dl_attempts r = wc_attempts cand"
      "lookup_row acc_id (wc_account cand) (accounts d) = Some u" "acc_status u = Active"
      "find_subscription (wc_account cand) (wc_subscription cand) d = Some w" "wh_enabled w" "wh_endpoint w = fw_endpoint req"
      "wh_secret w = fw_secret req" "wh_include w = fw_include req"
proof (cases "claim_webhook now token cand req lease d")
  case (Pair x d')
  show ?thesis
  proof (cases "\<exists>cl. x = Inr (Some cl)")
    case False
    have "d' = d" using Pair False
      by (auto simp: claim_webhook_def Let_def split: if_splits option.splits sum.splits prod.splits)
    with Pair False that(1) show ?thesis by simp
  next
    case True
    let ?a = "wc_account cand"
    let ?d = "recover_expired_webhook_claims now ?a d"
    let ?c = "webhook_channel ?d"
    have d1: "accounts ?d = accounts d" "find_subscription b s ?d = find_subscription b s d" "webhook_channel ?d = recover_expired same_item now ?a (webhook_channel d)"
      "?d\<lparr>webhook_channel := c1\<rparr> = d\<lparr>webhook_channel := c1\<rparr>" for b s c1
      by (simp_all add: recover_expired_webhook_claims_def find_subscription_def)
    from True Pair obtain r where guards: "0 \<le> wc_attempts cand" "wc_attempts cand < 10" "1 \<le> lease" "lease \<le> 120"
      "lane_available now ?c" and f: "List.find (\<lambda>r. candidate_here cand r \<and> waiting r \<and> dl_next r \<le> now) (ch_deliveries ?c) = Some r"
      by (auto simp: claim_webhook_def Let_def split: if_splits option.splits sum.splits)
    have r: "r \<in> set (ch_deliveries ?c)" "candidate_here cand r" "waiting r" using find_Some_match [OF f] by simp_all
    then have target: "dl_target r = wc_subscription cand" by (simp add: webhook_here_def)
    from True Pair guards f target obtain u w c1 where
      rest: "lookup_row acc_id ?a (accounts ?d) = Some u" "find_subscription ?a (wc_subscription cand) ?d = Some w"
      "acc_status u = Active" "wh_enabled w" "wh_endpoint w = fw_endpoint req"
      "wh_secret w = fw_secret req" "wh_include w = fw_include req" "dl_attempts r = wc_attempts cand"
      "publish_claim now token (lease_end_ms now lease * 1000) (wc_attempts cand + 1) (candidate_here cand)
         (claim_fence now token cand req lease) ?c = Inr (Some c1)"
      "claim_webhook now token cand req lease d = (Inr (Some \<lparr>wl_account = wc_account cand, wl_episode_id = wc_episode_id cand,
         wl_subscription = wc_subscription cand, wl_version = wc_version cand, wl_event = wc_event cand, wl_token = token,
         wl_expires = format_epoch_millis (lease_end_ms now lease), wl_attempts = wc_attempts cand + 1, wl_request = req\<rparr>),
        ?d\<lparr>webhook_channel := c1\<rparr>)"
      by (auto simp: claim_webhook_def Let_def claim_fence_def split: if_splits option.splits sum.splits)
    show ?thesis
      by (rule that(2) [of c1 r u w]) (use guards r rest in \<open>simp_all add: d1\<close>)
  qed
qed

definition push_fence :: "timestamp \<Rightarrow> string \<Rightarrow> push_candidate \<Rightarrow> frozen_push \<Rightarrow> int \<Rightarrow> push_generation fence_row" where
  "push_fence now token cand req lease = \<lparr>fen_account = pc_account_id cand, fen_item = pc_installation cand, fen_claim = token,
     fen_expires = lease_end_ms now lease * 1000, fen_request = fp_generation req\<rparr>"

abbreviation push_candidate_here :: "push_candidate \<Rightarrow> push_delivery_row \<Rightarrow> bool" where
  "push_candidate_here cand \<equiv> push_here (pc_account_id cand) (pc_episode cand) (pc_binding cand) (pc_version cand) (pc_delivery cand)"

lemma claim_push_cases:
  obtains (refused) "snd (claim_push now token cand req lease d) = d"
      "\<And>cl. fst (claim_push now token cand req lease d) \<noteq> Inr (Some cl)"
  | (claimed) c1 r u p cl where
      "claim_push now token cand req lease d = (Inr (Some cl), d\<lparr>push_channel := c1\<rparr>)"
      "0 \<le> pc_attempts cand" "pc_attempts cand < 10" "1 \<le> lease" "lease \<le> 120"
      "lane_available now (recover_expired any_item now (pc_account_id cand) (push_channel d))"
      "publish_claim now token (lease_end_ms now lease * 1000) (pc_attempts cand + 1) (push_candidate_here cand)
         (push_fence now token cand req lease) (recover_expired any_item now (pc_account_id cand) (push_channel d))
       = Inr (Some c1)"
      "r \<in> set (ch_deliveries (recover_expired any_item now (pc_account_id cand) (push_channel d)))"
      "push_candidate_here cand r" "waiting r" "dl_attempts r = pc_attempts cand"
      "lookup_row acc_id (pc_account_id cand) (accounts d) = Some u" "acc_status u = Active"
      "p \<in> set (push_installations d)" "pu_account p = pc_account_id cand" "pu_id p = pc_installation cand" "pu_enabled p"
      "pu_topic p = fp_topic req" "pu_environment p = fp_environment req" "pu_token p = fp_token req"
      "pu_generation p = fp_generation req"
proof (cases "claim_push now token cand req lease d")
  case (Pair x d')
  show ?thesis
  proof (cases "\<exists>cl. x = Inr (Some cl)")
    case False
    have "d' = d" using Pair False
      by (auto simp: claim_push_def Let_def split: if_splits option.splits sum.splits prod.splits)
    with Pair False that(1) show ?thesis by simp
  next
    case True
    let ?a = "pc_account_id cand"
    let ?d = "recover_expired_push_claims now ?a d"
    let ?c = "push_channel ?d"
    have d1: "accounts ?d = accounts d" "push_installations ?d = push_installations d"
      "push_channel ?d = recover_expired any_item now ?a (push_channel d)" "?d\<lparr>push_channel := c1\<rparr> = d\<lparr>push_channel := c1\<rparr>" for c1
      by (simp_all add: recover_expired_push_claims_def)
    from True Pair obtain r where guards: "0 \<le> pc_attempts cand" "pc_attempts cand < 10" "1 \<le> lease" "lease \<le> 120"
      "lane_available now ?c" and f: "List.find (\<lambda>r. push_candidate_here cand r \<and> waiting r \<and> dl_next r \<le> now) (ch_deliveries ?c) = Some r"
      by (auto simp: claim_push_def Let_def split: if_splits option.splits sum.splits)
    have r: "r \<in> set (ch_deliveries ?c)" "push_candidate_here cand r" "waiting r" using find_Some_match [OF f] by simp_all
    from True Pair guards f obtain u p c1 cl where
      rest: "lookup_row acc_id ?a (accounts ?d) = Some u"
      "List.find (\<lambda>p. pu_account p = ?a \<and> pu_id p = pc_installation cand) (push_installations ?d) = Some p"
      "acc_status u = Active" "pu_enabled p" "pu_topic p = fp_topic req" "pu_environment p = fp_environment req"
      "pu_token p = fp_token req" "pu_generation p = fp_generation req" "dl_attempts r = pc_attempts cand"
      "publish_claim now token (lease_end_ms now lease * 1000) (pc_attempts cand + 1) (push_candidate_here cand)
         (push_fence now token cand req lease) ?c = Inr (Some c1)"
      "claim_push now token cand req lease d = (Inr (Some cl), ?d\<lparr>push_channel := c1\<rparr>)"
      by (auto simp: claim_push_def Let_def push_fence_def split: if_splits option.splits sum.splits)
    have "p \<in> set (push_installations d)" "pu_account p = ?a" "pu_id p = pc_installation cand"
      using find_Some_match [OF rest(2)] by (simp_all add: d1)
    then show ?thesis
      by (intro that(2) [of cl c1 r u p]) (use guards r rest in \<open>simp_all add: d1\<close>)
  qed
qed

text \<open>The settlement part of a transaction, for the two channels.\<close>

definition webhook_settled :: "timestamp \<Rightarrow> webhook_claim \<Rightarrow> webhook_outcome \<Rightarrow> int option \<Rightarrow> db
    \<Rightarrow> (unit, webhook_request) channel option res" where
  "webhook_settled now cl outcome circuit d =
     settle_delivery ''webhook'' now
       (webhook_here (wl_account cl) (wl_episode_id cl) (wl_subscription cl) (wl_version cl) (wl_event cl)) (wl_token cl)
       (\<lambda>f. (fen_account f = wl_account cl \<and> fen_item f = wl_event cl \<and> fen_claim f = wl_token cl) \<and>
            fen_request f = \<lparr>wr_subscription = wl_subscription cl, wr_endpoint = fw_endpoint (wl_request cl),
              wr_secret = fw_secret (wl_request cl), wr_include = fw_include (wl_request cl)\<rparr>)
       (\<lambda>f. fen_account f = wl_account cl \<and> fen_item f = wl_event cl \<and> fen_claim f = wl_token cl)
       (webhook_settlement outcome) circuit (webhook_channel d)"

definition push_settled :: "timestamp \<Rightarrow> push_claim \<Rightarrow> push_outcome \<Rightarrow> int option \<Rightarrow> db
    \<Rightarrow> (\<lparr>dl_handoff :: string, dl_collapse :: string\<rparr>, push_generation) channel option res" where
  "push_settled now cl outcome circuit d =
     settle_delivery ''push'' now
       (push_here (pl_account cl) (pl_episode cl) (pl_binding cl) (pl_version cl) (pl_delivery cl)) (pl_token cl)
       (\<lambda>f. fen_account f = pl_account cl \<and> fen_item f = pl_installation cl
          \<and> fen_request f = fp_generation (pl_request cl) \<and> fen_claim f = pl_token cl)
       (\<lambda>f. fen_account f = pl_account cl \<and> fen_claim f = pl_token cl)
       (push_settlement outcome) circuit (push_channel d)"

lemma settle_webhook_cases:
  obtains (unchanged) "snd (settle_webhook now cl w circuit d) = d"
      "\<not> settlement_ok (webhook_valid w) circuit \<or> (\<forall>c. webhook_settled now cl w circuit d \<noteq> Inr (Some c))"
  | (settled) c where "webhook_settled now cl w circuit d = Inr (Some c)" "settlement_ok (webhook_valid w) circuit"
      "settle_webhook now cl w circuit d = (Inr (), d\<lparr>webhook_channel := c\<rparr>)"
proof (cases "settlement_ok (webhook_valid w) circuit \<and> (\<exists>c. webhook_settled now cl w circuit d = Inr (Some c))")
  case True
  then obtain c where "webhook_settled now cl w circuit d = Inr (Some c)" "settlement_ok (webhook_valid w) circuit" by blast
  with that(2) show ?thesis by (simp add: settle_webhook_def webhook_settled_def Let_def)
next
  case False
  then have "snd (settle_webhook now cl w circuit d) = d"
    by (auto simp: settle_webhook_def webhook_settled_def Let_def split: sum.split option.split)
  with False that(1) show ?thesis by blast
qed

lemma settle_push_cases:
  obtains (unchanged) "snd (settle_push now cl w circuit d) = d"
      "\<not> settlement_ok (push_valid w) circuit \<or> (\<forall>c. push_settled now cl w circuit d \<noteq> Inr (Some c))"
  | (settled) c i where "push_settled now cl w circuit d = Inr (Some c)" "settlement_ok (push_valid w) circuit"
      "settle_push now cl w circuit d = (Inr (), d\<lparr>push_channel := c, push_installations := i\<rparr>)"
proof (cases "settlement_ok (push_valid w) circuit \<and> (\<exists>c. push_settled now cl w circuit d = Inr (Some c))")
  case True
  then obtain c where c: "push_settled now cl w circuit d = Inr (Some c)" "settlement_ok (push_valid w) circuit" by blast
  then have "\<exists>i. settle_push now cl w circuit d = (Inr (), d\<lparr>push_channel := c, push_installations := i\<rparr>)"
    unfolding settle_push_def push_settled_def by (intro exI) simp
  with c that(2) show ?thesis by blast
next
  case False
  then have "snd (settle_push now cl w circuit d) = d"
    by (auto simp: settle_push_def push_settled_def split: sum.split option.split)
  with False that(1) show ?thesis by blast
qed

lemma webhook_settlement_state: "webhook_settlement w = Inr s \<Longrightarrow> se_state s \<in> {ODelivered, OFailed, ORetryWait, OAmbiguous}"
  by (cases w) (auto split: sum.splits)

lemma push_settlement_state: "push_settlement w = Inr s \<Longrightarrow> se_state s \<in> {ODelivered, OFailed, ORetryWait, OAmbiguous}"
  by (cases w) (auto split: sum.splits)

section \<open>The invariant\<close>

definition deliveries_ok :: "db \<Rightarrow> bool" where
  "deliveries_ok d \<longleftrightarrow> channel_ok same_item (webhook_channel d) \<and> channel_ok any_item (push_channel d)"

lemma channel_ok_claim_webhook:
  assumes "channel_ok same_item c" "lane_available now (recover_expired same_item now a c)"
    "publish_claim now token until n (candidate_here cand) (claim_fence now token cand req lease)
      (recover_expired same_item now a c) = Inr (Some c1)"
  shows "channel_ok same_item c1"
  by (rule channel_ok_publish [OF channel_ok_recover [OF assms(1)] assms(2,3)])
    (simp_all add: claim_fence_def webhook_here_def same_item_def processing_row_def)

lemma channel_ok_claim_push:
  assumes "channel_ok any_item c" "lane_available now (recover_expired any_item now a c)"
    "publish_claim now token until n (push_candidate_here cand) (push_fence now token cand req lease)
      (recover_expired any_item now a c) = Inr (Some c1)"
  shows "channel_ok any_item c1"
  by (rule channel_ok_publish [OF channel_ok_recover [OF assms(1)] assms(2,3)])
    (simp_all add: push_fence_def push_here_def any_item_def processing_row_def)

lemma channel_ok_settle_webhook:
  assumes "channel_ok same_item (webhook_channel d)" "webhook_settled now cl w circuit d = Inr (Some c)"
  shows "channel_ok same_item c"
  by (rule channel_ok_settle [OF assms(1) assms(2) [unfolded webhook_settled_def]])
    (auto simp: webhook_here_def own_fence_def same_item_def dest: webhook_settlement_state)

lemma channel_ok_settle_push:
  assumes "channel_ok any_item (push_channel d)" "push_settled now cl w circuit d = Inr (Some c)"
  shows "channel_ok any_item c"
  by (rule channel_ok_settle [OF assms(1) assms(2) [unfolded push_settled_def]])
    (auto simp: push_here_def own_fence_def dest: push_settlement_state)

section \<open>What one transaction does to a channel\<close>

text \<open>The claims that succeed, and the settlements that take effect.\<close>

fun claims_webhook :: "string \<times> string \<Rightarrow> delivery_op \<Rightarrow> db \<Rightarrow> bool" where
  "claims_webhook k (ClaimWebhook now t cand req lease) d \<longleftrightarrow>
     k = (wc_account cand, wc_event cand) \<and> (\<exists>cl. fst (claim_webhook now t cand req lease d) = Inr (Some cl))"
| "claims_webhook k _ d \<longleftrightarrow> False"

fun claims_push :: "string \<times> string \<Rightarrow> delivery_op \<Rightarrow> db \<Rightarrow> bool" where
  "claims_push k (ClaimPush now t cand req lease) d \<longleftrightarrow>
     k = (pc_account_id cand, pc_delivery cand) \<and> (\<exists>cl. fst (claim_push now t cand req lease d) = Inr (Some cl))"
| "claims_push k _ d \<longleftrightarrow> False"

lemma webhook_effect:
  obtains (quiet) "quiet same_item (webhook_channel d) (webhook_channel (delivery_step present x d))"
      "\<And>k. \<not> claims_webhook k x d"
  | (claim) now t cand req lease c where "x = ClaimWebhook now t cand req lease"
      "quiet same_item (webhook_channel d) c" "lane_available now c"
      "publish_claim now t (lease_end_ms now lease * 1000) (wc_attempts cand + 1) (candidate_here cand)
         (claim_fence now t cand req lease) c = Inr (Some (webhook_channel (delivery_step present x d)))"
      "\<And>k. claims_webhook k x d \<longleftrightarrow> k = (wc_account cand, wc_event cand)"
      "wc_attempts cand < 10" "account_active d (wc_account cand)"
      "\<exists>r\<in>set (ch_deliveries c). candidate_here cand r \<and> waiting r \<and> dl_attempts r = wc_attempts cand"
  | (settle) now cl w circuit where "x = SettleWebhook now cl w circuit"
      "webhook_settled now cl w circuit d = Inr (Some (webhook_channel (delivery_step present x d)))"
      "settlement_ok (webhook_valid w) circuit" "\<And>k. \<not> claims_webhook k x d"
proof (cases x)
  case (NextWebhook now a)
  have "quiet same_item (webhook_channel d) (webhook_channel (delivery_step present x d))"
    using next_webhook_result [of present now a d] prune_webhooks_quiet [of d now a]
    by (auto simp: NextWebhook intro: quiet.quiet_refl)
  with NextWebhook show ?thesis by (intro quiet) auto
next
  case (ClaimWebhook now t cand req lease)
  show ?thesis
  proof (cases rule: claim_webhook_cases [of now t cand req lease d])
    case refused
    then show ?thesis by (intro quiet) (auto simp: ClaimWebhook intro: quiet.quiet_refl)
  next
    case (claimed c1 r u w)
    have "account_active d (wc_account cand)"
      using lookup_row_Some [OF claimed(12)] claimed(13) by (auto simp: account_active_iff)
    then show ?thesis
      by (intro claim [OF ClaimWebhook quiet.quiet_recover [OF quiet.quiet_refl] claimed(6)])
        (use claimed in \<open>auto simp: ClaimWebhook\<close>)
  qed
next
  case (SettleWebhook now cl w circuit)
  show ?thesis
  proof (cases rule: settle_webhook_cases [of now cl w circuit d])
    case unchanged
    then show ?thesis by (intro quiet) (auto simp: SettleWebhook intro: quiet.quiet_refl)
  next
    case (settled c)
    then show ?thesis by (intro settle [OF SettleWebhook]) (simp_all add: SettleWebhook)
  qed
next
  case (CancelWebhooks now a s)
  have "quiet same_item (webhook_channel d) (webhook_channel (delivery_step present x d))"
    using cancel_result [of now a s d]
    by (auto simp: CancelWebhooks update_webhooks_def recover_expired_webhook_claims_def intro!: quiet.intros)
  with CancelWebhooks show ?thesis by (intro quiet) auto
next
  case (NextPush now a)
  then show ?thesis
    by (intro quiet) (simp_all add: next_push_result prune_pushes_def update_pushes_def recover_expired_push_claims_def Let_def quiet.quiet_refl)
next
  case (ClaimPush now t cand req lease)
  then show ?thesis
    by (cases rule: claim_push_cases [of now t cand req lease d]) (auto intro!: quiet intro: quiet.quiet_refl)
next
  case (SettlePush now cl w circuit)
  then show ?thesis
    by (cases rule: settle_push_cases [of now cl w circuit d]) (auto intro!: quiet intro: quiet.quiet_refl)
qed

lemma push_effect:
  obtains (quiet) "quiet any_item (push_channel d) (push_channel (delivery_step present x d))"
      "\<And>k. \<not> claims_push k x d"
  | (claim) now t cand req lease c where "x = ClaimPush now t cand req lease"
      "quiet any_item (push_channel d) c" "lane_available now c"
      "publish_claim now t (lease_end_ms now lease * 1000) (pc_attempts cand + 1) (push_candidate_here cand)
         (push_fence now t cand req lease) c = Inr (Some (push_channel (delivery_step present x d)))"
      "\<And>k. claims_push k x d \<longleftrightarrow> k = (pc_account_id cand, pc_delivery cand)"
      "pc_attempts cand < 10" "account_active d (pc_account_id cand)"
      "\<exists>r\<in>set (ch_deliveries c). push_candidate_here cand r \<and> waiting r \<and> dl_attempts r = pc_attempts cand"
  | (settle) now cl w circuit where "x = SettlePush now cl w circuit"
      "push_settled now cl w circuit d = Inr (Some (push_channel (delivery_step present x d)))"
      "settlement_ok (push_valid w) circuit" "\<And>k. \<not> claims_push k x d"
proof (cases x)
  case (NextPush now a)
  then show ?thesis using prune_pushes_quiet [of d now a] by (intro quiet) (simp_all add: next_push_result)
next
  case (ClaimPush now t cand req lease)
  show ?thesis
  proof (cases rule: claim_push_cases [of now t cand req lease d])
    case refused
    then show ?thesis by (intro quiet) (auto simp: ClaimPush intro: quiet.quiet_refl)
  next
    case (claimed cl c1 r u p)
    have "account_active d (pc_account_id cand)"
      using lookup_row_Some [OF claimed(12)] claimed(13) by (auto simp: account_active_iff)
    then show ?thesis
      by (intro claim [OF ClaimPush quiet.quiet_recover [OF quiet.quiet_refl] claimed(6)])
        (use claimed in \<open>auto simp: ClaimPush\<close>)
  qed
next
  case (SettlePush now cl w circuit)
  show ?thesis
  proof (cases rule: settle_push_cases [of now cl w circuit d])
    case unchanged
    then show ?thesis by (intro quiet) (auto simp: SettlePush intro: quiet.quiet_refl)
  next
    case (settled c i)
    then show ?thesis by (intro settle [OF SettlePush]) (simp_all add: SettlePush)
  qed
next
  case (NextWebhook now a)
  then show ?thesis using next_webhook_result [of present now a d]
    by (intro quiet) (auto simp: prune_webhooks_def update_webhooks_def recover_expired_webhook_claims_def Let_def quiet.quiet_refl)
next
  case (CancelWebhooks now a s)
  then show ?thesis using cancel_result [of now a s d]
    by (intro quiet) (auto simp: update_webhooks_def recover_expired_webhook_claims_def quiet.quiet_refl)
next
  case (ClaimWebhook now t cand req lease)
  then show ?thesis
    by (cases rule: claim_webhook_cases [of now t cand req lease d]) (auto intro!: quiet intro: quiet.quiet_refl)
next
  case (SettleWebhook now cl w circuit)
  then show ?thesis
    by (cases rule: settle_webhook_cases [of now cl w circuit d]) (auto intro!: quiet intro: quiet.quiet_refl)
qed

section \<open>One step\<close>

lemma key_here: "candidate_here cand r \<Longrightarrow> delivery_key r = (wc_account cand, wc_event cand)"
  "push_candidate_here pcand q \<Longrightarrow> delivery_key q = (pc_account_id pcand, pc_delivery pcand)"
  by (simp_all add: webhook_here_def push_here_def delivery_key_def)

lemma attempts_lookup:
  assumes "channel_ok item c" "r \<in> set (ch_deliveries c)"
  shows "attempts_of (delivery_key r) c = dl_attempts r"
  using lookup_row_unique [of delivery_key "ch_deliveries c" r] assms by (simp add: channel_ok_def attempts_of_def)

lemma webhook_step_facts:
  assumes ok: "channel_ok same_item (webhook_channel d)"
  shows "channel_ok same_item (webhook_channel (delivery_step present x d)) \<and> moves (webhook_channel d) (webhook_channel (delivery_step present x d))
    \<and> attempts_of k (webhook_channel (delivery_step present x d)) = attempts_of k (webhook_channel d) + (if claims_webhook k x d then 1 else 0)
    \<and> (claims_webhook k x d \<longrightarrow> attempts_of k (webhook_channel d) < 10)"
proof (cases rule: webhook_effect [of d present x])
  case quiet
  then show ?thesis
    using quiet_ok [OF quiet(1) ok] quiet_rows [OF quiet(1) ok, of k] by simp
next
  case (claim now t cand req lease c)
  have okc: "channel_ok same_item c" using quiet_ok [OF claim(2) ok] .
  note q = quiet_rows [OF claim(2) ok, of k]
  note p = publish_rows [OF okc claim(3,4) key_here(1) [of cand]]
  from claim(8) obtain r where r: "r \<in> set (ch_deliveries c)" "candidate_here cand r" "dl_attempts r = wc_attempts cand" by blast
  have at: "attempts_of (wc_account cand, wc_event cand) c = wc_attempts cand"
    using attempts_lookup [OF okc r(1)] key_here(1) [OF r(2)] r(3) by simp
  have "channel_ok same_item (webhook_channel (delivery_step present x d))"
    by (rule channel_ok_publish [OF okc claim(3,4)])
      (simp_all add: claim_fence_def webhook_here_def same_item_def processing_row_def)
  with p(1) p(2) [of k] q at claim(6) show ?thesis
    by (auto simp: claim(5) intro: moves_trans)
next
  case (settle now cl w circuit)
  note s = settle_rows [OF ok settle(2) [unfolded webhook_settled_def] webhook_settlement_state [of w]]
  from channel_ok_settle_webhook [OF ok settle(2)] s(1) s(2) [of k] settle(4)
  show ?thesis
    by simp
qed

lemma push_step_facts:
  assumes ok: "channel_ok any_item (push_channel d)"
  shows "channel_ok any_item (push_channel (delivery_step present x d)) \<and> moves (push_channel d) (push_channel (delivery_step present x d))
    \<and> attempts_of k (push_channel (delivery_step present x d)) = attempts_of k (push_channel d) + (if claims_push k x d then 1 else 0)
    \<and> (claims_push k x d \<longrightarrow> attempts_of k (push_channel d) < 10)"
proof (cases rule: push_effect [of d present x])
  case quiet
  then show ?thesis
    using quiet_ok [OF quiet(1) ok] quiet_rows [OF quiet(1) ok, of k] by simp
next
  case (claim now t cand req lease c)
  have okc: "channel_ok any_item c" using quiet_ok [OF claim(2) ok] .
  note q = quiet_rows [OF claim(2) ok, of k]
  note p = publish_rows [OF okc claim(3,4) key_here(2) [of cand]]
  from claim(8) obtain r where r: "r \<in> set (ch_deliveries c)" "push_candidate_here cand r" "dl_attempts r = pc_attempts cand" by blast
  have at: "attempts_of (pc_account_id cand, pc_delivery cand) c = pc_attempts cand"
    using attempts_lookup [OF okc r(1)] key_here(2) [OF r(2)] r(3) by simp
  have "channel_ok any_item (push_channel (delivery_step present x d))"
    by (rule channel_ok_publish [OF okc claim(3,4)])
      (simp_all add: push_fence_def push_here_def any_item_def processing_row_def)
  with p(1) p(2) [of k] q at claim(6) show ?thesis
    by (auto simp: claim(5) intro: moves_trans)
next
  case (settle now cl w circuit)
  note s = settle_rows [OF ok settle(2) [unfolded push_settled_def] push_settlement_state [of w]]
  from channel_ok_settle_push [OF ok settle(2)] s(1) s(2) [of k] settle(4)
  show ?thesis
    by simp
qed

lemma webhook_one_step:
  assumes "channel_ok same_item (webhook_channel d)"
  shows "channel_ok same_item (webhook_channel (delivery_step present x d))"
    "moves (webhook_channel d) (webhook_channel (delivery_step present x d))"
    "attempts_of k (webhook_channel (delivery_step present x d)) =
       attempts_of k (webhook_channel d) + (if claims_webhook k x d then 1 else 0)"
    "claims_webhook k x d \<Longrightarrow> attempts_of k (webhook_channel d) < 10"
  using webhook_step_facts [OF assms, of present x k] by blast+

lemma push_one_step:
  assumes "channel_ok any_item (push_channel d)"
  shows "channel_ok any_item (push_channel (delivery_step present x d))"
    "moves (push_channel d) (push_channel (delivery_step present x d))"
    "attempts_of k (push_channel (delivery_step present x d)) =
       attempts_of k (push_channel d) + (if claims_push k x d then 1 else 0)"
    "claims_push k x d \<Longrightarrow> attempts_of k (push_channel d) < 10"
  using push_step_facts [OF assms, of present x k] by blast+

lemma deliveries_ok_step: "deliveries_ok d \<Longrightarrow> deliveries_ok (delivery_step present x d)"
  by (simp add: deliveries_ok_def webhook_one_step(1) push_one_step(1))

section \<open>Attempts are bounded\<close>

interpretation webhook_attempts: metered "delivery_step present" deliveries_ok "\<lambda>d. attempts_of k (webhook_channel d)"
  "\<lambda>x d. if claims_webhook k x d then 1 else 0" "\<lambda>_. True" 10
  for present k
proof
  fix d :: db and x assume "deliveries_ok d"
  then have ok: "channel_ok same_item (webhook_channel d)" by (simp add: deliveries_ok_def)
  show "attempts_of k (webhook_channel (delivery_step present x d)) = attempts_of k (webhook_channel d) + (if claims_webhook k x d then 1 else 0)"
    using webhook_one_step(3) [OF ok] .
  show "(if claims_webhook k x d then 1 else 0) \<noteq> (0 :: int) \<Longrightarrow>
      attempts_of k (webhook_channel d) + (if claims_webhook k x d then 1 else 0) \<le> 10"
    using webhook_one_step(4) [OF ok, of k x] by (simp split: if_splits)
qed (rule deliveries_ok_step)

interpretation push_attempts: metered "delivery_step present" deliveries_ok "\<lambda>d. attempts_of k (push_channel d)"
  "\<lambda>x d. if claims_push k x d then 1 else 0" "\<lambda>_. True" 10
  for present k
proof
  fix d :: db and x assume "deliveries_ok d"
  then have ok: "channel_ok any_item (push_channel d)" by (simp add: deliveries_ok_def)
  show "attempts_of k (push_channel (delivery_step present x d)) = attempts_of k (push_channel d) + (if claims_push k x d then 1 else 0)"
    using push_one_step(3) [OF ok] .
  show "(if claims_push k x d then 1 else 0) \<noteq> (0 :: int) \<Longrightarrow>
      attempts_of k (push_channel d) + (if claims_push k x d then 1 else 0) \<le> 10"
    using push_one_step(4) [OF ok, of k x] by (simp split: if_splits)
qed (rule deliveries_ok_step)

section \<open>A claim is settled at most once\<close>

definition webhook_live :: "string \<Rightarrow> db \<Rightarrow> bool" where
  "webhook_live t d \<longleftrightarrow> (\<exists>r\<in>set (in_flight (webhook_channel d)). claim_token r = Some t)"

fun settles_webhook :: "string \<Rightarrow> delivery_op \<Rightarrow> db \<Rightarrow> bool" where
  "settles_webhook t (SettleWebhook now cl w circuit) d \<longleftrightarrow> wl_token cl = t \<and> settlement_ok (webhook_valid w) circuit
     \<and> (\<exists>c. webhook_settled now cl w circuit d = Inr (Some c))"
| "settles_webhook t _ d \<longleftrightarrow> False"

fun issues_webhook :: "string \<Rightarrow> delivery_op \<Rightarrow> bool" where
  "issues_webhook t (ClaimWebhook now u cand req lease) \<longleftrightarrow> u = t"
| "issues_webhook t _ \<longleftrightarrow> False"

lemma settles_webhook_ends:
  assumes "channel_ok same_item (webhook_channel d)" "settles_webhook t x d"
  shows "webhook_live t d" "\<not> webhook_live t (delivery_step present x d)"
proof -
  from assms(2) obtain now cl w circuit c where x: "x = SettleWebhook now cl w circuit" "wl_token cl = t"
    and s: "webhook_settled now cl w circuit d = Inr (Some c)" "settlement_ok (webhook_valid w) circuit"
    by (cases x) auto
  note r = settle_rows [OF assms(1) s(1) [unfolded webhook_settled_def] webhook_settlement_state [of w]]
  from r(4) x(2) show "webhook_live t d" by (simp add: webhook_live_def)
  have "webhook_channel (delivery_step present x d) = c"
    using s by (cases rule: settle_webhook_cases [of now cl w circuit d]) (auto simp: x)
  with r(3) show "\<not> webhook_live t (delivery_step present x d)" by (simp add: webhook_live_def)
qed

lemma webhook_no_revival:
  assumes ok: "channel_ok same_item (webhook_channel d)"
    and live: "webhook_live t (delivery_step present x d)" "\<not> webhook_live t d"
  shows "issues_webhook t x"
proof (cases rule: webhook_effect [of d present x])
  case quiet
  with live quiet_rows [OF quiet(1) ok] show ?thesis by (auto simp: webhook_live_def)
next
  case (claim now u cand req lease c)
  note p = publish_rows [OF quiet_ok [OF claim(2) ok] claim(3,4) key_here(1) [of cand]]
  from p(3) live(1) have "u = t" by (auto simp: webhook_live_def processing_row_def claim_token_def)
  with claim(1) show ?thesis by simp
next
  case (settle now cl w circuit)
  from settle_rows(3) [OF ok settle(2) [unfolded webhook_settled_def] webhook_settlement_state [of w]] live(1)
  show ?thesis by (simp add: webhook_live_def)
qed

interpretation webhook_claims: one_shot "delivery_step present" deliveries_ok webhook_live settles_webhook issues_webhook
  for present
proof
  fix d t x assume ok: "deliveries_ok d"
  then show "deliveries_ok (delivery_step present x d)" by (rule deliveries_ok_step)
  from ok have c: "channel_ok same_item (webhook_channel d)" by (simp add: deliveries_ok_def)
  show "settles_webhook t x d \<Longrightarrow> webhook_live t d" using settles_webhook_ends(1) [OF c] .
  show "settles_webhook t x d \<Longrightarrow> \<not> webhook_live t (delivery_step present x d)" using settles_webhook_ends(2) [OF c] .
  show "webhook_live t (delivery_step present x d) \<Longrightarrow> \<not> webhook_live t d \<Longrightarrow> issues_webhook t x"
    using webhook_no_revival [OF c] .
qed

section \<open>Finished deliveries stay finished\<close>

lemma claimed_was_waiting:
  assumes ok: "channel_ok same_item (webhook_channel d)" and c: "claims_webhook k x d"
  shows "\<exists>s. state_of k (webhook_channel d) = Some s \<and> \<not> terminal s"
proof (cases rule: webhook_effect [of d "\<lambda>_ _ _. Inr ()" x])
  case (claim now t cand req lease c0)
  have okc: "channel_ok same_item c0" using quiet_ok [OF claim(2) ok] .
  from c claim(5) have k: "k = (wc_account cand, wc_event cand)" by simp
  from claim(8) obtain r where r: "r \<in> set (ch_deliveries c0)" "candidate_here cand r" "waiting r" by blast
  have "state_of k c0 = Some (dl_state r)"
    using lookup_row_unique [of delivery_key "ch_deliveries c0" r] okc r key_here(1) [OF r(2)] k
    by (simp add: channel_ok_def state_of_def)
  moreover have "rel_option delivery_life\<^sup>*\<^sup>* (state_of k (webhook_channel d)) (state_of k c0)"
    using quiet_rows [OF claim(2) ok, of k] unfolding moves_def by blast
  moreover have "\<not> terminal (dl_state r)" using r(3) by (auto simp: waiting_def terminal_def)
  ultimately show ?thesis using terminal_final by (fastforce simp: option_rel_Some2)
qed (use c in auto)

lemma terminal_step:
  assumes ok: "channel_ok same_item (webhook_channel d)" and t: "state_of k (webhook_channel d) = Some s" "terminal s"
  shows "state_of k (webhook_channel (delivery_step present x d)) = Some s \<and> \<not> claims_webhook k x d"
proof -
  have "rel_option delivery_life\<^sup>*\<^sup>* (state_of k (webhook_channel d)) (state_of k (webhook_channel (delivery_step present x d)))"
    using webhook_one_step(2) [OF ok] unfolding moves_def by blast
  with t terminal_final have "state_of k (webhook_channel (delivery_step present x d)) = Some s"
    by (fastforce simp: option_rel_Some1)
  moreover have "\<not> claims_webhook k x d" using claimed_was_waiting [OF ok, of k x] t by auto
  ultimately show ?thesis ..
qed

lemma terminal_run:
  assumes "deliveries_ok d" "state_of k (webhook_channel d) = Some s" "terminal s"
  shows "state_of k (webhook_channel (run_ops (delivery_step present) ops d)) = Some s
    \<and> hits (delivery_step present) (claims_webhook k) ops d = 0"
  using assms
proof (induction ops arbitrary: d)
  case (Cons x xs)
  from terminal_step [of d k s present x] Cons.prems
  have "state_of k (webhook_channel (delivery_step present x d)) = Some s" "\<not> claims_webhook k x d"
    by (simp_all add: deliveries_ok_def)
  with Cons deliveries_ok_step show ?case by simp
qed simp


section \<open>Properties\<close>

text \<open>C3. The fleet discloses through one provider to one destination at a time: over every history of
  webhook and push transactions a channel has at most one delivery in flight, and while it has one
  there is exactly its fence and the provider's lane belongs to its claim.\<close>

theorem one_disclosure_at_a_time:
  assumes "deliveries_ok d"
  shows "deliveries_ok (run_ops (delivery_step present) ops d)
    \<and> length (in_flight (webhook_channel (run_ops (delivery_step present) ops d))) \<le> 1
    \<and> length (in_flight (push_channel (run_ops (delivery_step present) ops d))) \<le> 1
    \<and> (r \<in> set (in_flight (webhook_channel (run_ops (delivery_step present) ops d))) \<longrightarrow>
        (\<exists>f. ch_fences (webhook_channel (run_ops (delivery_step present) ops d)) = [f] \<and> own_fence same_item r f)
        \<and> lane_owner (webhook_channel (run_ops (delivery_step present) ops d)) = claim_token r)
    \<and> (q \<in> set (in_flight (push_channel (run_ops (delivery_step present) ops d))) \<longrightarrow>
        (\<exists>f. ch_fences (push_channel (run_ops (delivery_step present) ops d)) = [f] \<and> own_fence any_item q f)
        \<and> lane_owner (push_channel (run_ops (delivery_step present) ops d)) = claim_token q)"
proof -
  let ?d = "run_ops (delivery_step present) ops d"
  have ok: "deliveries_ok ?d" using assms by (intro run_ops_invariant [where P = deliveries_ok] deliveries_ok_step)
  then have "channel_ok same_item (webhook_channel ?d)" "channel_ok any_item (push_channel ?d)"
    by (simp_all add: deliveries_ok_def)
  with ok show ?thesis by (auto simp: channel_ok_def)
qed

definition outbox_db :: db where
  "outbox_db = empty_db\<lparr>
     accounts := [\<lparr>acc_id = ''a'', acc_email = ''e'', acc_status = Active, acc_provider = ''google'', acc_subject = ''s'',
       acc_created = 0\<rparr>],
     webhook_subscriptions := [\<lparr>wh_account = ''a'', wh_id = ''s'', wh_enabled = True, wh_endpoint = ''u'', wh_secret = ''k'',
       wh_include = True, wh_name = ''n'', wh_created = 0\<rparr>],
     episodes := [\<lparr>epi_account = ''a'', epi_id = 1, epi_complete = True, epi_finalized = Some 0, epi_revision = 0\<rparr>],
     final_briefs := [(''a'', 1)],
     webhook_channel := empty_channel\<lparr>ch_deliveries := [\<lparr>dl_account = ''a'', dl_episode = 1, dl_target = ''s'', dl_version = 1,
       dl_id = ''v'', dl_state = OPending, dl_attempts = 0, dl_next = 0, dl_claim = None, dl_completed = None, dl_status = None,
       dl_created = 0, dl_updated = 0\<rparr>]\<rparr>\<rparr>"

definition sample_candidate :: "unit webhook_candidate" where
  "sample_candidate = \<lparr>wc_account = ''a'', wc_episode_id = 1, wc_subscription = ''s'', wc_version = 1, wc_event = ''v'',
     wc_attempts = 0, wc_include = True, wc_endpoint = ''u'', wc_secret = ''k'', wc_revision = 0, wc_episode = ()\<rparr>"

definition sample_request :: frozen_webhook where
  "sample_request = \<lparr>fw_endpoint = ''u'', fw_secret = ''k'', fw_include = True, fw_body = ''b''\<rparr>"

definition sample_claim_op :: delivery_op where
  "sample_claim_op = ClaimWebhook 5 ''t'' sample_candidate sample_request 60"

definition sample_present :: presenter where
  "sample_present = (\<lambda>_ _ _. Inr ())"

lemma outbox_db_ok: "deliveries_ok outbox_db"
  by (simp add: outbox_db_def empty_db_def deliveries_ok_def channel_ok_def in_flight_def)

lemma sample_claim_succeeds: "\<exists>cl. fst (claim_webhook 5 ''t'' sample_candidate sample_request 60 outbox_db) = Inr (Some cl)"
proof -
  have "map_sum id (map_option wl_token) (fst (claim_webhook 5 ''t'' sample_candidate sample_request 60 outbox_db)) = Inr (Some ''t'')"
    by code_simp
  then show ?thesis by (cases "fst (claim_webhook 5 ''t'' sample_candidate sample_request 60 outbox_db)") auto
qed

theorem one_disclosure_at_a_time_witness:
  "length (in_flight (webhook_channel (run_ops (delivery_step sample_present) [sample_claim_op] outbox_db))) \<le> 1
   \<and> map dl_id (in_flight (webhook_channel (run_ops (delivery_step sample_present) [sample_claim_op] outbox_db))) = [''v'']"
proof -
  have "map dl_id (in_flight (webhook_channel (run_ops (delivery_step sample_present) [sample_claim_op] outbox_db))) = [''v'']"
    by code_simp
  with one_disclosure_at_a_time [OF outbox_db_ok, of sample_present "[sample_claim_op]"] show ?thesis by blast
qed

text \<open>C12. A delivery is disclosed at most ten times: over every history the claims of one delivery that
  succeed are what its attempt counter gained, and the counter never passes ten.\<close>

theorem delivery_attempts_bounded:
  assumes "deliveries_ok d"
  shows "attempts_of k (webhook_channel (run_ops (delivery_step present) ops d))
      = attempts_of k (webhook_channel d) + int (hits (delivery_step present) (claims_webhook k) ops d)
    \<and> attempts_of k (push_channel (run_ops (delivery_step present) ops d))
      = attempts_of k (push_channel d) + int (hits (delivery_step present) (claims_push k) ops d)
    \<and> (attempts_of k (webhook_channel d) \<le> 10 \<longrightarrow> attempts_of k (webhook_channel (run_ops (delivery_step present) ops d)) \<le> 10)
    \<and> (attempts_of k (push_channel d) \<le> 10 \<longrightarrow> attempts_of k (push_channel (run_ops (delivery_step present) ops d)) \<le> 10)"
proof -
  have all: "list_all (\<lambda>_. True) ops" by (simp add: list_all_iff)
  show ?thesis
    using webhook_attempts.spent_run [OF assms all] push_attempts.spent_run [OF assms all]
      webhook_attempts.limit_run [OF assms all] push_attempts.limit_run [OF assms all]
    by (simp add: spent_hits)
qed

theorem delivery_attempts_bounded_witness:
  "attempts_of (''a'', ''v'') (webhook_channel (run_ops (delivery_step sample_present) [sample_claim_op] outbox_db)) \<le> 10
   \<and> hits (delivery_step sample_present) (claims_webhook (''a'', ''v'')) [sample_claim_op] outbox_db = 1"
proof -
  have "attempts_of (''a'', ''v'') (webhook_channel outbox_db) \<le> 10"
    by (simp add: outbox_db_def attempts_of_def lookup_row_def delivery_key_def)
  moreover have "hits (delivery_step sample_present) (claims_webhook (''a'', ''v'')) [sample_claim_op] outbox_db = 1"
    using sample_claim_succeeds by (simp add: sample_claim_op_def) (simp add: sample_candidate_def)
  ultimately show ?thesis
    using delivery_attempts_bounded [OF outbox_db_ok, of "(''a'', ''v'')" sample_present "[sample_claim_op]"] by blast
qed


definition lapsed_db :: db where
  "lapsed_db = snd (claim_webhook 5 ''t'' sample_candidate sample_request 60 outbox_db)"


text \<open>C13. A webhook goes only where the account wants it: a claim that succeeds is for an active
  account, to the enabled subscription exactly as it is configured at that moment, at most the
  tenth attempt, on a lane that nobody holds, and it leaves the delivery in flight under a fence
  with the frozen destination and a lease of at most two minutes.\<close>

theorem webhook_claim_authorised:
  assumes "deliveries_ok d" and "claim_webhook now token cand req lease d = (Inr (Some cl), d')"
  shows "account_active d (wl_account cl)
    \<and> (\<exists>w\<in>set (webhook_subscriptions d). wh_account w = wl_account cl \<and> wh_id w = wl_subscription cl \<and> wh_enabled w
         \<and> wh_endpoint w = fw_endpoint (wl_request cl) \<and> wh_secret w = fw_secret (wl_request cl)
         \<and> wh_include w = fw_include (wl_request cl))
    \<and> wl_token cl = token \<and> wl_request cl = req \<and> 1 \<le> wl_attempts cl \<and> wl_attempts cl \<le> 10
    \<and> state_of (wl_account cl, wl_event cl) (webhook_channel d') = Some OProcessing
    \<and> (\<exists>f. ch_fences (webhook_channel d') = [f] \<and> fen_account f = wl_account cl \<and> fen_item f = wl_event cl
         \<and> fen_claim f = token \<and> wr_endpoint (fen_request f) = fw_endpoint req
         \<and> fen_expires f \<le> now + seconds 120)"
proof (cases rule: claim_webhook_cases [of now token cand req lease d])
  case refused
  show ?thesis using refused(2) [of cl] assms(2) by simp
next
  case (claimed c1 r u w)
  let ?c = "recover_expired same_item now (wc_account cand) (webhook_channel d)"
  have cl: "wl_account cl = wc_account cand" "wl_event cl = wc_event cand" "wl_subscription cl = wc_subscription cand"
    "wl_request cl = req" "wl_token cl = token" "wl_attempts cl = wc_attempts cand + 1" and d': "webhook_channel d' = c1"
    using assms(2) claimed(1) by auto
  have ok: "channel_ok same_item ?c" using assms(1) by (auto simp: deliveries_ok_def intro: channel_ok_recover)
  from publish_rows(3) [OF ok claimed(6,7) key_here(1) [of cand]] obtain q where
    q: "candidate_here cand q" "in_flight c1 = [processing_row now token (lease_end_ms now lease * 1000) (wc_attempts cand + 1) q]" by blast
  have okc1: "channel_ok same_item c1"
    using channel_ok_claim_webhook [OF _ claimed(6,7)] assms(1) by (simp add: deliveries_ok_def)
  let ?q = "processing_row now token (lease_end_ms now lease * 1000) (wc_attempts cand + 1) q"
  have "?q \<in> set (in_flight c1)" by (simp add: q(2))
  then have qin: "?q \<in> set (ch_deliveries c1)" "dl_state ?q = OProcessing" by (simp_all add: in_flight_set)
  have key: "delivery_key ?q = (wc_account cand, wc_event cand)"
    using key_here(1) [OF q(1)] by (simp add: delivery_key_def processing_row_def)
  have state: "state_of (wc_account cand, wc_event cand) c1 = Some OProcessing"
    using lookup_row_unique [of delivery_key "ch_deliveries c1" ?q] okc1 qin key by (simp add: channel_ok_def state_of_def)
  have "ch_fences c1 = ch_fences ?c @ [claim_fence now token cand req lease]"
    using claimed(7) by (rule publish_claim_Some) simp
  then have f: "ch_fences c1 = [claim_fence now token cand req lease]" using lane_free [OF ok claimed(6)] by simp
  have lease: "lease_end_ms now lease * 1000 \<le> now + seconds 120"
    using claimed(5) by (simp add: lease_end_ms_def seconds_def)
  have "account_active d (wc_account cand)"
    using lookup_row_Some [OF claimed(12)] claimed(13) by (auto simp: account_active_iff)
  moreover have "w \<in> set (webhook_subscriptions d)" "wh_account w = wc_account cand" "wh_id w = wc_subscription cand"
    using find_Some_match [OF claimed(14) [unfolded find_subscription_def]] by simp_all
  ultimately show ?thesis
    using claimed(2,3,15-18) cl state f lease by (auto simp: d' claim_fence_def)
qed

theorem webhook_claim_authorised_witness:
  "\<exists>cl d'. claim_webhook 5 ''t'' sample_candidate sample_request 60 outbox_db = (Inr (Some cl), d')
     \<and> account_active outbox_db (wl_account cl) \<and> wl_attempts cl \<le> 10"
proof -
  obtain cl d' where c: "claim_webhook 5 ''t'' sample_candidate sample_request 60 outbox_db = (Inr (Some cl), d')"
    using sample_claim_succeeds by (cases "claim_webhook 5 ''t'' sample_candidate sample_request 60 outbox_db") auto
  with webhook_claim_authorised [OF outbox_db_ok c] show ?thesis by blast
qed


definition sample_settle_op :: delivery_op where
  "sample_settle_op = SettleWebhook 9 \<lparr>wl_account = ''a'', wl_episode_id = 1, wl_subscription = ''s'', wl_version = 1,
     wl_event = ''v'', wl_token = ''t'', wl_expires = [], wl_attempts = 1, wl_request = sample_request\<rparr> (WSent 200) None"


end
