(* ===== verification/Notification_Store.thy ===== *)
theory Notification_Store
  imports Delivery_Safety
begin

text \<open>
  The notification destinations of an account, \<^verbatim>\<open>persistence/postgres/notification.rs\<close>: webhook
  subscriptions and push installations. A change of a destination is refused while a delivery to it
  is in flight; the fences it reads are those of \<open>Delivery_Outbox\<close>. The e-mail preference belongs to
  the morning e-mail and is not modelled.
\<close>

section \<open>Records\<close>

record webhook_subscription =
  ws_id :: string
  ws_user :: string
  ws_name :: string
  ws_endpoint :: string
  ws_secret :: string
  ws_include :: bool
  ws_enabled :: bool
  ws_created :: string

record push_installation =
  pi_id :: string
  pi_user :: string
  pi_platform :: string
  pi_topic :: string
  pi_environment :: string
  pi_token :: string
  pi_generation :: int
  pi_enabled :: bool

definition webhook_from_row :: "webhook_row \<Rightarrow> webhook_subscription" where
  "webhook_from_row w = \<lparr>ws_id = wh_id w, ws_user = wh_account w, ws_name = wh_name w, ws_endpoint = wh_endpoint w,
     ws_secret = wh_secret w, ws_include = wh_include w, ws_enabled = wh_enabled w,
     ws_created = format_epoch_millis (wh_created w div 1000)\<rparr>"

definition push_from_row :: "push_row \<Rightarrow> push_installation" where
  "push_from_row p = \<lparr>pi_id = pu_id p, pi_user = pu_account p, pi_platform = pu_platform p, pi_topic = pu_topic p,
     pi_environment = pu_environment p, pi_token = pu_token p, pi_generation = pu_generation p, pi_enabled = pu_enabled p\<rparr>"

definition require_active_account :: "string \<Rightarrow> db \<Rightarrow> string res" where
  "require_active_account account_id d =
     (case lookup_row acc_id account_id (accounts d) of
        None \<Rightarrow> Inl (Auth ''unknown user'')
      | Some r \<Rightarrow> if acc_status r \<noteq> Active then Inl (Auth ''account inactive or deleting'') else Inr (acc_email r))"

section \<open>Webhook subscriptions\<close>

definition webhook_key :: "webhook_row \<Rightarrow> string \<times> string" where
  "webhook_key w = (wh_account w, wh_id w)"

definition list_webhook_subscriptions :: "string \<Rightarrow> db \<Rightarrow> webhook_subscription list" where
  "list_webhook_subscriptions account_id d =
     map webhook_from_row (sort_key wh_created (sort_key wh_id
       (filter (\<lambda>w. wh_account w = account_id) (webhook_subscriptions d))))"

definition get_webhook_subscription :: "string \<Rightarrow> string \<Rightarrow> db \<Rightarrow> webhook_subscription option" where
  "get_webhook_subscription account_id s d =
     map_option webhook_from_row (lookup_row webhook_key (account_id, s) (webhook_subscriptions d))"

definition create_webhook_subscription :: "webhook_subscription \<Rightarrow> db \<Rightarrow> unit tx" where
  "create_webhook_subscription s d =
     (case require_active_account (ws_user s) d of Inl e \<Rightarrow> (Inl e, d) | Inr _ \<Rightarrow>
      if count_rows (\<lambda>w. wh_account w = ws_user s) (webhook_subscriptions d) \<ge> 5
      then (Inl (Conflict ''at most five webhook destinations are allowed''), d)
      else case parse_epoch_millis (ws_created s) of
        None \<Rightarrow> (Inl (InvalidRequest ''invalid webhook timestamp''), d)
      | Some created_at \<Rightarrow>
          (case insert_row webhook_key \<lparr>wh_account = ws_user s, wh_id = ws_id s, wh_enabled = ws_enabled s,
                  wh_endpoint = ws_endpoint s, wh_secret = ws_secret s, wh_include = ws_include s,
                  wh_name = ws_name s, wh_created = created_at * 1000\<rparr> (webhook_subscriptions d) of
             None \<Rightarrow> (Inl (Conflict ''webhook subscription already exists''), d)
           | Some t \<Rightarrow> (Inr (), d\<lparr>webhook_subscriptions := t\<rparr>)))"

definition webhook_in_flight :: "string \<Rightarrow> string \<Rightarrow> db \<Rightarrow> bool" where
  "webhook_in_flight account_id s d \<longleftrightarrow>
     exists_row (\<lambda>f. fen_account f = account_id \<and> wr_subscription (fen_request f) = s) (ch_fences (webhook_channel d))"

definition disable_webhook_subscription :: "string \<Rightarrow> string \<Rightarrow> db \<Rightarrow> unit tx" where
  "disable_webhook_subscription account_id s d =
     (if webhook_in_flight account_id s d then (Inl (Conflict ''webhook subscription has an in-flight send''), d)
      else (Inr (), d\<lparr>webhook_subscriptions :=
             update_rows (\<lambda>w. wh_account w = account_id \<and> wh_id w = s) (\<lambda>w. w\<lparr>wh_enabled := False\<rparr>)
               (webhook_subscriptions d)\<rparr>))"

definition delete_webhook_subscription :: "string \<Rightarrow> string \<Rightarrow> db \<Rightarrow> bool tx" where
  "delete_webhook_subscription account_id s d =
     (if webhook_in_flight account_id s d then (Inl (Conflict ''webhook subscription has an in-flight send''), d)
      else (Inr (count_rows (\<lambda>w. wh_account w = account_id \<and> wh_id w = s) (webhook_subscriptions d) = 1),
            d\<lparr>webhook_subscriptions :=
               delete_rows (\<lambda>w. wh_account w = account_id \<and> wh_id w = s) (webhook_subscriptions d)\<rparr>))"

section \<open>Push installations\<close>

definition push_key :: "push_row \<Rightarrow> string \<times> string" where
  "push_key p = (pu_account p, pu_id p)"

definition device :: "push_row \<Rightarrow> string \<times> string \<times> string" where
  "device p = (pu_topic p, pu_environment p, pu_token p)"

definition device_of :: "push_installation \<Rightarrow> string \<times> string \<times> string" where
  "device_of p = (pi_topic p, pi_environment p, pi_token p)"

definition push_fenced :: "push_installation \<Rightarrow> db \<Rightarrow> bool" where
  "push_fenced p d \<longleftrightarrow> exists_row (\<lambda>f. fen_item f = pi_id p
       \<or> exists_row (\<lambda>q. pu_account q = fen_account f \<and> pu_id q = fen_item f \<and> device q = device_of p) (push_installations d))
     (ch_fences (push_channel d))"

definition push_in_flight :: "string \<Rightarrow> string \<Rightarrow> db \<Rightarrow> bool" where
  "push_in_flight account_id i d \<longleftrightarrow>
     exists_row (\<lambda>f. fen_account f = account_id \<and> fen_item f = i) (ch_fences (push_channel d))"

text \<open>
  The generation a registration gets: its own while nothing about the device changes, otherwise the
  next value of the sequence, which no rollback takes back.
\<close>

definition registered_generation :: "push_installation \<Rightarrow> db \<Rightarrow> (int \<times> db) option" where
  "registered_generation p d =
     (case lookup_row push_key (pi_user p, pi_id p) (push_installations d) of
        Some q \<Rightarrow> if pu_enabled q \<and> device q = device_of p then Some (pu_generation q, d)
                  else if push_generations d \<ge> i64_max then None
                  else Some (push_generations d + 1, d\<lparr>push_generations := push_generations d + 1\<rparr>)
      | None \<Rightarrow> if push_generations d \<ge> i64_max then None
                else Some (push_generations d + 1, d\<lparr>push_generations := push_generations d + 1\<rparr>))"

definition install :: "timestamp \<Rightarrow> push_installation \<Rightarrow> int \<Rightarrow> push_row list \<Rightarrow> push_row list" where
  "install now p g t =
     (let row = \<lparr>pu_account = pi_user p, pu_id = pi_id p, pu_enabled = True, pu_topic = pi_topic p,
                  pu_environment = pi_environment p, pu_token = pi_token p, pu_generation = g,
                  pu_platform = pi_platform p, pu_seen = now\<rparr>
      in upsert_row push_key (\<lambda>_. row) row
           (delete_rows (\<lambda>q. device q = device_of p \<and> push_key q \<noteq> (pi_user p, pi_id p)) t))"

definition active_of :: "string \<Rightarrow> push_row list \<Rightarrow> push_row list" where
  "active_of a t = filter (\<lambda>q. pu_account q = a \<and> pu_enabled q) t"

definition victims :: "push_installation \<Rightarrow> push_row list \<Rightarrow> push_row list" where
  "victims p t = take (length (active_of (pi_user p) t) - 10)
     (sort_key pu_seen (sort_key pu_id (filter (\<lambda>q. pu_id q \<noteq> pi_id p) (active_of (pi_user p) t))))"

definition upsert_push_installation :: "timestamp \<Rightarrow> push_installation \<Rightarrow> db \<Rightarrow> push_installation tx" where
  "upsert_push_installation now p d =
     (case require_active_account (pi_user p) d of Inl e \<Rightarrow> (Inl e, d) | Inr _ \<Rightarrow>
      if push_fenced p d then (Inl (Conflict ''push installation has an in-flight send''), d)
      else case registered_generation p d of
        None \<Rightarrow> (Inl (Postgres ''sequence_generator_limit_exceeded''), d)
      | Some (g, d1) \<Rightarrow>
          if pi_platform p \<notin> {''ios'', ''macos''} \<or> pi_environment p \<notin> {''sandbox'', ''production''}
          then (Inl (Postgres ''check_violation''), d1)
          else
            let t = install now p g (push_installations d);
                out = victims p t
            in if exists_row (\<lambda>q. push_in_flight (pi_user p) (pu_id q) d) out
               then (Inl (Conflict ''push installation eviction would cross an in-flight send''), d1)
               else
                 let kept = delete_rows (\<lambda>q. push_key q \<in> push_key ` set out) t;
                     live = delete_rows (\<lambda>q. pu_account q = pi_user p \<and> \<not> pu_enabled q
                              \<and> \<not> push_in_flight (pi_user p) (pu_id q) d) kept
                 in case lookup_row push_key (pi_user p, pi_id p) live of
                      None \<Rightarrow> (Inl (Postgres ''row_not_found''), d1)
                    | Some q \<Rightarrow> (Inr (push_from_row q), d1\<lparr>push_installations := live\<rparr>))"

definition list_push_installations :: "string \<Rightarrow> db \<Rightarrow> push_installation list" where
  "list_push_installations account_id d =
     map push_from_row (sort_key pu_id (active_of account_id (push_installations d)))"

definition delete_push_installation :: "string \<Rightarrow> string \<Rightarrow> db \<Rightarrow> bool tx" where
  "delete_push_installation account_id i d =
     (if push_in_flight account_id i d then (Inl (Conflict ''push installation has an in-flight send''), d)
      else let hit = (\<lambda>q. pu_account q = account_id \<and> pu_id q = i \<and> pu_enabled q)
           in (Inr (count_rows hit (push_installations d) = 1),
               d\<lparr>push_installations := update_rows hit (\<lambda>q. q\<lparr>pu_enabled := False\<rparr>) (push_installations d)\<rparr>))"

datatype notification_op =
    CreateWebhook webhook_subscription
  | DisableWebhook string string
  | DeleteWebhook string string
  | UpsertPush timestamp push_installation
  | DeletePush string string

fun notification_step :: "notification_op \<Rightarrow> db \<Rightarrow> db" where
  "notification_step (CreateWebhook s) d = snd (create_webhook_subscription s d)"
| "notification_step (DisableWebhook a s) d = snd (disable_webhook_subscription a s d)"
| "notification_step (DeleteWebhook a s) d = snd (delete_webhook_subscription a s d)"
| "notification_step (UpsertPush now p) d = snd (upsert_push_installation now p d)"
| "notification_step (DeletePush a i) d = snd (delete_push_installation a i d)"

section \<open>The registry's constraints\<close>

definition registry_ok :: "db \<Rightarrow> bool" where
  "registry_ok d \<longleftrightarrow> distinct (map webhook_key (webhook_subscriptions d)) \<and> distinct (map push_key (push_installations d))
     \<and> distinct (map device (push_installations d)) \<and> distinct (map pu_generation (push_installations d))
     \<and> list_all (\<lambda>p. 0 < pu_generation p \<and> pu_generation p \<le> push_generations d) (push_installations d)
     \<and> 0 \<le> push_generations d"

section \<open>Replacing a row\<close>

lemma update_rows_none: "k \<notin> key ` set t \<Longrightarrow> update_rows (\<lambda>q. key q = k) f t = t"
  unfolding update_rows_def by (rule map_idI) auto

lemma set_replace:
  "set (upsert_row key (\<lambda>_. r) r t) = insert r {q \<in> set t. key q \<noteq> key r}"
proof (cases "key r \<in> key ` set t")
  case True
  then show ?thesis by (auto simp: upsert_row_def set_update_rows)
next
  case False
  then have "\<forall>q\<in>set t. key q \<noteq> key r" by (metis image_eqI)
  with False show ?thesis by (auto simp: upsert_row_def)
qed

lemma distinct_replace:
  assumes "distinct (map key t)" "distinct (map K t)" "\<And>q. q \<in> set t \<Longrightarrow> key q \<noteq> key r \<Longrightarrow> K q \<noteq> K r"
  shows "distinct (map K (upsert_row key (\<lambda>_. r) r t))"
proof (cases "key r \<in> key ` set t")
  case False
  then have "\<forall>q\<in>set t. key q \<noteq> key r" by (metis image_eqI)
  with assms(3) have "K r \<notin> K ` set t" by (metis (no_types, lifting) imageE)
  with False assms(2) show ?thesis by (simp add: upsert_row_def)
next
  case True
  have "distinct (map K (update_rows (\<lambda>q. key q = key r) (\<lambda>_. r) t))" using assms
  proof (induction t)
    case (Cons a t)
    have ih: "distinct (map K (update_rows (\<lambda>q. key q = key r) (\<lambda>_. r) t))" using Cons by auto
    show ?case
    proof (cases "key a = key r")
      case True
      with Cons.prems(1) have none: "key r \<notin> key ` set t" by auto
      then have "update_rows (\<lambda>q. key q = key r) (\<lambda>_. r) t = t" by (rule update_rows_none)
      moreover from none have "\<forall>q\<in>set t. key q \<noteq> key r" by (metis image_eqI)
      with Cons.prems(3) have "K r \<notin> K ` set t" by (metis (no_types, lifting) imageE list.set_intros(2))
      ultimately show ?thesis using ih True by (simp add: update_rows_def)
    next
      case False
      with Cons.prems have "K a \<notin> K ` set (update_rows (\<lambda>q. key q = key r) (\<lambda>_. r) t)"
        by (auto simp: set_update_rows)
      moreover have "update_rows (\<lambda>q. key q = key r) (\<lambda>_. r) (a # t) = a # update_rows (\<lambda>q. key q = key r) (\<lambda>_. r) t"
        using False by (simp add: update_rows_def)
      ultimately show ?thesis using ih by simp
    qed
  qed (simp add: update_rows_def)
  with True show ?thesis by (simp add: upsert_row_def)
qed

section \<open>Registrations\<close>

abbreviation registered_row :: "timestamp \<Rightarrow> push_installation \<Rightarrow> int \<Rightarrow> push_row" where
  "registered_row now p g \<equiv> \<lparr>pu_account = pi_user p, pu_id = pi_id p, pu_enabled = True, pu_topic = pi_topic p,
     pu_environment = pi_environment p, pu_token = pi_token p, pu_generation = g, pu_platform = pi_platform p, pu_seen = now\<rparr>"

lemma registered_row_keys [simp]:
  "push_key (registered_row now p g) = (pi_user p, pi_id p)" "device (registered_row now p g) = device_of p"
  by (simp_all add: push_key_def device_def device_of_def)

lemma set_install:
  "set (install now p g t) = insert (registered_row now p g) {q \<in> set t. push_key q \<noteq> (pi_user p, pi_id p) \<and> device q \<noteq> device_of p}"
  by (auto simp: install_def Let_def set_replace)

lemma distinct_install:
  assumes "distinct (map push_key t)" "distinct (map K t)"
    "\<And>q. q \<in> set t \<Longrightarrow> push_key q \<noteq> (pi_user p, pi_id p) \<Longrightarrow> device q \<noteq> device_of p \<Longrightarrow> K q \<noteq> K (registered_row now p g)"
  shows "distinct (map K (install now p g t))"
  unfolding install_def Let_def using assms by (intro distinct_replace) auto

lemma generation_cases:
  assumes "registered_generation p d = Some (g, d1)"
  obtains (kept) q where "q \<in> set (push_installations d)" "push_key q = (pi_user p, pi_id p)" "pu_enabled q"
      "device q = device_of p" "g = pu_generation q" "d1 = d"
  | (fresh) "g = push_generations d + 1" "d1 = d\<lparr>push_generations := push_generations d + 1\<rparr>" "g \<le> i64_max"
proof (cases "lookup_row push_key (pi_user p, pi_id p) (push_installations d)")
  case None
  with assms fresh show ?thesis by (auto simp: registered_generation_def split: if_splits)
next
  case (Some q)
  show ?thesis
  proof (cases "pu_enabled q \<and> device q = device_of p")
    case True
    with assms Some have "g = pu_generation q" "d1 = d" by (simp_all add: registered_generation_def)
    with True lookup_row_Some [OF Some] show ?thesis by (intro kept [of q]) simp_all
  next
    case False
    with assms Some have "g = push_generations d + 1 \<and> d1 = d\<lparr>push_generations := push_generations d + 1\<rparr> \<and> g \<le> i64_max"
      by (auto simp: registered_generation_def split: if_splits)
    then show ?thesis by (intro fresh) simp_all
  qed
qed

text \<open>The table a successful registration leaves: nothing but the new row, and rows that were there.\<close>

definition registered_table :: "timestamp \<Rightarrow> push_installation \<Rightarrow> int \<Rightarrow> db \<Rightarrow> push_row list" where
  "registered_table now p g d =
     delete_rows (\<lambda>q. pu_account q = pi_user p \<and> \<not> pu_enabled q \<and> \<not> push_in_flight (pi_user p) (pu_id q) d)
       (delete_rows (\<lambda>q. push_key q \<in> push_key ` set (victims p (install now p g (push_installations d))))
          (install now p g (push_installations d)))"

lemma victims_subset: "set (victims p t) \<subseteq> {q \<in> set t. pu_account q = pi_user p \<and> pu_enabled q \<and> pu_id q \<noteq> pi_id p}"
  unfolding victims_def active_of_def by (rule subset_trans [OF set_take_subset]) auto

lemma registered_member: "registered_row now p g \<in> set (registered_table now p g d)"
proof -
  have "push_key (registered_row now p g) \<notin> push_key ` set (victims p t)" for t
    using victims_subset [of p t] by (auto simp: push_key_def)
  then show ?thesis by (simp add: registered_table_def set_install)
qed

lemma registered_lookup: "lookup_row push_key (pi_user p, pi_id p) (registered_table now p g d) = Some (registered_row now p g)"
proof (cases "lookup_row push_key (pi_user p, pi_id p) (registered_table now p g d)")
  case None
  have "push_key (registered_row now p g) \<in> push_key ` set (registered_table now p g d)"
    using registered_member by (rule imageI)
  with None show ?thesis by (simp add: lookup_row_None)
next
  case (Some q)
  then show ?thesis using lookup_row_Some [OF Some] by (auto simp: registered_table_def set_install)
qed

lemma upsert_push_cases:
  obtains (refused) e where "upsert_push_installation now p d = (Inl e, d)"
  | (late) e g d1 where "upsert_push_installation now p d = (Inl e, d1)" "registered_generation p d = Some (g, d1)"
  | (registered) g d1 where "account_active d (pi_user p)" "\<not> push_fenced p d" "registered_generation p d = Some (g, d1)"
      "\<not> exists_row (\<lambda>q. push_in_flight (pi_user p) (pu_id q) d) (victims p (install now p g (push_installations d)))"
      "upsert_push_installation now p d = (Inr (push_from_row (registered_row now p g)),
         d1\<lparr>push_installations := registered_table now p g d\<rparr>)"
proof (cases "upsert_push_installation now p d")
  case (Pair r d')
  show ?thesis
  proof (cases "require_active_account (pi_user p) d")
    case (Inl e)
    then show ?thesis by (intro refused [of e]) (simp add: upsert_push_installation_def)
  next
    case (Inr email)
    then have active: "account_active d (pi_user p)"
      by (auto simp: require_active_account_def account_active_iff split: option.splits if_splits dest!: lookup_row_Some)
    show ?thesis
    proof (cases "push_fenced p d \<or> registered_generation p d = None")
      case True
      then have "\<exists>e. upsert_push_installation now p d = (Inl e, d)"
        using Inr by (auto simp: upsert_push_installation_def)
      with refused show ?thesis by blast
    next
      case False
      then obtain g d1 where g: "registered_generation p d = Some (g, d1)" and free: "\<not> push_fenced p d" by auto
      note run = upsert_push_installation_def [of now p d, unfolded Inr g Let_def, folded registered_table_def]
      have look: "lookup_row push_key (pi_user p, pi_id p) (registered_table now p g d) = Some (registered_row now p g)"
        by (rule registered_lookup)
      show ?thesis
      proof (cases "pi_platform p \<notin> {''ios'', ''macos''} \<or> pi_environment p \<notin> {''sandbox'', ''production''}
          \<or> exists_row (\<lambda>q. push_in_flight (pi_user p) (pu_id q) d) (victims p (install now p g (push_installations d)))")
        case True
        with run free have "\<exists>e. upsert_push_installation now p d = (Inl e, d1)" by (auto simp del: exists_row_iff)
        with g late show ?thesis by blast
      next
        case False
        with run free look show ?thesis by (intro registered [OF active free g]) (simp_all del: exists_row_iff)
      qed
    qed
  qed
qed

section \<open>The constraints are kept\<close>

lemma registry_register:
  assumes ok: "registry_ok d" and g: "registered_generation p d = Some (g, d1)"
  shows "registry_ok (d1\<lparr>push_installations := registered_table now p g d\<rparr>)"
proof -
  let ?t = "push_installations d" and ?n = "install now p g (push_installations d)"
  have t: "distinct (map push_key ?t)" "distinct (map device ?t)" "distinct (map pu_generation ?t)"
    "\<forall>q\<in>set ?t. 0 < pu_generation q \<and> pu_generation q \<le> push_generations d"
    using ok by (auto simp: registry_ok_def list_all_iff)
  have gen: "pu_generation q \<noteq> g" if "q \<in> set ?t" "push_key q \<noteq> (pi_user p, pi_id p)" for q
    using g
  proof (cases rule: generation_cases)
    case (kept r)
    with that key_unique [OF t(3), of q r] show ?thesis by auto
  next
    case fresh
    with t(4) that(1) show ?thesis by auto
  qed
  have "0 < g \<and> g \<le> push_generations d1 \<and> push_generations d \<le> push_generations d1
    \<and> webhook_subscriptions d1 = webhook_subscriptions d"
    using g
  proof (cases rule: generation_cases)
    case (kept q)
    with t(4) show ?thesis by simp
  next
    case fresh
    with ok show ?thesis by (simp add: registry_ok_def)
  qed
  then have seq: "0 < g" "g \<le> push_generations d1" "push_generations d \<le> push_generations d1"
    "webhook_subscriptions d1 = webhook_subscriptions d" by simp_all
  have "distinct (map push_key ?n)" "distinct (map device ?n)" "distinct (map pu_generation ?n)"
    using t gen by (auto intro!: distinct_install)
  moreover have "\<forall>q\<in>set ?n. 0 < pu_generation q \<and> pu_generation q \<le> push_generations d1"
    using t(4) seq(1-3) by (fastforce simp: set_install)
  ultimately show ?thesis
    using ok seq by (auto simp: registry_ok_def registered_table_def list_all_iff)
qed

lemma registry_late: "registry_ok d \<Longrightarrow> registered_generation p d = Some (g, d1) \<Longrightarrow> registry_ok d1"
  by (erule generation_cases) (auto simp: registry_ok_def list_all_iff)

lemma create_webhook_cases:
  obtains (refused) e where "create_webhook_subscription s d = (Inl e, d)"
  | (created) w where "create_webhook_subscription s d = (Inr (), d\<lparr>webhook_subscriptions := webhook_subscriptions d @ [w]\<rparr>)"
      "webhook_key w = (ws_user s, ws_id s)" "webhook_key w \<notin> webhook_key ` set (webhook_subscriptions d)"
      "account_active d (ws_user s)" "count_rows (\<lambda>w. wh_account w = ws_user s) (webhook_subscriptions d) < 5"
proof (cases "create_webhook_subscription s d")
  case (Pair r d')
  show ?thesis
  proof (cases r)
    case (Inl e)
    with Pair have "create_webhook_subscription s d = (Inl e, d)"
      by (auto simp: create_webhook_subscription_def split: sum.splits if_splits option.splits)
    then show ?thesis by (rule refused)
  next
    case (Inr u)
    with Pair obtain email ms where
      r: "require_active_account (ws_user s) d = Inr email" "parse_epoch_millis (ws_created s) = Some ms"
      "count_rows (\<lambda>w. wh_account w = ws_user s) (webhook_subscriptions d) < 5"
      by (auto simp: create_webhook_subscription_def split: sum.splits if_splits option.splits)
    have "account_active d (ws_user s)" using r(1)
      by (auto simp: require_active_account_def account_active_iff split: option.splits if_splits dest!: lookup_row_Some)
    then show ?thesis using r Inr Pair
      by (intro created) (auto simp: create_webhook_subscription_def insert_row_Some webhook_key_def split: option.splits)
  qed
qed

text \<open>Disabling keeps the identity of a row.\<close>

lemma disabled_keys [simp]:
  "map webhook_key (update_rows P (\<lambda>w. w\<lparr>wh_enabled := False\<rparr>) t) = map webhook_key t"
  "map push_key (update_rows Q (\<lambda>q. q\<lparr>pu_enabled := False\<rparr>) u) = map push_key u"
  "map device (update_rows Q (\<lambda>q. q\<lparr>pu_enabled := False\<rparr>) u) = map device u"
  "map pu_generation (update_rows Q (\<lambda>q. q\<lparr>pu_enabled := False\<rparr>) u) = map pu_generation u"
  by (rule map_update_rows; simp add: webhook_key_def push_key_def device_def)+

lemma registry_ok_step: "registry_ok d \<Longrightarrow> registry_ok (notification_step x d)"
proof (cases x)
  case (CreateWebhook s)
  assume "registry_ok d"
  then show ?thesis by (cases rule: create_webhook_cases [of s d]) (auto simp: CreateWebhook registry_ok_def)
next
  case (DisableWebhook a s)
  assume "registry_ok d"
  then show ?thesis by (simp add: DisableWebhook registry_ok_def disable_webhook_subscription_def)
next
  case (DeleteWebhook a s)
  assume "registry_ok d"
  then show ?thesis by (simp add: DeleteWebhook registry_ok_def delete_webhook_subscription_def)
next
  case (UpsertPush now p)
  assume "registry_ok d"
  then show ?thesis
    by (cases rule: upsert_push_cases [of now p d]) (auto simp: UpsertPush registry_register intro: registry_late)
next
  case (DeletePush a i)
  assume "registry_ok d"
  then show ?thesis
    by (auto simp: DeletePush registry_ok_def delete_push_installation_def Let_def push_key_def device_def list_all_iff
        set_update_rows)
qed

section \<open>Bounded registries\<close>

lemma filter_filter_le: "length (filter P (filter Q xs)) \<le> length (filter P xs)"
  by (induction xs) auto

lemma active_delete_le: "length (active_of a (delete_rows P t)) \<le> length (active_of a t)"
  unfolding active_of_def delete_rows_def by (rule filter_filter_le)

text \<open>Deleting rows by their keys removes exactly those rows.\<close>

lemma length_filter_delete_keys:
  assumes "distinct (map key xs)" "set vs \<subseteq> set xs" "distinct vs"
  shows "length (filter (\<lambda>q. key q \<notin> key ` set vs) xs) = length xs - length vs"
proof -
  have inj: "key q \<in> key ` set vs \<longleftrightarrow> q \<in> set vs" if "q \<in> set xs" for q
    using assms(1,2) that key_unique [OF assms(1)] by (auto intro: imageI)
  have "filter (\<lambda>q. key q \<notin> key ` set vs) xs = filter (\<lambda>q. q \<notin> set vs) xs"
    using inj by (intro filter_cong) simp_all
  moreover have dx: "distinct xs" using assms(1) by (simp add: distinct_map)
  moreover have "length (filter (\<lambda>q. q \<notin> set vs) xs) = card (set (filter (\<lambda>q. q \<notin> set vs) xs))"
    using dx by (intro distinct_card [symmetric]) simp
  moreover have "set (filter (\<lambda>q. q \<notin> set vs) xs) = set xs - set vs" by auto
  ultimately have "length (filter (\<lambda>q. key q \<notin> key ` set vs) xs) = card (set xs - set vs)" by simp
  then show ?thesis using assms distinct_card [OF assms(3)] distinct_card [OF dx]
    by (simp add: card_Diff_subset)
qed

lemma victims_length:
  assumes "distinct (map push_key t)" "\<exists>q\<in>set t. push_key q = (pi_user p, pi_id p) \<and> pu_enabled q"
  shows "length (victims p t) = length (active_of (pi_user p) t) - 10"
proof -
  let ?e = "active_of (pi_user p) t"
  have de: "distinct (map push_key ?e)" using assms(1) by (simp add: active_of_def distinct_map_filter)
  have "length (filter (\<lambda>q. push_key q = (pi_user p, pi_id p)) ?e) \<le> 1"
    by (rule filter_key_le_1 [OF de]) simp
  moreover have "length (filter (\<lambda>q. pu_id q \<noteq> pi_id p) ?e) + length (filter (\<lambda>q. \<not> pu_id q \<noteq> pi_id p) ?e) = length ?e"
    by (rule sum_length_filter_compl)
  moreover have "filter (\<lambda>q. \<not> pu_id q \<noteq> pi_id p) ?e = filter (\<lambda>q. push_key q = (pi_user p, pi_id p)) ?e"
    by (intro filter_cong) (auto simp: active_of_def push_key_def)
  ultimately show ?thesis by (simp add: victims_def)
qed

lemma active_registered:
  assumes "registry_ok d"
  shows "length (active_of (pi_user p) (registered_table now p g d)) \<le> 10"
proof -
  let ?n = "install now p g (push_installations d)"
  let ?v = "victims p ?n"
  have dn: "distinct (map push_key ?n)" using assms by (intro distinct_install) (auto simp: registry_ok_def)
  let ?e = "active_of (pi_user p) ?n"
  have de: "distinct (map push_key ?e)" using dn by (simp add: active_of_def distinct_map_filter)
  have "distinct ?v" using de by (simp add: victims_def distinct_map)
  moreover have "set ?v \<subseteq> set ?e" using victims_subset [of p ?n] by (auto simp: active_of_def)
  ultimately have "length (filter (\<lambda>q. push_key q \<notin> push_key ` set ?v) ?e) = length ?e - length ?v"
    using de by (intro length_filter_delete_keys)
  moreover have "length ?v = length ?e - 10"
    by (rule victims_length [OF dn]) (auto simp: set_install)
  moreover have "active_of (pi_user p) (delete_rows (\<lambda>q. push_key q \<in> push_key ` set ?v) ?n) = filter (\<lambda>q. push_key q \<notin> push_key ` set ?v) ?e"
    by (simp add: active_of_def delete_rows_def) (meson conj_commute)
  ultimately have "length (active_of (pi_user p) (delete_rows (\<lambda>q. push_key q \<in> push_key ` set ?v) ?n)) \<le> 10" by simp
  then show ?thesis unfolding registered_table_def by (rule order_trans [OF active_delete_le])
qed

lemma active_install_other: "a \<noteq> pi_user p \<Longrightarrow> length (active_of a (install now p g t)) \<le> length (active_of a t)"
proof -
  assume a: "a \<noteq> pi_user p"
  have "active_of a (upsert_row push_key (\<lambda>_. registered_row now p g) (registered_row now p g) u) = active_of a u" for u
  proof -
    have "filter (\<lambda>q. pu_account q = a \<and> pu_enabled q) (update_rows (\<lambda>q. push_key q = (pi_user p, pi_id p)) (\<lambda>_. registered_row now p g) u)
        = filter (\<lambda>q. pu_account q = a \<and> pu_enabled q) u"
      using a by (induction u) (auto simp: update_rows_def push_key_def)
    with a show ?thesis by (simp add: active_of_def upsert_row_def)
  qed
  then show ?thesis by (simp add: install_def Let_def active_delete_le)
qed

definition registry_small :: "string \<Rightarrow> db \<Rightarrow> bool" where
  "registry_small a d \<longleftrightarrow> count_rows (\<lambda>w. wh_account w = a) (webhook_subscriptions d) \<le> 5
     \<and> length (active_of a (push_installations d)) \<le> 10"

lemma generation_frame:
  assumes "registered_generation p d = Some (g, d1)"
  shows "webhook_subscriptions d1 = webhook_subscriptions d" "push_installations d1 = push_installations d"
  using assms by (cases rule: generation_cases; simp)+

lemma count_disabled: "count_rows (\<lambda>w. wh_account w = a) (update_rows P (\<lambda>w. w\<lparr>wh_enabled := False\<rparr>) t) = count_rows (\<lambda>w. wh_account w = a) t"
  unfolding count_rows_def by (induction t) (auto simp: update_rows_def)

lemma active_disabled: "length (active_of a (update_rows P (\<lambda>q. q\<lparr>pu_enabled := False\<rparr>) t)) \<le> length (active_of a t)"
  by (induction t) (auto simp: active_of_def update_rows_def)

lemma registry_small_step:
  assumes "registry_ok d" "registry_small a d"
  shows "registry_small a (notification_step x d)"
proof (cases x)
  case (CreateWebhook s)
  then show ?thesis using assms(2)
    by (cases rule: create_webhook_cases [of s d]) (auto simp: registry_small_def count_rows_def webhook_key_def)
next
  case (UpsertPush now p)
  show ?thesis
  proof (cases rule: upsert_push_cases [of now p d])
    case (late e g d1)
    then show ?thesis using assms(2) generation_frame [OF late(2)] by (simp add: UpsertPush registry_small_def)
  next
    case (registered g d1)
    have "length (active_of a (registered_table now p g d)) \<le> 10"
    proof (cases "a = pi_user p")
      case True
      then show ?thesis using active_registered [OF assms(1)] by simp
    next
      case False
      have "length (active_of a (registered_table now p g d)) \<le> length (active_of a (install now p g (push_installations d)))"
        unfolding registered_table_def by (rule order_trans [OF active_delete_le active_delete_le])
      also have "\<dots> \<le> length (active_of a (push_installations d))" using active_install_other [OF False] .
      finally show ?thesis using assms(2) by (simp add: registry_small_def)
    qed
    then show ?thesis using assms(2) generation_frame [OF registered(3)]
      by (simp add: UpsertPush registered(5) registry_small_def)
  qed (use assms in \<open>simp add: UpsertPush\<close>)
next
  case (DeletePush b i)
  then show ?thesis using assms(2) by (auto simp: registry_small_def delete_push_installation_def Let_def
        intro: order_trans [OF active_disabled])
next
  case (DeleteWebhook b s)
  have "count_rows (\<lambda>w. wh_account w = a) (delete_rows P t) \<le> count_rows (\<lambda>w. wh_account w = a) t" for P t
    unfolding count_rows_def delete_rows_def by (simp only: of_nat_le_iff filter_filter_le)
  with assms(2) show ?thesis by (auto simp: DeleteWebhook registry_small_def delete_webhook_subscription_def intro: order_trans)
next
  case (DisableWebhook b s)
  then show ?thesis using assms(2) by (simp add: registry_small_def disable_webhook_subscription_def count_disabled)
qed

section \<open>Properties\<close>


definition sample_install :: push_installation where
  "sample_install = \<lparr>pi_id = ''i'', pi_user = ''a'', pi_platform = ''ios'', pi_topic = ''t'', pi_environment = ''sandbox'',
     pi_token = ''k'', pi_generation = 0, pi_enabled = False\<rparr>"

lemma outbox_registry_ok: "registry_ok outbox_db"
  by (simp add: outbox_db_def empty_db_def registry_ok_def)

lemma sample_install_succeeds: "map_sum id pi_generation (fst (upsert_push_installation 5 sample_install outbox_db)) = Inr 1"
  by code_simp


text \<open>Destinations stay few: over every history of notification transactions the registry keeps its
  keys and unique devices, and an account has at most five webhook subscriptions and ten enabled
  push installations.\<close>

theorem registry_stays_small:
  assumes "registry_ok d" and "registry_small a d"
  shows "registry_ok (run_ops notification_step ops d) \<and> registry_small a (run_ops notification_step ops d)"
  using assms by (intro run_ops_invariant [where P = "\<lambda>d. registry_ok d \<and> registry_small a d"])
    (auto simp: registry_ok_step registry_small_step)

theorem registry_stays_small_witness:
  "registry_small ''a'' (run_ops notification_step [UpsertPush 5 sample_install, DeleteWebhook ''a'' ''s''] outbox_db)
   \<and> length (active_of ''a'' (push_installations (run_ops notification_step [UpsertPush 5 sample_install] outbox_db))) = 1"
proof -
  have "registry_small ''a'' outbox_db" by (simp add: registry_small_def outbox_db_def empty_db_def count_rows_def active_of_def)
  moreover have "length (active_of ''a'' (push_installations (run_ops notification_step [UpsertPush 5 sample_install] outbox_db))) = 1"
    by code_simp
  ultimately show ?thesis using registry_stays_small [OF outbox_registry_ok] by blast
qed

end
