(* ===== verification/Destinations.thy ===== *)
theory Destinations
  imports Notification_Store
begin

text \<open>
  The destination of everything in flight stays as it was claimed: the registry refuses to change it,
  and the delivery transactions only put up fences for destinations that are configured.
\<close>

text \<open>The destination of everything in flight is still configured as it was when it was claimed.\<close>

definition destinations_frozen :: "db \<Rightarrow> bool" where
  "destinations_frozen d \<longleftrightarrow>
     list_all (\<lambda>f. \<exists>w\<in>set (webhook_subscriptions d). wh_account w = fen_account f
         \<and> fen_request f = \<lparr>wr_subscription = wh_id w, wr_endpoint = wh_endpoint w, wr_secret = wh_secret w, wr_include = wh_include w\<rparr>
         \<and> wh_enabled w) (ch_fences (webhook_channel d))
   \<and> list_all (\<lambda>f. \<exists>p\<in>set (push_installations d). pu_account p = fen_account f \<and> pu_id p = fen_item f
         \<and> pu_generation p = fen_request f \<and> pu_enabled p) (ch_fences (push_channel d))"

section \<open>Destinations in flight are not touched\<close>

definition webhook_frozen :: "webhook_request fence_row \<Rightarrow> webhook_row list \<Rightarrow> bool" where
  "webhook_frozen f t \<longleftrightarrow> (\<exists>w\<in>set t. wh_account w = fen_account f \<and> wh_enabled w
     \<and> fen_request f = \<lparr>wr_subscription = wh_id w, wr_endpoint = wh_endpoint w, wr_secret = wh_secret w, wr_include = wh_include w\<rparr>)"

definition push_frozen :: "push_generation fence_row \<Rightarrow> push_row list \<Rightarrow> bool" where
  "push_frozen f t \<longleftrightarrow> (\<exists>p\<in>set t. push_key p = (fen_account f, fen_item f) \<and> pu_generation p = fen_request f \<and> pu_enabled p)"

lemma destinations_frozen_iff:
  "destinations_frozen d \<longleftrightarrow> (\<forall>f\<in>set (ch_fences (webhook_channel d)). webhook_frozen f (webhook_subscriptions d))
     \<and> (\<forall>f\<in>set (ch_fences (push_channel d)). push_frozen f (push_installations d))"
  unfolding destinations_frozen_def webhook_frozen_def push_frozen_def list_all_iff push_key_def prod.inject
  by meson

lemma webhook_frozen_fence:
  "webhook_frozen f t \<Longrightarrow> (\<And>w. w \<in> set t \<Longrightarrow> wh_account w = fen_account f \<Longrightarrow> wh_id w = wr_subscription (fen_request f)
     \<Longrightarrow> w \<in> set t') \<Longrightarrow> webhook_frozen f t'"
  by (fastforce simp: webhook_frozen_def)

lemma push_frozen_fence:
  "push_frozen f t \<Longrightarrow> (\<And>p. p \<in> set t \<Longrightarrow> push_key p = (fen_account f, fen_item f) \<Longrightarrow> pu_enabled p \<Longrightarrow> p \<in> set t')
     \<Longrightarrow> push_frozen f t'"
  by (fastforce simp: push_frozen_def)

lemma register_keeps_frozen:
  assumes f: "f \<in> set (ch_fences (push_channel d))" and free: "\<not> push_fenced p d"
    and out: "\<not> exists_row (\<lambda>q. push_in_flight (pi_user p) (pu_id q) d) (victims p (install now p g (push_installations d)))"
    and q: "q \<in> set (push_installations d)" "push_key q = (fen_account f, fen_item f)" "pu_enabled q"
  shows "q \<in> set (registered_table now p g d)"
proof -
  have item: "fen_item f \<noteq> pi_id p" and dev: "device q \<noteq> device_of p"
    using free f q(1,2) by (auto simp: push_fenced_def push_key_def)
  have "q \<in> set (install now p g (push_installations d))"
    using q item dev by (auto simp: set_install push_key_def)
  moreover have "push_key q \<notin> push_key ` set (victims p (install now p g (push_installations d)))"
  proof
    assume "push_key q \<in> push_key ` set (victims p (install now p g (push_installations d)))"
    then obtain v where v: "v \<in> set (victims p (install now p g (push_installations d)))" "push_key v = push_key q" by auto
    with victims_subset have "pu_account v = pi_user p" by blast
    with v(2) q(2) have "fen_account f = pi_user p" "pu_id v = fen_item f" by (auto simp: push_key_def)
    with f have "push_in_flight (pi_user p) (pu_id v) d" by (auto simp: push_in_flight_def)
    with v(1) out show False by auto
  qed
  ultimately show ?thesis using q(3) by (simp add: registered_table_def)
qed

lemma notification_channels [simp]:
  "webhook_channel (notification_step x d) = webhook_channel d" "push_channel (notification_step x d) = push_channel d"
proof -
  have "webhook_channel (notification_step x d) = webhook_channel d \<and> push_channel (notification_step x d) = push_channel d"
  proof (cases x)
    case (CreateWebhook s)
    then show ?thesis by (cases rule: create_webhook_cases [of s d]) simp_all
  next
    case (UpsertPush now p)
    show ?thesis
    proof (cases rule: upsert_push_cases [of now p d])
      case (late e g d1)
      from late(2) show ?thesis by (cases rule: generation_cases) (simp_all add: UpsertPush late(1))
    next
      case (registered g d1)
      from registered(3) show ?thesis by (cases rule: generation_cases) (simp_all add: UpsertPush registered(5))
    qed (simp add: UpsertPush)
  qed (simp_all add: disable_webhook_subscription_def delete_webhook_subscription_def delete_push_installation_def Let_def)
  then show "webhook_channel (notification_step x d) = webhook_channel d" "push_channel (notification_step x d) = push_channel d"
    by simp_all
qed

lemma webhook_frozen_step:
  assumes "f \<in> set (ch_fences (webhook_channel d))" "webhook_frozen f (webhook_subscriptions d)"
  shows "webhook_frozen f (webhook_subscriptions (notification_step x d))"
proof (cases x)
  case (CreateWebhook s)
  then show ?thesis using assms(2) webhook_frozen_fence [OF assms(2)]
    by (cases rule: create_webhook_cases [of s d]) auto
next
  case (UpsertPush now p)
  show ?thesis
  proof (cases rule: upsert_push_cases [of now p d])
    case (late e g d1)
    from late(2) assms(2) show ?thesis by (cases rule: generation_cases) (simp_all add: UpsertPush late(1))
  next
    case (registered g d1)
    from registered(3) assms(2) show ?thesis by (cases rule: generation_cases) (simp_all add: UpsertPush registered(5))
  qed (simp add: UpsertPush assms(2))
next
  case (DisableWebhook a s)
  show ?thesis using assms(1) by (intro webhook_frozen_fence [OF assms(2)])
    (auto simp: DisableWebhook disable_webhook_subscription_def webhook_in_flight_def set_update_rows)
next
  case (DeleteWebhook a s)
  show ?thesis using assms(1) by (intro webhook_frozen_fence [OF assms(2)])
    (auto simp: DeleteWebhook delete_webhook_subscription_def webhook_in_flight_def)
qed (use assms in \<open>simp add: delete_push_installation_def Let_def\<close>)

lemma push_frozen_step:
  assumes "f \<in> set (ch_fences (push_channel d))" "push_frozen f (push_installations d)"
  shows "push_frozen f (push_installations (notification_step x d))"
proof (cases x)
  case (CreateWebhook s)
  then show ?thesis using assms(2) by (cases rule: create_webhook_cases [of s d]) auto
next
  case (UpsertPush now p)
  show ?thesis
  proof (cases rule: upsert_push_cases [of now p d])
    case (late e g d1)
    from late(2) assms(2) show ?thesis by (cases rule: generation_cases) (simp_all add: UpsertPush late(1))
  next
    case (registered g d1)
    show ?thesis
      by (rule push_frozen_fence [OF assms(2)])
        (simp add: UpsertPush registered(5) register_keeps_frozen [OF assms(1) registered(2,4)])
  qed (simp add: UpsertPush assms(2))
next
  case (DeletePush a i)
  show ?thesis using assms(1) by (intro push_frozen_fence [OF assms(2)])
    (auto simp: DeletePush delete_push_installation_def push_in_flight_def set_update_rows push_key_def Let_def)
qed (use assms in \<open>simp_all add: disable_webhook_subscription_def delete_webhook_subscription_def\<close>)

lemma frozen_notification_step: "destinations_frozen d \<Longrightarrow> destinations_frozen (notification_step x d)"
  by (simp add: destinations_frozen_iff webhook_frozen_step push_frozen_step)

section \<open>Deliveries keep it too\<close>

lemma recover_fences: "set (ch_fences (recover_expired item now a c)) \<subseteq> set (ch_fences c)"
proof -
  have one: "set (ch_fences (recover_claim item now row c)) \<subseteq> set (ch_fences c)" for row c
    by (auto simp: recover_claim_def release_lane_def drop_fences_def update_deliveries_def split: prod.splits option.splits)
  have "set (ch_fences (fold (recover_claim item now) rows c)) \<subseteq> set (ch_fences c)" for rows
    by (induction rows arbitrary: c) (use one in \<open>auto, blast\<close>)
  then show ?thesis by (simp add: recover_expired_def)
qed

lemma quiet_fences: "quiet item c c' \<Longrightarrow> set (ch_fences c') \<subseteq> set (ch_fences c)"
proof (induction rule: quiet.induct)
  case (quiet_recover c c' now a)
  with recover_fences [of item now a c'] show ?case by blast
qed (simp_all add: update_deliveries_def)

lemma idle_fences: "channel_ok item c \<Longrightarrow> in_flight c = [] \<Longrightarrow> ch_fences c = []"
  by (auto simp: channel_ok_def)

text \<open>Recovery and pruning write one channel.\<close>

lemma channel_only:
  "\<exists>w. s = d\<lparr>webhook_channel := w\<rparr> \<Longrightarrow> \<exists>w. update_webhooks P f s = d\<lparr>webhook_channel := w\<rparr>"
  "\<exists>w. recover_expired_webhook_claims now a d = d\<lparr>webhook_channel := w\<rparr>"
  "\<exists>p. s = d\<lparr>push_channel := p\<rparr> \<Longrightarrow> \<exists>p. update_pushes Q g s = d\<lparr>push_channel := p\<rparr>"
  "\<exists>p. recover_expired_push_claims now a d = d\<lparr>push_channel := p\<rparr>"
  by (auto simp: update_webhooks_def update_pushes_def recover_expired_webhook_claims_def recover_expired_push_claims_def)

lemma prune_only:
  "\<exists>w. prune_webhooks now a d = d\<lparr>webhook_channel := w\<rparr>" "\<exists>p. prune_pushes now a d = d\<lparr>push_channel := p\<rparr>"
  unfolding prune_webhooks_def prune_pushes_def Let_def by (intro channel_only)+

lemma delivery_frame:
  "delivery_step present x d = d\<lparr>webhook_channel := webhook_channel (delivery_step present x d),
     push_channel := push_channel (delivery_step present x d),
     push_installations := push_installations (delivery_step present x d)\<rparr>"
proof (cases x)
  case (NextWebhook now a)
  have "delivery_step present x d = d \<or> delivery_step present x d = prune_webhooks now a d"
    using next_webhook_result [of present now a d] by (simp add: NextWebhook)
  moreover obtain w where "prune_webhooks now a d = d\<lparr>webhook_channel := w\<rparr>" using prune_only(1) by blast
  ultimately show ?thesis by auto
next
  case (ClaimWebhook now t cand req lease)
  then show ?thesis by (cases rule: claim_webhook_cases [of now t cand req lease d]) simp_all
next
  case (SettleWebhook now cl w circuit)
  then show ?thesis by (cases rule: settle_webhook_cases [of now cl w circuit d]) simp_all
next
  case (CancelWebhooks now a s)
  let ?s = "update_webhooks (\<lambda>r. dl_account r = a \<and> dl_target r = s \<and> waiting r) (end_delivery now OCancelled)
      (recover_expired_webhook_claims now a d)"
  obtain w where w: "?s = d\<lparr>webhook_channel := w\<rparr>" using channel_only(1) [OF channel_only(2)] by blast
  have "delivery_step present x d = d \<or> delivery_step present x d = d\<lparr>webhook_channel := w\<rparr>"
    using cancel_result [of now a s d] by (simp only: CancelWebhooks delivery_step.simps w)
  then show ?thesis by auto
next
  case (NextPush now a)
  obtain p where "prune_pushes now a d = d\<lparr>push_channel := p\<rparr>" using prune_only(2) by blast
  then show ?thesis by (simp add: NextPush next_push_result)
next
  case (ClaimPush now t cand req lease)
  then show ?thesis by (cases rule: claim_push_cases [of now t cand req lease d]) simp_all
next
  case (SettlePush now cl w circuit)
  then show ?thesis by (cases rule: settle_push_cases [of now cl w circuit d]) simp_all
qed

lemma webhook_fences_delivery:
  assumes ok: "channel_ok same_item (webhook_channel d)"
    and f: "f \<in> set (ch_fences (webhook_channel (delivery_step present x d)))"
  shows "f \<in> set (ch_fences (webhook_channel d)) \<or> webhook_frozen f (webhook_subscriptions d)"
proof (cases rule: webhook_effect [of d present x])
  case quiet
  with f quiet_fences [OF quiet(1)] show ?thesis by blast
next
  case (claim now t cand req lease c)
  show ?thesis
  proof (cases rule: claim_webhook_cases [of now t cand req lease d])
    case refused
    with f claim(1) show ?thesis by simp
  next
    case (claimed c1 r u w)
    let ?c = "recover_expired same_item now (wc_account cand) (webhook_channel d)"
    have "ch_fences c1 = ch_fences ?c @ [claim_fence now t cand req lease]"
      using claimed(7) by (rule publish_claim_Some) simp
    with f claim(1) claimed(1) have "f \<in> set (ch_fences ?c) \<or> f = claim_fence now t cand req lease" by auto
    moreover have "webhook_frozen (claim_fence now t cand req lease) (webhook_subscriptions d)"
      using find_Some_match [OF claimed(14) [unfolded find_subscription_def]] claimed(15-18)
      by (auto simp: webhook_frozen_def claim_fence_def)
    ultimately show ?thesis using recover_fences by blast
  qed
next
  case (settle now cl w circuit)
  have "ch_fences (webhook_channel (delivery_step present x d)) = []"
    using idle_fences [OF channel_ok_settle_webhook [OF ok settle(2)]]
      settle_rows(3) [OF ok settle(2) [unfolded webhook_settled_def] webhook_settlement_state [of w]] by simp
  with f show ?thesis by simp
qed

lemma settled_push_idle:
  assumes "channel_ok any_item (push_channel d)" "push_settled now cl w circuit d = Inr (Some c)"
  shows "ch_fences c = []"
  using idle_fences [OF channel_ok_settle_push [OF assms]]
    settle_rows(3) [OF assms(1) assms(2) [unfolded push_settled_def] push_settlement_state [of w]] by simp

lemma installations_delivery:
  assumes "channel_ok any_item (push_channel d)"
  shows "push_installations (delivery_step present x d) = push_installations d
    \<or> ch_fences (push_channel (delivery_step present x d)) = []"
proof (cases x)
  case (NextWebhook now a)
  show ?thesis using next_webhook_result [of present now a d]
    by (auto simp: NextWebhook prune_webhooks_def update_webhooks_def recover_expired_webhook_claims_def Let_def)
next
  case (ClaimWebhook now t cand req lease)
  then show ?thesis by (cases rule: claim_webhook_cases [of now t cand req lease d]) simp_all
next
  case (SettleWebhook now cl w circuit)
  then show ?thesis by (cases rule: settle_webhook_cases [of now cl w circuit d]) simp_all
next
  case (CancelWebhooks now a s)
  then show ?thesis using cancel_result [of now a s d]
    by (auto simp: update_webhooks_def recover_expired_webhook_claims_def)
next
  case (NextPush now a)
  then show ?thesis
    by (simp add: next_push_result prune_pushes_def update_pushes_def recover_expired_push_claims_def Let_def)
next
  case (ClaimPush now t cand req lease)
  then show ?thesis by (cases rule: claim_push_cases [of now t cand req lease d]) simp_all
next
  case (SettlePush now cl w circuit)
  then show ?thesis using settled_push_idle [OF assms]
    by (cases rule: settle_push_cases [of now cl w circuit d]) simp_all
qed

lemma push_fences_delivery:
  assumes ok: "channel_ok any_item (push_channel d)"
    and f: "f \<in> set (ch_fences (push_channel (delivery_step present x d)))"
  shows "f \<in> set (ch_fences (push_channel d)) \<or> push_frozen f (push_installations d)"
proof (cases rule: push_effect [of d present x])
  case quiet
  with f quiet_fences [OF quiet(1)] show ?thesis by blast
next
  case (claim now t cand req lease c)
  show ?thesis
  proof (cases rule: claim_push_cases [of now t cand req lease d])
    case refused
    with f claim(1) show ?thesis by simp
  next
    case (claimed c1 r u p cl)
    let ?c = "recover_expired any_item now (pc_account_id cand) (push_channel d)"
    have "ch_fences c1 = ch_fences ?c @ [push_fence now t cand req lease]"
      using claimed(7) by (rule publish_claim_Some) simp
    with f claim(1) claimed(1) have "f \<in> set (ch_fences ?c) \<or> f = push_fence now t cand req lease" by auto
    moreover have "push_frozen (push_fence now t cand req lease) (push_installations d)"
      using claimed(14-17,21) by (auto simp: push_frozen_def push_fence_def push_key_def)
    ultimately show ?thesis using recover_fences by blast
  qed
next
  case (settle now cl w circuit)
  with f settled_push_idle [OF ok settle(2)] show ?thesis by simp
qed

lemma frozen_delivery_step:
  assumes "deliveries_ok d" "destinations_frozen d"
  shows "destinations_frozen (delivery_step present x d)"
proof -
  have "webhook_subscriptions (delivery_step present x d) = webhook_subscriptions d"
    by (subst delivery_frame) simp
  moreover have ok: "channel_ok same_item (webhook_channel d)" "channel_ok any_item (push_channel d)"
    using assms(1) by (simp_all add: deliveries_ok_def)
  ultimately show ?thesis
    using assms(2) webhook_fences_delivery [OF ok(1)] push_fences_delivery [OF ok(2)] installations_delivery [OF ok(2), of present x]
    unfolding destinations_frozen_iff by (metis empty_iff list.set(1))
qed

end
