(* ===== verification/Quotas.thy ===== *)
theory Quotas
  imports Schema Rust_Str
begin

text \<open>
  Fleet-wide admission: the daily token quota of \<^verbatim>\<open>persistence/entitlement.rs\<close> with its PostgreSQL
  transaction, and the concurrency leases of \<^verbatim>\<open>persistence/postgres/admission.rs\<close>. Every transaction
  holds an advisory lock for the rows it reads, so it is one step. The token bucket of
  \<^verbatim>\<open>consume_rate\<close> is floating-point arithmetic and is not modelled.
\<close>

section \<open>Daily token quota\<close>

datatype work_class = AudioWork | ScreenWork | DerivedText

fun class_percent :: "work_class \<Rightarrow> int" where
  "class_percent AudioWork = 50"
| "class_percent ScreenWork = 25"
| "class_percent DerivedText = 25"

definition protected_limit :: "work_class \<Rightarrow> int \<Rightarrow> int" where
  "protected_limit c daily_limit = saturating_mul daily_limit (class_percent c) sdiv 100"

definition reservation_allowed :: "int \<Rightarrow> int \<Rightarrow> int \<Rightarrow> bool" where
  "reservation_allowed current requested limit \<longleftrightarrow>
     0 < requested \<and> 0 < limit \<and> saturating_add current requested \<le> limit"

definition usage_key :: "usage_row \<Rightarrow> string \<times> int" where
  "usage_key r = (us_account r, us_day r)"

fun class_tokens :: "work_class \<Rightarrow> usage_row \<Rightarrow> int" where
  "class_tokens AudioWork r = us_audio r"
| "class_tokens ScreenWork r = us_screen r"
| "class_tokens DerivedText r = us_derived r"

definition class_share :: "work_class \<Rightarrow> work_class \<Rightarrow> int \<Rightarrow> int" where
  "class_share c k requested = (if c = k then requested else 0)"

definition reserved_row :: "work_class \<Rightarrow> int \<Rightarrow> usage_row \<Rightarrow> usage_row" where
  "reserved_row c requested r = r\<lparr>us_requests := us_requests r + 1, us_output := us_output r + requested,
     us_audio := us_audio r + class_share c AudioWork requested,
     us_screen := us_screen r + class_share c ScreenWork requested,
     us_derived := us_derived r + class_share c DerivedText requested\<rparr>"

definition fresh_usage :: "string \<Rightarrow> int \<Rightarrow> usage_row" where
  "fresh_usage a day = \<lparr>us_account = a, us_day = day, us_requests = 0, us_output = 0, us_audio = 0,
     us_screen = 0, us_derived = 0\<rparr>"

text \<open>
  \<^verbatim>\<open>reserve_vertex_output_tokens_for_class\<close>. The counters are \<^verbatim>\<open>bigint\<close> columns of the account's day;
  an addition that leaves their range aborts the transaction, as does a row for an unknown account.
\<close>

definition counters_i64 :: "usage_row \<Rightarrow> bool" where
  "counters_i64 r \<longleftrightarrow> is_i64 (us_requests r) \<and> is_i64 (us_output r) \<and> is_i64 (us_audio r) \<and> is_i64 (us_screen r)
     \<and> is_i64 (us_derived r)"

definition reserve_vertex_output_tokens_for_class ::
  "timestamp \<Rightarrow> string \<Rightarrow> work_class \<Rightarrow> int \<Rightarrow> int \<Rightarrow> db \<Rightarrow> bool tx" where
  "reserve_vertex_output_tokens_for_class now account_id c requested daily_limit d =
     (let key = (account_id, day_of now);
          found = lookup_row usage_key key (usage_daily d);
          current = (case found of Some r \<Rightarrow> r | None \<Rightarrow> fresh_usage account_id (day_of now));
          next = reserved_row c requested current
      in if \<not> reservation_allowed (us_output current) requested daily_limit then (Inr False, d)
         else if \<not> reservation_allowed (class_tokens c current) requested (protected_limit c daily_limit) then (Inr False, d)
         else if \<not> counters_i64 next then (Inl (Postgres ''numeric_value_out_of_range''), d)
         else if found = None \<and> account_id \<notin> account_ids d then (Inl (Postgres ''foreign_key_violation''), d)
         else (Inr True, d\<lparr>usage_daily :=
                 upsert_row usage_key (reserved_row c requested) next (usage_daily d)\<rparr>))"

section \<open>Concurrency leases\<close>

text \<open>
  \<^verbatim>\<open>char::is_control\<close> somewhere in a UTF-8 text: the ASCII control codes, or the two-byte encodings of
  U+0080 to U+009F.
\<close>

fun has_control :: "string \<Rightarrow> bool" where
  "has_control [] \<longleftrightarrow> False"
| "has_control (c # cs) \<longleftrightarrow> byte c < 32 \<or> byte c = 127
     \<or> (byte c = 194 \<and> (case cs of [] \<Rightarrow> False | e # _ \<Rightarrow> 128 \<le> byte e \<and> byte e < 160)) \<or> has_control cs"

definition validate_dimension :: "string \<Rightarrow> string \<Rightarrow> unit res" where
  "validate_dimension v name =
     (if v = [] \<or> length v > 256 \<or> has_control v
      then Inl (InvalidRequest (''invalid fleet admission '' @ name)) else Inr ())"

definition lease_key :: "lease_row \<Rightarrow> string \<times> string" where
  "lease_key r = (ls_scope r, ls_holder r)"

definition acquire_concurrency :: "timestamp \<Rightarrow> string \<Rightarrow> string \<Rightarrow> nat \<Rightarrow> nat \<Rightarrow> db \<Rightarrow> bool tx" where
  "acquire_concurrency now scope holder limit ttl d =
     (case validate_dimension scope ''scope'' of Inl e \<Rightarrow> (Inl e, d) | Inr _ \<Rightarrow>
      case validate_dimension holder ''holder'' of Inl e \<Rightarrow> (Inl e, d) | Inr _ \<Rightarrow>
      if limit = 0 then (Inl (Config ''fleet concurrency limit must be positive''), d)
      else case duration_seconds ttl of Inl e \<Rightarrow> (Inl e, d) | Inr ttl_seconds \<Rightarrow>
        if \<not> (1 \<le> ttl_seconds \<and> ttl_seconds \<le> 3600)
        then (Inl (Config ''fleet concurrency lease TTL must be between 1 and 3600 seconds''), d)
        else
          let live = delete_rows (\<lambda>r. ls_scope r = scope \<and> ls_expires r \<le> now) (concurrency_leases d);
              already_held = exists_row (\<lambda>r. ls_scope r = scope \<and> ls_holder r = holder) live;
              active = count_rows (\<lambda>r. ls_scope r = scope) live;
              allowed = already_held \<or> active < int limit;
              expires = now + seconds ttl_seconds
          in (Inr allowed,
              d\<lparr>concurrency_leases :=
                  (if allowed
                   then upsert_row lease_key (\<lambda>r. r\<lparr>ls_expires := expires\<rparr>)
                          \<lparr>ls_scope = scope, ls_holder = holder, ls_expires = expires\<rparr> live
                   else live)\<rparr>))"

definition release_concurrency :: "string \<Rightarrow> string \<Rightarrow> db \<Rightarrow> unit tx" where
  "release_concurrency scope holder d =
     (case validate_dimension scope ''scope'' of Inl e \<Rightarrow> (Inl e, d) | Inr _ \<Rightarrow>
      case validate_dimension holder ''holder'' of Inl e \<Rightarrow> (Inl e, d) | Inr _ \<Rightarrow>
        (Inr (), d\<lparr>concurrency_leases :=
           delete_rows (\<lambda>r. ls_scope r = scope \<and> ls_holder r = holder) (concurrency_leases d)\<rparr>))"

datatype quota_op =
    ReserveTokens timestamp string work_class int int
  | AcquireLease timestamp string string nat nat
  | ReleaseLease string string

fun quota_step :: "quota_op \<Rightarrow> db \<Rightarrow> db" where
  "quota_step (ReserveTokens now a c n l) d = snd (reserve_vertex_output_tokens_for_class now a c n l d)"
| "quota_step (AcquireLease now s h n t) d = snd (acquire_concurrency now s h n t d)"
| "quota_step (ReleaseLease s h) d = snd (release_concurrency s h d)"

section \<open>Invariants\<close>

definition usage_ok :: "db \<Rightarrow> bool" where
  "usage_ok d \<longleftrightarrow> distinct (map usage_key (usage_daily d)) \<and> list_all counters_i64 (usage_daily d)"

definition leases_ok :: "db \<Rightarrow> bool" where
  "leases_ok d \<longleftrightarrow> distinct (map lease_key (concurrency_leases d))"

section \<open>The quota is metered\<close>

text \<open>What an account used on a day: in total, or by one class of work.\<close>

definition meter_of :: "work_class option \<Rightarrow> string \<Rightarrow> int \<Rightarrow> db \<Rightarrow> int" where
  "meter_of k a day d = (case lookup_row usage_key (a, day) (usage_daily d) of None \<Rightarrow> 0
     | Some r \<Rightarrow> (case k of None \<Rightarrow> us_output r | Some c \<Rightarrow> class_tokens c r))"

fun meter_limit :: "work_class option \<Rightarrow> int \<Rightarrow> int" where
  "meter_limit None l = l"
| "meter_limit (Some c) l = protected_limit c l"

fun reserves :: "work_class option \<Rightarrow> string \<Rightarrow> int \<Rightarrow> quota_op \<Rightarrow> db \<Rightarrow> int" where
  "reserves k a day (ReserveTokens now b c n l) d =
     (if b = a \<and> day_of now = day \<and> k \<in> {None, Some c}
         \<and> fst (reserve_vertex_output_tokens_for_class now b c n l d) = Inr True then n else 0)"
| "reserves k a day _ d = 0"

fun under_limit :: "string \<Rightarrow> int \<Rightarrow> int \<Rightarrow> quota_op \<Rightarrow> bool" where
  "under_limit a day limit (ReserveTokens now b c n l) \<longleftrightarrow> (b = a \<and> day_of now = day \<longrightarrow> l = limit)"
| "under_limit a day limit _ \<longleftrightarrow> True"

lemma allowed_sum:
  assumes "reservation_allowed cur n l" "is_i64 (cur + n)" "l \<le> i64_max"
  shows "cur + n \<le> l" "0 < n"
  using assms by (auto simp: reservation_allowed_def saturating_add_def saturate_id)

lemma protected_limit_i64: "protected_limit c l \<le> i64_max"
proof -
  have "saturating_mul l (class_percent c) \<le> i64_max" by (simp add: saturating_mul_def saturate_def i64_max_def i64_min_def)
  then have "saturating_mul l (class_percent c) sdiv 100 \<le> i64_max"
  proof (cases "0 \<le> saturating_mul l (class_percent c)")
    case True
    have "saturating_mul l (class_percent c) div 100 \<le> saturating_mul l (class_percent c) div 1"
      using True by (intro zdiv_mono2) simp_all
    with \<open>_ \<le> i64_max\<close> True show ?thesis by (simp add: sdiv_nonneg)
  next
    case False
    then show ?thesis by (simp add: signed_divide_int_def i64_max_def)
  qed
  then show ?thesis by (simp add: protected_limit_def)
qed

lemma reserve_cases:
  obtains (refused) "snd (reserve_vertex_output_tokens_for_class now a c n l d) = d"
      "fst (reserve_vertex_output_tokens_for_class now a c n l d) \<noteq> Inr True"
  | (granted) r where
      "r = (case lookup_row usage_key (a, day_of now) (usage_daily d) of Some r \<Rightarrow> r | None \<Rightarrow> fresh_usage a (day_of now))"
      "reservation_allowed (us_output r) n l" "reservation_allowed (class_tokens c r) n (protected_limit c l)"
      "counters_i64 (reserved_row c n r)"
      "reserve_vertex_output_tokens_for_class now a c n l d =
         (Inr True, d\<lparr>usage_daily := upsert_row usage_key (reserved_row c n) (reserved_row c n r) (usage_daily d)\<rparr>)"
proof -
  define r where "r = (case lookup_row usage_key (a, day_of now) (usage_daily d) of Some r \<Rightarrow> r | None \<Rightarrow> fresh_usage a (day_of now))"
  note eq = reserve_vertex_output_tokens_for_class_def [of now a c n l d, unfolded Let_def, folded r_def]
  show ?thesis
  proof (cases "reservation_allowed (us_output r) n l \<and> reservation_allowed (class_tokens c r) n (protected_limit c l)
      \<and> counters_i64 (reserved_row c n r)
      \<and> \<not> (lookup_row usage_key (a, day_of now) (usage_daily d) = None \<and> a \<notin> account_ids d)")
    case True
    with eq show ?thesis by (intro granted [OF r_def]) simp_all
  next
    case False
    with eq show ?thesis by (intro refused) auto
  qed
qed

lemma usage_key_reserved [simp]: "usage_key (reserved_row c n r) = usage_key r"
  by (simp add: usage_key_def reserved_row_def)

lemma fresh_tokens [simp]: "us_output (fresh_usage a day) = 0" "class_tokens k (fresh_usage a day) = 0"
  by (simp_all add: fresh_usage_def) (cases k; simp)

lemma output_reserved [simp]: "us_output (reserved_row c n r) = us_output r + n"
  by (simp add: reserved_row_def)

lemma class_tokens_reserved: "class_tokens k (reserved_row c n r) = class_tokens k r + class_share c k n"
  by (cases k) (simp_all add: reserved_row_def)

lemma lookup_upsert_same:
  assumes "\<And>q. key (f q) = key q"
  shows "lookup_row key k (upsert_row key f r t) =
    (if k = key r then Some (case lookup_row key k t of Some q \<Rightarrow> f q | None \<Rightarrow> r) else lookup_row key k t)"
proof (cases "key r \<in> key ` set t")
  case True
  have "lookup_row key k (update_rows (\<lambda>q. key q = key r) f t) =
      map_option (\<lambda>q. if key q = key r then f q else q) (lookup_row key k t)"
    using assms by (intro lookup_row_update) simp
  moreover have "lookup_row key (key r) t \<noteq> None" using True by (simp add: lookup_row_None)
  ultimately show ?thesis using True
    by (cases "lookup_row key k t") (auto simp: upsert_row_def dest: lookup_row_key)
next
  case False
  then have "lookup_row key (key r) t = None" by (simp add: lookup_row_None)
  with False show ?thesis by (auto simp: upsert_row_def lookup_row_append split: option.split)
qed

lemma reserve_meter:
  assumes "usage_ok d" "l \<le> i64_max"
  shows "usage_ok (snd (reserve_vertex_output_tokens_for_class now b c n l d))
    \<and> meter_of k a day (snd (reserve_vertex_output_tokens_for_class now b c n l d)) =
        meter_of k a day d + reserves k a day (ReserveTokens now b c n l) d
    \<and> (reserves k a day (ReserveTokens now b c n l) d \<noteq> 0 \<longrightarrow>
        meter_of k a day d + reserves k a day (ReserveTokens now b c n l) d \<le> meter_limit k l)"
proof (cases rule: reserve_cases [of now b c n l d])
  case refused
  with assms(1) show ?thesis by simp
next
  case (granted r)
  let ?k = "(b, day_of now)"
  have key: "usage_key r = ?k"
    using lookup_row_key [of usage_key ?k "usage_daily d"] granted(1)
    by (cases "lookup_row usage_key ?k (usage_daily d)") (auto simp: usage_key_def fresh_usage_def)
  have ok: "usage_ok (snd (reserve_vertex_output_tokens_for_class now b c n l d))"
  proof -
    have "distinct (map usage_key (upsert_row usage_key (reserved_row c n) (reserved_row c n r) (usage_daily d)))"
      using assms(1) by (intro distinct_upsert_row) (simp_all add: usage_ok_def)
    moreover have row: "r \<in> set (usage_daily d)" if "usage_key r \<in> usage_key ` set (usage_daily d)"
      using that key granted(1) lookup_row_None [of usage_key ?k "usage_daily d"]
      by (cases "lookup_row usage_key ?k (usage_daily d)") (auto dest: lookup_row_Some)
    moreover have same: "x = r" if "x \<in> set (usage_daily d)" "usage_key x = usage_key r" for x
      using key_unique [of usage_key "usage_daily d" x r] row that assms(1)
      by (metis image_eqI usage_ok_def)
    moreover have "counters_i64 q" if "q \<in> set (upsert_row usage_key (reserved_row c n) (reserved_row c n r) (usage_daily d))" for q
    proof -
      have "q = reserved_row c n r \<or> q \<in> set (usage_daily d)"
        using that row same
        by (auto simp: upsert_row_def usage_ok_def set_update_rows split: if_splits)
      with granted(4) assms(1) show ?thesis by (auto simp: usage_ok_def list_all_iff)
    qed
    ultimately show ?thesis by (simp add: granted(5) usage_ok_def list_all_iff)
  qed
  have look: "lookup_row usage_key (a, day) (usage_daily (snd (reserve_vertex_output_tokens_for_class now b c n l d))) =
      (if (a, day) = ?k then Some (reserved_row c n r) else lookup_row usage_key (a, day) (usage_daily d))"
    using granted(1) key by (auto simp: granted(5) lookup_upsert_same split: option.splits)
  have i64: "is_i64 (us_output r + n)" "is_i64 (class_tokens c r + n)"
    using granted(4) by (cases c; simp add: counters_i64_def reserved_row_def class_share_def)+
  have cur: "meter_of k a day d = (case k of None \<Rightarrow> us_output r | Some c \<Rightarrow> class_tokens c r)" if "(a, day) = ?k"
    using granted(1) that by (cases "lookup_row usage_key ?k (usage_daily d)") (auto simp: meter_of_def split: option.split)
  have cost: "reserves k a day (ReserveTokens now b c n l) d = (if (a, day) = ?k \<and> k \<in> {None, Some c} then n else 0)"
    by (auto simp: granted(5))
  show ?thesis
  proof (cases "(a, day) = ?k")
    case False
    then have "meter_of k a day (snd (reserve_vertex_output_tokens_for_class now b c n l d)) = meter_of k a day d"
      using look by (simp only: meter_of_def if_False)
    moreover have "reserves k a day (ReserveTokens now b c n l) d = 0" using cost False by (simp only: simp_thms if_False)
    ultimately show ?thesis using ok by (simp del: reserves.simps)
  next
    case True
    have "meter_of k a day (snd (reserve_vertex_output_tokens_for_class now b c n l d)) = meter_of k a day d + (if k \<in> {None, Some c} then n else 0)"
      using look True cur [OF True]
      by (cases k) (auto simp: meter_of_def class_tokens_reserved class_share_def)
    moreover have "meter_of k a day d + n \<le> meter_limit k l" if "k \<in> {None, Some c}"
      using that cur [OF True] allowed_sum(1) [OF granted(2) i64(1) assms(2)]
        allowed_sum(1) [OF granted(3) i64(2) protected_limit_i64] by auto
    ultimately show ?thesis using ok cost True by (simp del: reserves.simps)
  qed
qed

lemma quota_tables [simp]:
  "usage_daily (snd (acquire_concurrency now s h n t d)) = usage_daily d"
  "usage_daily (snd (release_concurrency s h d)) = usage_daily d"
  "concurrency_leases (snd (reserve_vertex_output_tokens_for_class now a c m l d)) = concurrency_leases d"
proof -
  show "usage_daily (snd (acquire_concurrency now s h n t d)) = usage_daily d"
    by (simp add: acquire_concurrency_def Let_def split: sum.split)
  show "usage_daily (snd (release_concurrency s h d)) = usage_daily d"
    by (simp add: release_concurrency_def split: sum.split)
  show "concurrency_leases (snd (reserve_vertex_output_tokens_for_class now a c m l d)) = concurrency_leases d"
    by (cases rule: reserve_cases [of now a c m l d]) simp_all
qed

lemma usage_cong:
  assumes "usage_daily d' = usage_daily d"
  shows "usage_ok d' = usage_ok d" "meter_of k a day d' = meter_of k a day d"
  using assms by (simp_all add: usage_ok_def meter_of_def)

text \<open>Every limit is an \<^verbatim>\<open>i64\<close>; the account's day is reserved under one limit.\<close>

fun limits_i64 :: "quota_op \<Rightarrow> bool" where
  "limits_i64 (ReserveTokens now b c n l) \<longleftrightarrow> l \<le> i64_max"
| "limits_i64 _ \<longleftrightarrow> True"

interpretation daily_quota: metered quota_step usage_ok "meter_of k a day" "reserves k a day"
  "\<lambda>x. limits_i64 x \<and> under_limit a day limit x" "meter_limit k limit"
  for k a day limit
proof
  fix d x assume ok: "usage_ok d" and u: "limits_i64 x \<and> under_limit a day limit x"
  have "usage_ok (quota_step x d) \<and> meter_of k a day (quota_step x d) = meter_of k a day d + reserves k a day x d
    \<and> (reserves k a day x d \<noteq> 0 \<longrightarrow> meter_of k a day d + reserves k a day x d \<le> meter_limit k limit)"
  proof (cases x)
    case (ReserveTokens now b c n l)
    show ?thesis
    proof (cases "b = a \<and> day_of now = day")
      case True
      with u have "l = limit" by (simp add: ReserveTokens)
      with reserve_meter [of d l now b c n k a day] ok u show ?thesis by (simp add: ReserveTokens)
    next
      case False
      with reserve_meter [of d l now b c n k a day] ok u show ?thesis by (auto simp: ReserveTokens)
    qed
  qed (use ok in \<open>simp_all add: usage_cong [OF quota_tables(1)] usage_cong [OF quota_tables(2)]\<close>)
  then show "usage_ok (quota_step x d)"
    "meter_of k a day (quota_step x d) = meter_of k a day d + reserves k a day x d"
    "reserves k a day x d \<noteq> 0 \<Longrightarrow> meter_of k a day d + reserves k a day x d \<le> meter_limit k limit" by blast+
qed

lemma protected_shares: "0 \<le> l \<Longrightarrow> protected_limit AudioWork l + protected_limit ScreenWork l + protected_limit DerivedText l \<le> l"
proof -
  assume l: "0 \<le> l"
  have bound: "protected_limit c l \<le> l * class_percent c div 100" for c
  proof -
    have "0 \<le> saturating_mul l (class_percent c)" "saturating_mul l (class_percent c) \<le> l * class_percent c"
      using l by (cases c; simp add: saturating_mul_def saturate_def i64_max_def i64_min_def)+
    then show ?thesis unfolding protected_limit_def by (simp add: sdiv_nonneg zdiv_mono1)
  qed
  from bound [of AudioWork] bound [of ScreenWork] bound [of DerivedText] show ?thesis by simp
qed

text \<open>C28. The daily token quota holds: over every history in which an account's day is reserved under one
  limit, the tokens reserved in total and by each class of work are exactly what the counters gained,
  and no counter passes its limit; the protected shares of the classes fit into the daily limit.\<close>

theorem daily_quota_respected:
  assumes "usage_ok d" and "list_all (\<lambda>x. limits_i64 x \<and> under_limit a day limit x) ops"
  shows "meter_of k a day (run_ops quota_step ops d) = meter_of k a day d + spent quota_step (reserves k a day) ops d
    \<and> (meter_of k a day d \<le> meter_limit k limit \<longrightarrow>
        meter_of k a day (run_ops quota_step ops d) \<le> meter_limit k limit
        \<and> spent quota_step (reserves k a day) ops d \<le> meter_limit k limit - meter_of k a day d)
    \<and> (0 \<le> limit \<longrightarrow> protected_limit AudioWork limit + protected_limit ScreenWork limit + protected_limit DerivedText limit \<le> limit)"
  using daily_quota.spent_run [OF assms] daily_quota.limit_run [OF assms] daily_quota.spent_limit [OF assms] protected_shares
  by blast

definition quota_db :: db where
  "quota_db = empty_db\<lparr>accounts := [\<lparr>acc_id = ''a'', acc_email = ''e'', acc_status = Active, acc_provider = ''google'',
     acc_subject = ''s'', acc_created = 0\<rparr>]\<rparr>"

theorem daily_quota_respected_witness:
  "meter_of (Some AudioWork) ''a'' 0 (run_ops quota_step [ReserveTokens 5 ''a'' AudioWork 40 100,
     ReserveTokens 6 ''a'' AudioWork 20 100, ReserveTokens 7 ''a'' AudioWork 10 100] quota_db) = 50"
proof -
  let ?ops = "[ReserveTokens 5 ''a'' AudioWork 40 100, ReserveTokens 6 ''a'' AudioWork 20 100, ReserveTokens 7 ''a'' AudioWork 10 100]"
  have "usage_ok quota_db" by (simp add: quota_db_def empty_db_def usage_ok_def)
  moreover have "list_all (\<lambda>x. limits_i64 x \<and> under_limit ''a'' 0 100 x) ?ops" by (simp add: i64_max_def)
  moreover have "spent quota_step (reserves (Some AudioWork) ''a'' 0) ?ops quota_db = 50" by code_simp
  moreover have "meter_of (Some AudioWork) ''a'' 0 quota_db = 0"
    by (simp add: meter_of_def quota_db_def empty_db_def lookup_row_def)
  ultimately show ?thesis using daily_quota_respected [of quota_db "''a''" 0 100 ?ops "Some AudioWork"] by simp
qed

section \<open>Leases\<close>

lemma acquire_cases:
  obtains (refused) e where "acquire_concurrency now s h n t d = (Inl e, d)"
      "\<not> (validate_dimension s ''scope'' = Inr () \<and> validate_dimension h ''holder'' = Inr () \<and> 0 < n \<and> 1 \<le> t \<and> t \<le> 3600)"
  | (ran) live ok where "live = delete_rows (\<lambda>r. ls_scope r = s \<and> ls_expires r \<le> now) (concurrency_leases d)"
      "ok \<longleftrightarrow> (s, h) \<in> lease_key ` set live \<or> count_rows (\<lambda>r. ls_scope r = s) live < int n"
      "validate_dimension s ''scope'' = Inr ()" "validate_dimension h ''holder'' = Inr ()" "0 < n" "1 \<le> t" "t \<le> 3600"
      "acquire_concurrency now s h n t d = (Inr ok, d\<lparr>concurrency_leases :=
         (if ok then upsert_row lease_key (\<lambda>r. r\<lparr>ls_expires := now + seconds (int t)\<rparr>)
                       \<lparr>ls_scope = s, ls_holder = h, ls_expires = now + seconds (int t)\<rparr> live
          else live)\<rparr>)"
proof -
  consider (bad) "\<not> (validate_dimension s ''scope'' = Inr () \<and> validate_dimension h ''holder'' = Inr () \<and> 0 < n \<and> 1 \<le> t \<and> t \<le> 3600)"
    | (good) "validate_dimension s ''scope'' = Inr ()" "validate_dimension h ''holder'' = Inr ()" "0 < n" "1 \<le> t" "t \<le> 3600"
    by fastforce
  then show ?thesis
  proof cases
    case bad
    then have "\<exists>e. acquire_concurrency now s h n t d = (Inl e, d)"
      by (auto simp: acquire_concurrency_def duration_seconds_def split: sum.split)
    with bad refused show ?thesis by blast
  next
    case good
    have range: "\<not> i64_max < int t" using good(5) by (simp add: i64_max_def)
    let ?live = "delete_rows (\<lambda>r. ls_scope r = s \<and> ls_expires r \<le> now) (concurrency_leases d)"
    have held: "exists_row (\<lambda>r. ls_scope r = s \<and> ls_holder r = h) ?live \<longleftrightarrow> (s, h) \<in> lease_key ` set ?live"
      by (auto simp: lease_key_def image_iff)
    show ?thesis
      by (rule ran [OF refl refl good])
        (use good range in \<open>simp add: acquire_concurrency_def duration_seconds_def Let_def held del: exists_row_iff\<close>)
  qed
qed

text \<open>The transactions touch nothing but their own two tables.\<close>

lemma quota_frame:
  "quota_step x d = d\<lparr>usage_daily := usage_daily (quota_step x d), concurrency_leases := concurrency_leases (quota_step x d)\<rparr>"
proof (cases x)
  case (ReserveTokens now a c n l)
  then show ?thesis by (cases rule: reserve_cases [of now a c n l d]) simp_all
next
  case (AcquireLease now s h n t)
  then show ?thesis by (cases rule: acquire_cases [of now s h n t d]) simp_all
next
  case (ReleaseLease s h)
  then show ?thesis by (simp add: release_concurrency_def split: sum.split)
qed

lemma leases_ok_step: "leases_ok d \<Longrightarrow> leases_ok (quota_step x d)"
proof (cases x)
  case (AcquireLease now s h n t)
  assume "leases_ok d"
  then show ?thesis
    by (cases rule: acquire_cases [of now s h n t d])
      (simp_all add: AcquireLease leases_ok_def distinct_upsert_row lease_key_def)
qed (auto simp: leases_ok_def release_concurrency_def split: sum.split)

abbreviation leases_of :: "string \<Rightarrow> db \<Rightarrow> int" where
  "leases_of s d \<equiv> count_rows (\<lambda>r. ls_scope r = s) (concurrency_leases d)"

lemma count_delete_le: "count_rows Q (delete_rows P t) \<le> count_rows Q t"
  by (simp add: count_rows_def delete_rows_def filter_filter) (induction t; simp)

lemma count_upsert:
  assumes "\<And>q. key (f q) = key q" "\<And>q. Q (f q) = Q q"
  shows "count_rows Q (upsert_row key f r t) = count_rows Q t + (if key r \<in> key ` set t then 0 else if Q r then 1 else 0)"
proof -
  have "length (filter Q (update_rows P f t)) = length (filter Q t)" for P
    using assms(2) by (induction t) (auto simp: update_rows_def)
  then show ?thesis by (auto simp: upsert_row_def count_rows_def)
qed

fun lease_limit :: "string \<Rightarrow> nat \<Rightarrow> quota_op \<Rightarrow> bool" where
  "lease_limit s limit (AcquireLease now s' h n t) \<longleftrightarrow> (s' = s \<longrightarrow> n = limit)"
| "lease_limit s limit _ \<longleftrightarrow> True"

lemma leases_bounded_step:
  assumes "leases_of s d \<le> int limit" "lease_limit s limit x"
  shows "leases_of s (quota_step x d) \<le> int limit"
proof (cases x)
  case (AcquireLease now s' h n t)
  show ?thesis
  proof (cases rule: acquire_cases [of now s' h n t d])
    case (refused e)
    with assms show ?thesis by (simp add: AcquireLease)
  next
    case (ran live ok)
    have le: "count_rows (\<lambda>r. ls_scope r = s) live \<le> int limit"
      using count_delete_le [of "\<lambda>r. ls_scope r = s" "\<lambda>r. ls_scope r = s' \<and> ls_expires r \<le> now" "concurrency_leases d"]
        assms(1) by (simp add: ran(1))
    show ?thesis
    proof (cases ok)
      case False
      with le show ?thesis by (simp add: AcquireLease ran(8))
    next
      case True
      with le ran(2) assms(2) show ?thesis
        by (auto simp: AcquireLease ran(8) count_upsert lease_key_def)
    qed
  qed
next
  case (ReleaseLease s' h)
  then show ?thesis using assms(1)
    by (auto simp: release_concurrency_def split: sum.split intro: order_trans [OF count_delete_le])
qed (use assms in simp)

text \<open>C29. A scope never has more concurrency leases than its limit, over every history of acquisitions
  under that limit and of releases, and a holder that is admitted has its lease until its time to live
  has passed.\<close>

theorem concurrency_bounded:
  assumes "leases_ok d" and "leases_of s d \<le> int limit" and "list_all (lease_limit s limit) ops"
  shows "leases_of s (run_ops quota_step ops d) \<le> int limit
    \<and> (fst (acquire_concurrency now s h limit ttl (run_ops quota_step ops d)) = Inr True \<longrightarrow>
        lookup_row lease_key (s, h) (concurrency_leases (snd (acquire_concurrency now s h limit ttl (run_ops quota_step ops d))))
          = Some \<lparr>ls_scope = s, ls_holder = h, ls_expires = now + seconds (int ttl)\<rparr>)"
proof -
  let ?d = "run_ops quota_step ops d"
  have "leases_of s ?d \<le> int limit" using assms(2,3)
    by (induction ops arbitrary: d) (simp_all add: leases_bounded_step)
  moreover have "lookup_row lease_key (s, h) (concurrency_leases (snd (acquire_concurrency now s h limit ttl ?d)))
      = Some \<lparr>ls_scope = s, ls_holder = h, ls_expires = now + seconds (int ttl)\<rparr>"
    if "fst (acquire_concurrency now s h limit ttl ?d) = Inr True"
  proof (cases rule: acquire_cases [of now s h limit ttl ?d])
    case (refused e)
    with that show ?thesis by simp
  next
    case (ran live ok)
    have "q\<lparr>ls_expires := now + seconds (int ttl)\<rparr> = \<lparr>ls_scope = s, ls_holder = h, ls_expires = now + seconds (int ttl)\<rparr>"
      if "lookup_row lease_key (s, h) live = Some q" for q
      using lookup_row_key [OF that] by (simp add: lease_key_def)
    with that ran(8) show ?thesis by (auto simp: lookup_upsert_same lease_key_def split: option.split)
  qed
  ultimately show ?thesis by blast
qed

theorem concurrency_bounded_witness:
  "leases_of ''s'' (run_ops quota_step [AcquireLease 0 ''s'' ''h'' 1 60, AcquireLease 5 ''s'' ''g'' 1 60] empty_db) \<le> 1
   \<and> fst (acquire_concurrency 5 ''s'' ''g'' 1 60 (quota_step (AcquireLease 0 ''s'' ''h'' 1 60) empty_db)) = Inr False"
proof -
  have "fst (acquire_concurrency 5 ''s'' ''g'' 1 60 (quota_step (AcquireLease 0 ''s'' ''h'' 1 60) empty_db)) = Inr False"
    by code_simp
  moreover have "leases_ok empty_db" "leases_of ''s'' empty_db \<le> int 1" by (simp_all add: empty_db_def leases_ok_def count_rows_def)
  ultimately show ?thesis
    using concurrency_bounded [of empty_db "''s''" 1 "[AcquireLease 0 ''s'' ''h'' 1 60, AcquireLease 5 ''s'' ''g'' 1 60]"] by simp
qed

fun acquired_before :: "timestamp \<Rightarrow> quota_op \<Rightarrow> bool" where
  "acquired_before latest (AcquireLease now s h n t) \<longleftrightarrow> now \<le> latest"
| "acquired_before latest _ \<longleftrightarrow> True"

definition expiring :: "timestamp \<Rightarrow> db \<Rightarrow> bool" where
  "expiring t d \<longleftrightarrow> list_all (\<lambda>r. ls_expires r \<le> t) (concurrency_leases d)"

lemma expiring_step:
  assumes "expiring (latest + seconds 3600) d" "acquired_before latest x"
  shows "expiring (latest + seconds 3600) (quota_step x d)"
proof (cases x)
  case (AcquireLease now s h n t)
  show ?thesis
  proof (cases rule: acquire_cases [of now s h n t d])
    case (ran live ok)
    have "now + seconds (int t) \<le> latest + seconds 3600" using assms(2) ran(7) by (simp add: AcquireLease seconds_def)
    with assms(1) ran(1) show ?thesis
      by (auto simp: AcquireLease ran(8) expiring_def list_all_iff upsert_row_def set_update_rows)
  qed (use assms in \<open>simp add: AcquireLease\<close>)
next
  case (ReleaseLease s h)
  with assms(1) show ?thesis by (auto simp: expiring_def list_all_iff release_concurrency_def split: sum.split)
qed (use assms in \<open>simp add: expiring_def\<close>)

text \<open>Crashed holders cannot block a scope for ever: whatever was acquired up to some moment and never
  released, an hour later every valid acquisition is admitted.\<close>

theorem crashed_leases_expire:
  assumes "expiring (latest + seconds 3600) d" and "list_all (acquired_before latest) ops" and "latest + seconds 3600 \<le> now"
    and "validate_dimension s ''scope'' = Inr ()" and "validate_dimension h ''holder'' = Inr ()"
    and "0 < limit" and "1 \<le> ttl" and "ttl \<le> 3600"
  shows "fst (acquire_concurrency now s h limit ttl (run_ops quota_step ops d)) = Inr True"
proof (cases rule: acquire_cases [of now s h limit ttl "run_ops quota_step ops d"])
  case (ran live ok)
  have "expiring (latest + seconds 3600) (run_ops quota_step ops d)"
    using assms(1,2) by (induction ops arbitrary: d) (simp_all add: expiring_step)
  then have "ls_expires r \<le> now" if "r \<in> set (concurrency_leases (run_ops quota_step ops d))" for r
    using that assms(3) by (force simp: expiring_def list_all_iff)
  then have "count_rows (\<lambda>r. ls_scope r = s) live = 0"
    by (auto simp: ran(1) count_rows_def filter_empty_conv)
  with ran(2,5,8) show ?thesis by simp
qed (use assms in simp)

theorem crashed_leases_expire_witness:
  "fst (acquire_concurrency 4000000000 ''s'' ''g'' 1 60 (run_ops quota_step [AcquireLease 5 ''s'' ''h'' 1 3600] empty_db)) = Inr True"
proof -
  have "validate_dimension ''s'' ''scope'' = Inr ()" "validate_dimension ''g'' ''holder'' = Inr ()" by code_simp+
  then show ?thesis
    using crashed_leases_expire [of 5 empty_db "[AcquireLease 5 ''s'' ''h'' 1 3600]" 4000000000 "''s''" "''g''" 1 60]
    by (simp add: empty_db_def expiring_def seconds_def)
qed

end
