(* ===== verification/Billing_Store.thy ===== *)
theory Billing_Store
  imports Schema Tokens Isotime "HOL-Library.List_Lexorder" "HOL-Library.Char_ord"
begin

text \<open>
  The billing repository, \<^verbatim>\<open>persistence/postgres/billing.rs\<close>: billing pseudonyms and their detachment,
  recording leases, and the delivery credits that leases and offline usage grant and that captured
  events spend. Summaries are JSON values of a crate; \<open>json\<close> is its printer and parser. The reporting
  queries and the coverage projection are not modelled.
\<close>

section \<open>Limits and validation\<close>

definition RECORDING_LEASE_DURATION_MS :: int where "RECORDING_LEASE_DURATION_MS = 60000"
definition RECORDING_DELIVERY_EVENTS_PER_MINUTE :: int where "RECORDING_DELIVERY_EVENTS_PER_MINUTE = 120"
definition RECORDING_DELIVERY_BYTES_PER_MINUTE :: int where "RECORDING_DELIVERY_BYTES_PER_MINUTE = 256 * 1024 * 1024"
definition MAX_RECORDING_LEASE_DENIALS_PER_ACCOUNT :: nat where "MAX_RECORDING_LEASE_DENIALS_PER_ACCOUNT = 100"
definition MAX_PENDING_REFERENCE_BATCHES_PER_ACCOUNT :: int where "MAX_PENDING_REFERENCE_BATCHES_PER_ACCOUNT = 256"

definition valid_hex_digest :: "string \<Rightarrow> bool" where
  "valid_hex_digest v \<longleftrightarrow> length v = 64 \<and> list_all is_ascii_hexdigit v"

definition required_millis :: "string \<Rightarrow> string \<Rightarrow> int res" where
  "required_millis v label = (case parse_epoch_millis v of
     Some ms \<Rightarrow> Inr ms | None \<Rightarrow> Inl (Config (''invalid '' @ label @ '' timestamp'')))"

definition week :: timestamp where "week = seconds (7 * 24 * 60 * 60)"

record 'j json =
  js_to :: "'j \<Rightarrow> string res"
  js_from :: "string \<Rightarrow> 'j res"

section \<open>Billing pseudonyms\<close>

definition existing_billing_account_id :: "string \<Rightarrow> db \<Rightarrow> string option" where
  "existing_billing_account_id account_id d = map_option snd (lookup_row fst account_id (billing_accounts d))"

definition provision_billing :: "string \<Rightarrow> string \<Rightarrow> db \<Rightarrow> db res" where
  "provision_billing account_id proposed d =
     (if has_key fst account_id (billing_accounts d) then Inr d
      else if has_key snd proposed (billing_accounts d) then Inl (Postgres ''unique_violation'')
      else Inr (d\<lparr>billing_accounts := billing_accounts d @ [(account_id, proposed)]\<rparr>))"

definition billing_account_id :: "string \<Rightarrow> string \<Rightarrow> db \<Rightarrow> string tx" where
  "billing_account_id random account_id d =
     (if account_status_of d account_id \<noteq> Some Active then (Inl (Auth ''account inactive''), d)
      else case provision_billing account_id (''acct_'' @ random) d of
        Inl e \<Rightarrow> (Inl e, d)
      | Inr d1 \<Rightarrow> (case existing_billing_account_id account_id d1 of
            None \<Rightarrow> (Inl (Postgres ''row_not_found''), d) | Some b \<Rightarrow> (Inr b, d1)))"

definition billing_account_id_for_deletion :: "string \<Rightarrow> string \<Rightarrow> db \<Rightarrow> string tx" where
  "billing_account_id_for_deletion random account_id d =
     (case (if account_status_of d account_id \<in> {Some Active, Some DeletionRequested}
            then provision_billing account_id (''acct_'' @ random) d
            else if account_status_of d account_id = Some Deleting then Inr d
            else Inl (Auth ''account inactive'')) of
        Inl e \<Rightarrow> (Inl e, d)
      | Inr d1 \<Rightarrow> (case existing_billing_account_id account_id d1 of
            None \<Rightarrow> (Inl (Conflict ''deleting account has no durable billing mapping''), d)
          | Some b \<Rightarrow> (Inr b, d1)))"

definition pending_billing_detach_ids :: "int \<Rightarrow> db \<Rightarrow> string list" where
  "pending_billing_detach_ids limit d = map dt_id (take (nat (max 1 (min 100 limit))) (billing_detach_outbox d))"

definition complete_billing_detach :: "string \<Rightarrow> db \<Rightarrow> unit tx" where
  "complete_billing_detach b d = (Inr (), d\<lparr>billing_detach_outbox := delete_rows (\<lambda>r. dt_id r = b) (billing_detach_outbox d)\<rparr>)"

definition record_billing_detach_failure :: "timestamp \<Rightarrow> string \<Rightarrow> db \<Rightarrow> unit tx" where
  "record_billing_detach_failure now b d =
     (Inr (), d\<lparr>billing_detach_outbox := update_rows (\<lambda>r. dt_id r = b)
        (\<lambda>r. r\<lparr>dt_attempts := dt_attempts r + 1, dt_last := Some now\<rparr>) (billing_detach_outbox d)\<rparr>)"

section \<open>Delivery credits\<close>

definition grant_recording_delivery_minute :: "string \<Rightarrow> db \<Rightarrow> db res" where
  "grant_recording_delivery_minute account_id d =
     (case lookup_row ba_account account_id (delivery_balances d) of
        None \<Rightarrow> if account_id \<notin> account_ids d then Inl (Postgres ''foreign_key_violation'')
                else Inr (d\<lparr>delivery_balances := delivery_balances d @
                       [\<lparr>ba_account = account_id, ba_events = RECORDING_DELIVERY_EVENTS_PER_MINUTE,
                         ba_bytes = RECORDING_DELIVERY_BYTES_PER_MINUTE\<rparr>]\<rparr>)
      | Some b \<Rightarrow>
          if \<not> is_i64 (ba_events b + RECORDING_DELIVERY_EVENTS_PER_MINUTE)
             \<or> \<not> is_i64 (ba_bytes b + RECORDING_DELIVERY_BYTES_PER_MINUTE)
          then Inl (Postgres ''numeric_value_out_of_range'')
          else Inr (d\<lparr>delivery_balances := update_rows (\<lambda>r. ba_account r = account_id)
                 (\<lambda>r. r\<lparr>ba_events := ba_events r + RECORDING_DELIVERY_EVENTS_PER_MINUTE,
                        ba_bytes := ba_bytes r + RECORDING_DELIVERY_BYTES_PER_MINUTE\<rparr>) (delivery_balances d)\<rparr>))"

text \<open>Spending credits of an account whose balance row was read before.\<close>

definition charge :: "string \<Rightarrow> int \<Rightarrow> int \<Rightarrow> db \<Rightarrow> db" where
  "charge account_id events bytes d = d\<lparr>delivery_balances := update_rows (\<lambda>r. ba_account r = account_id)
     (\<lambda>r. r\<lparr>ba_events := ba_events r - events, ba_bytes := ba_bytes r - bytes\<rparr>) (delivery_balances d)\<rparr>"

definition offline_recording_usage_receipt :: "string \<Rightarrow> string \<Rightarrow> db \<Rightarrow> bool" where
  "offline_recording_usage_receipt account_id request_id d \<longleftrightarrow> exists_row (\<lambda>r. r = (account_id, request_id)) (offline_receipts d)"

definition complete_offline_recording_usage :: "string \<Rightarrow> string \<Rightarrow> db \<Rightarrow> bool tx" where
  "complete_offline_recording_usage account_id request_id d =
     (if has_key id (account_id, request_id) (offline_receipts d) then (Inr False, d)
      else if account_id \<notin> account_ids d then (Inl (Postgres ''foreign_key_violation''), d)
      else case grant_recording_delivery_minute account_id
                  (d\<lparr>offline_receipts := offline_receipts d @ [(account_id, request_id)]\<rparr>) of
             Inl e \<Rightarrow> (Inl e, d) | Inr d1 \<Rightarrow> (Inr True, d1))"

text \<open>
  The trigger \<^verbatim>\<open>orphan_capture_erasure_guard_upload\<close> on reservations and batch receipts: refused while the
  account is fenced by an erasure, or for an erased event or stream.
\<close>

definition erasure_guard :: "string \<Rightarrow> string option \<Rightarrow> string option \<Rightarrow> db \<Rightarrow> bool" where
  "erasure_guard account_id event stream d \<longleftrightarrow>
     account_id \<notin> set (erasure_fences d)
   \<and> (case event of None \<Rightarrow> True | Some e \<Rightarrow> (account_id, e) \<notin> set (erased_events d))
   \<and> (case stream of None \<Rightarrow> True | Some s \<Rightarrow> (account_id, s) \<notin> set (erased_streams d))"

definition erasure_fenced :: "'a res" where
  "erasure_fenced = Inl (Postgres ''object_not_in_prerequisite_state'')"

definition reservation_key :: "reservation_row \<Rightarrow> string \<times> string" where
  "reservation_key r = (rv_account r, rv_event r)"

definition reserve_recording_delivery :: "string \<Rightarrow> string \<Rightarrow> int \<Rightarrow> db \<Rightarrow> bool tx" where
  "reserve_recording_delivery account_id event_id media_bytes0 d =
     (let media_bytes = max media_bytes0 0;
          (event_cost, byte_cost) = (case lookup_row reservation_key (account_id, event_id) (delivery_reservations d) of
             Some r \<Rightarrow> (0, saturating_sub media_bytes (rv_bytes r)) | None \<Rightarrow> (1, media_bytes))
      in case lookup_row ba_account account_id (delivery_balances d) of
           None \<Rightarrow> (Inr False, d)
         | Some b \<Rightarrow>
             if ba_events b < event_cost \<or> ba_bytes b < byte_cost then (Inr False, d)
             else if event_cost = 0 \<and> byte_cost = 0 then (Inr True, d)
             else if \<not> is_i64 (ba_bytes b - byte_cost) then (Inl (Postgres ''numeric_value_out_of_range''), d)
             else if \<not> erasure_guard account_id (Some event_id) None d then (erasure_fenced, d)
             else (Inr True,
               (charge account_id event_cost byte_cost d)\<lparr>delivery_reservations :=
                  upsert_row reservation_key (\<lambda>r. r\<lparr>rv_bytes := max (rv_bytes r) media_bytes\<rparr>)
                    \<lparr>rv_account = account_id, rv_event = event_id, rv_bytes = media_bytes\<rparr> (delivery_reservations d)\<rparr>))"

section \<open>Reference batches\<close>

definition batch_key :: "batch_row \<Rightarrow> string \<times> string" where
  "batch_key r = (bt_account r, bt_id r)"

record batch_request =
  br_account :: string
  br_batch :: string
  br_digest :: string
  br_stream :: string
  br_first :: int
  br_last :: int
  br_events :: "string list"
  br_new :: "string list"

text \<open>
  The set comparisons of the source say that the identifiers are pairwise different; its checked
  subtraction and addition cannot overflow below 64 events.
\<close>

definition batch_valid :: "batch_request \<Rightarrow> bool" where
  "batch_valid q \<longleftrightarrow> valid_hex_digest (br_batch q) \<and> valid_hex_digest (br_digest q) \<and> br_stream q \<noteq> []
     \<and> br_events q \<noteq> [] \<and> length (br_events q) \<le> 64 \<and> distinct (br_events q) \<and> distinct (br_new q)
     \<and> list_all (\<lambda>e. List.member (br_events q) e) (br_new q)
     \<and> 0 \<le> br_first q \<and> br_first q \<le> br_last q \<and> br_last q - br_first q + 1 = int (length (br_events q))"

definition batch_matches :: "batch_request \<Rightarrow> batch_row \<Rightarrow> bool" where
  "batch_matches q r \<longleftrightarrow> bt_digest r = br_digest q \<and> bt_stream r = br_stream q \<and> bt_first r = br_first q
     \<and> bt_last r = br_last q \<and> bt_count r = int (length (br_events q)) \<and> bt_events r = br_events q"

definition new_batch :: "timestamp \<Rightarrow> batch_request \<Rightarrow> batch_row" where
  "new_batch now q = \<lparr>bt_account = br_account q, bt_id = br_batch q, bt_digest = br_digest q, bt_stream = br_stream q,
     bt_first = br_first q, bt_last = br_last q, bt_count = int (length (br_events q)), bt_state = AwaitingCredit,
     bt_events = br_events q, bt_updated = now\<rparr>"

text \<open>Reading the receipt or inserting it, with the rows of its events: the state it then has.\<close>

definition open_batch :: "timestamp \<Rightarrow> batch_request \<Rightarrow> db \<Rightarrow> (batch_state \<times> db) res" where
  "open_batch now q d =
     (case lookup_row batch_key (br_account q, br_batch q) (batch_receipts d) of
        Some r \<Rightarrow> if batch_matches q r then Inr (bt_state r, d)
                  else Inl (Conflict ''idempotency conflict for reference batch'')
      | None \<Rightarrow>
          if count_rows (\<lambda>r. bt_account r = br_account q \<and> bt_state r \<noteq> Completed) (batch_receipts d)
               \<ge> MAX_PENDING_REFERENCE_BATCHES_PER_ACCOUNT
          then Inl (Conflict ''too many pending reference batches'')
          else if \<not> erasure_guard (br_account q) None (Some (br_stream q)) d then erasure_fenced
          else if br_account q \<notin> account_ids d then Inl (Postgres ''foreign_key_violation'')
          else if \<not> list_all (\<lambda>e. erasure_guard (br_account q) (Some e) None d) (br_events q) then erasure_fenced
          else Inr (AwaitingCredit, d\<lparr>batch_receipts := batch_receipts d @ [new_batch now q]\<rparr>))"

definition is_reserved :: "string \<Rightarrow> db \<Rightarrow> string \<Rightarrow> bool" where
  "is_reserved a d e \<longleftrightarrow> exists_row (\<lambda>r. rv_account r = a \<and> rv_event r = e) (delivery_reservations d)"

definition reserve_events :: "string \<Rightarrow> string list \<Rightarrow> db \<Rightarrow> db" where
  "reserve_events a es d = d\<lparr>delivery_reservations := delivery_reservations d @
     map (\<lambda>e. \<lparr>rv_account = a, rv_event = e, rv_bytes = 0\<rparr>) es\<rparr>"

text \<open>An update of receipts fires the erasure trigger for every row it writes.\<close>

definition update_batches :: "(batch_row \<Rightarrow> bool) \<Rightarrow> timestamp \<Rightarrow> batch_state \<Rightarrow> db \<Rightarrow> db res" where
  "update_batches P now s d =
     (if exists_row (\<lambda>r. P r \<and> \<not> erasure_guard (bt_account r) None (Some (bt_stream r)) d) (batch_receipts d)
      then erasure_fenced
      else Inr (d\<lparr>batch_receipts := update_rows P (\<lambda>r. r\<lparr>bt_state := s, bt_updated := now\<rparr>) (batch_receipts d)\<rparr>))"

definition reserve_recording_delivery_batch :: "timestamp \<Rightarrow> batch_request \<Rightarrow> db \<Rightarrow> bool tx" where
  "reserve_recording_delivery_batch now q d =
     (if \<not> batch_valid q then (Inl (InvalidRequest ''reference batch reservation is invalid''), d)
      else case open_batch now q d of Inl e \<Rightarrow> (Inl e, d)
      | Inr (state, d1) \<Rightarrow>
          if state = Completed then
            if br_new q \<noteq> []
            then (Inl (Store ''completed reference batch is absent from structured capture state''), d)
            else (Inr True, d1)
          else
            let unreserved = filter (\<lambda>e. \<not> is_reserved (br_account q) d1 e) (br_new q);
                n = int (length unreserved);
                mark = (\<lambda>d2. case update_batches (\<lambda>r. batch_key r = (br_account q, br_batch q) \<and> bt_state r \<noteq> Reserved)
                                   now Reserved d2 of
                          Inl e \<Rightarrow> (Inl e, d) | Inr d3 \<Rightarrow> (Inr True, d3))
            in if unreserved = [] then mark d1
               else if (case lookup_row ba_account (br_account q) (delivery_balances d1) of
                          None \<Rightarrow> True | Some b \<Rightarrow> ba_events b < n)
               then (Inr False, d1)
               else if \<not> list_all (\<lambda>e. erasure_guard (br_account q) (Some e) None d1) unreserved then (erasure_fenced, d)
               else mark (reserve_events (br_account q) unreserved (charge (br_account q) n 0 d1)))"

text \<open>
  \<^verbatim>\<open>settle_reference_batches\<close>: receipts whose events have no reservation left are completed, and only the
  newest 256 completed receipts of the account are kept.
\<close>

definition newest_batches :: "string \<Rightarrow> db \<Rightarrow> batch_row list" where
  "newest_batches a d = take 256 (rev (sort_key bt_updated (sort_key bt_id
     (filter (\<lambda>r. bt_account r = a \<and> bt_state r = Completed) (batch_receipts d)))))"

definition settle_reference_batches :: "timestamp \<Rightarrow> string \<Rightarrow> db \<Rightarrow> db res" where
  "settle_reference_batches now a d =
     (case update_batches (\<lambda>r. bt_account r = a \<and> bt_state r = Reserved
              \<and> \<not> list_ex (is_reserved a d) (bt_events r)) now Completed d of
        Inl e \<Rightarrow> Inl e
      | Inr d1 \<Rightarrow> Inr (d1\<lparr>batch_receipts := delete_rows (\<lambda>r. bt_account r = a \<and> bt_state r = Completed
           \<and> bt_id r \<notin> bt_id ` set (newest_batches a d1)) (batch_receipts d1)\<rparr>))"

definition complete_recording_delivery_batch :: "timestamp \<Rightarrow> string \<Rightarrow> string \<Rightarrow> string \<Rightarrow> string list \<Rightarrow> db \<Rightarrow> unit tx" where
  "complete_recording_delivery_batch now a batch digest events d =
     (case lookup_row batch_key (a, batch) (batch_receipts d) of
        None \<Rightarrow> (Inl (Store ''reference batch receipt is missing''), d)
      | Some r \<Rightarrow>
          if bt_digest r \<noteq> digest \<or> bt_events r \<noteq> events
          then (Inl (Conflict ''idempotency conflict for reference batch completion''), d)
          else
            let d1 = d\<lparr>delivery_reservations :=
                   delete_rows (\<lambda>r. rv_account r = a \<and> List.member events (rv_event r)) (delivery_reservations d)\<rparr>
            in case update_batches (\<lambda>r. batch_key r = (a, batch)) now Completed d1 of Inl e \<Rightarrow> (Inl e, d)
               | Inr d2 \<Rightarrow> (case settle_reference_batches now a d2 of Inl e \<Rightarrow> (Inl e, d) | Inr d3 \<Rightarrow> (Inr (), d3)))"

definition complete_recording_delivery :: "timestamp \<Rightarrow> string \<Rightarrow> string \<Rightarrow> db \<Rightarrow> unit tx" where
  "complete_recording_delivery now a event_id d =
     (case settle_reference_batches now a (d\<lparr>delivery_reservations :=
             delete_rows (\<lambda>r. rv_account r = a \<and> rv_event r = event_id) (delivery_reservations d)\<rparr>) of
        Inl e \<Rightarrow> (Inl e, d) | Inr d1 \<Rightarrow> (Inr (), d1))"

section \<open>Recording leases\<close>

record 'j lease_receipt =
  rr_requested :: "string option"
  rr_issued :: string
  rr_expires :: string
  rr_state :: string
  rr_summary :: "'j option"
  rr_denial :: "string option"

definition millis_text :: "timestamp \<Rightarrow> string" where
  "millis_text t = format_epoch_millis (t div 1000)"

definition read_summary :: "'j json \<Rightarrow> string option \<Rightarrow> 'j option res" where
  "read_summary j t = (case t of None \<Rightarrow> Inr None | Some s \<Rightarrow> map_sum id Some (js_from j s))"

fun lease_state_text :: "lease_state \<Rightarrow> string" where
  "lease_state_text LPending = ''pending''"
| "lease_state_text LGranted = ''granted''"
| "lease_state_text LConflict = ''conflict''"

definition request_key :: "lease_request_row \<Rightarrow> string \<times> string" where
  "request_key r = (lr_account r, lr_request r)"

definition denial_key :: "lease_denial_row \<Rightarrow> string \<times> string" where
  "denial_key r = (ld_account r, ld_request r)"

definition recording_lease_receipt :: "'j json \<Rightarrow> string \<Rightarrow> string \<Rightarrow> db \<Rightarrow> 'j lease_receipt option res" where
  "recording_lease_receipt j a request_id d =
     (case lookup_row request_key (a, request_id) (lease_requests d) of
        Some r \<Rightarrow> map_sum id (\<lambda>s. Some \<lparr>rr_requested = lr_requested r, rr_issued = lr_issued r,
            rr_expires = millis_text (lr_expires r), rr_state = lease_state_text (lr_state r), rr_summary = s, rr_denial = None\<rparr>)
          (read_summary j (lr_summary r))
      | None \<Rightarrow> (case lookup_row denial_key (a, request_id) (lease_denials d) of
          None \<Rightarrow> Inr None
        | Some r \<Rightarrow> map_sum id (\<lambda>s. Some \<lparr>rr_requested = ld_requested r, rr_issued = ld_issued r,
            rr_expires = millis_text (ld_expires r), rr_state = ''denied'', rr_summary = s, rr_denial = Some (ld_code r)\<rparr>)
          (read_summary j (Some (ld_summary r)))))"

definition active_recording_lease :: "string \<Rightarrow> db \<Rightarrow> (string \<times> string) option" where
  "active_recording_lease a d =
     map_option (\<lambda>r. (rl_id r, millis_text (rl_expires r))) (lookup_row rl_account a (recording_leases d))"

definition pending_of :: "string \<Rightarrow> db \<Rightarrow> lease_request_row list" where
  "pending_of a d = filter (\<lambda>r. lr_account r = a \<and> lr_state r = LPending) (lease_requests d)"

definition pending_recording_lease_request :: "string \<Rightarrow> db \<Rightarrow> (string \<times> 'j lease_receipt) option" where
  "pending_recording_lease_request a d =
     (case sort_key lr_created (sort_key lr_request (pending_of a d)) of
        [] \<Rightarrow> None
      | r # _ \<Rightarrow> Some (lr_request r, \<lparr>rr_requested = lr_requested r, rr_issued = lr_issued r,
          rr_expires = millis_text (lr_expires r), rr_state = ''pending'', rr_summary = None, rr_denial = None\<rparr>))"

definition begin_recording_lease_request ::
  "timestamp \<Rightarrow> string \<Rightarrow> string \<Rightarrow> string option \<Rightarrow> string \<Rightarrow> string \<Rightarrow> db \<Rightarrow> unit tx" where
  "begin_recording_lease_request now a request_id requested issued expires_at d =
     (case required_millis expires_at ''recording lease expiry'' of Inl e \<Rightarrow> (Inl e, d)
      | Inr ms \<Rightarrow>
          if pending_of a d \<noteq> [] then (Inl (Conflict ''too many pending recording lease requests''), d)
          else (case insert_row request_key \<lparr>lr_account = a, lr_request = request_id, lr_requested = requested,
                       lr_issued = issued, lr_expires = ms * 1000, lr_state = LPending, lr_summary = None,
                       lr_created = now\<rparr> (lease_requests d) of
                  None \<Rightarrow> (Inl (Postgres ''unique_violation''), d)
                | Some t \<Rightarrow> if a \<notin> account_ids d then (Inl (Postgres ''foreign_key_violation''), d)
                            else (Inr (), d\<lparr>lease_requests := t\<rparr>)))"

definition pending_request :: "string \<Rightarrow> string \<Rightarrow> lease_request_row \<Rightarrow> bool" where
  "pending_request a request_id r \<longleftrightarrow> request_key r = (a, request_id) \<and> lr_state r = LPending"

definition stale_denials :: "string \<Rightarrow> lease_denial_row list \<Rightarrow> lease_denial_row list" where
  "stale_denials a t = drop MAX_RECORDING_LEASE_DENIALS_PER_ACCOUNT
     (rev (sort_key ld_created (sort_key ld_request (filter (\<lambda>r. ld_account r = a) t))))"

definition trim_denials :: "timestamp \<Rightarrow> string \<Rightarrow> lease_denial_row list \<Rightarrow> lease_denial_row list" where
  "trim_denials now a t =
     (let recent = delete_rows (\<lambda>r. ld_created r < now - week) t
      in delete_rows (\<lambda>r. denial_key r \<in> denial_key ` set (stale_denials a recent)) recent)"

definition deny_recording_lease_request ::
  "'j json \<Rightarrow> timestamp \<Rightarrow> string \<Rightarrow> string \<Rightarrow> string \<Rightarrow> 'j \<Rightarrow> db \<Rightarrow> unit tx" where
  "deny_recording_lease_request j now a request_id code summary d =
     (case js_to j summary of Inl e \<Rightarrow> (Inl e, d)
      | Inr stored \<Rightarrow>
     (case List.find (pending_request a request_id) (lease_requests d) of
        None \<Rightarrow> (Inl (Postgres ''row_not_found''), d)
      | Some r \<Rightarrow>
          (case insert_row denial_key \<lparr>ld_account = a, ld_request = request_id, ld_requested = lr_requested r,
                  ld_issued = lr_issued r, ld_expires = lr_expires r div 1000 * 1000, ld_code = code, ld_summary = stored,
                  ld_created = now\<rparr> (lease_denials d) of
             None \<Rightarrow> (Inl (Postgres ''unique_violation''), d)
           | Some t \<Rightarrow> (Inr (), d\<lparr>lease_requests := delete_rows (pending_request a request_id) (lease_requests d),
                                lease_denials := trim_denials now a t\<rparr>))))"

text \<open>When the lease that is granted runs out, in milliseconds.\<close>

definition granted_until :: "int option \<Rightarrow> int \<Rightarrow> int option \<Rightarrow> int" where
  "granted_until retry_now_ms pending_ms active_ms =
     (case retry_now_ms of
        Some now_ms \<Rightarrow> max (saturating_add (max now_ms (case active_ms of None \<Rightarrow> i64_min | Some t \<Rightarrow> t)) RECORDING_LEASE_DURATION_MS)
                        pending_ms
      | None \<Rightarrow> max pending_ms (case active_ms of None \<Rightarrow> i64_min | Some t \<Rightarrow> t))"

definition complete_recording_lease ::
  "'j json \<Rightarrow> timestamp \<Rightarrow> string \<Rightarrow> string \<Rightarrow> int option \<Rightarrow> 'j \<Rightarrow> db \<Rightarrow> (string \<times> string) tx" where
  "complete_recording_lease j now a request_id retry_now_ms summary d =
     (case js_to j summary of Inl e \<Rightarrow> (Inl e, d) | Inr stored \<Rightarrow>
      case List.find (pending_request a request_id) (lease_requests d) of
        None \<Rightarrow> (Inl (Postgres ''row_not_found''), d)
      | Some r \<Rightarrow>
          let lease_id = lr_issued r;
              active = lookup_row rl_account a (recording_leases d);
              active_ms = map_option (\<lambda>l. rl_expires l div 1000) active
          in if (case active of None \<Rightarrow> False
                 | Some l \<Rightarrow> rl_id l \<noteq> lease_id \<and>
                     (case retry_now_ms of None \<Rightarrow> True | Some now_ms \<Rightarrow> rl_expires l div 1000 > now_ms))
             then (Inl (Conflict ''a different recording lease became active''), d)
             else
               let until = granted_until retry_now_ms (lr_expires r div 1000) active_ms;
                   lease = \<lparr>rl_account = a, rl_id = lease_id, rl_expires = until * 1000\<rparr>
               in if exists_row (\<lambda>l. rl_id l = lease_id \<and> rl_account l \<noteq> a) (recording_leases d)
                  then (Inl (Postgres ''unique_violation''), d)
                  else
                    let d1 = d\<lparr>lease_requests := update_rows (pending_request a request_id)
                               (\<lambda>r. r\<lparr>lr_expires := until * 1000, lr_state := LGranted, lr_summary := Some stored\<rparr>) (lease_requests d),
                             recording_leases := upsert_row rl_account (\<lambda>_. lease) lease (recording_leases d)\<rparr>
                    in case grant_recording_delivery_minute a d1 of
                         Inl e \<Rightarrow> (Inl e, d)
                       | Inr d2 \<Rightarrow> (Inr (lease_id, format_epoch_millis until),
                           d2\<lparr>lease_requests := delete_rows (\<lambda>r. lr_state r \<noteq> LPending \<and> lr_created r < now - week)
                             (lease_requests d2)\<rparr>))"

definition conflict_recording_lease_request :: "string \<Rightarrow> string \<Rightarrow> db \<Rightarrow> unit tx" where
  "conflict_recording_lease_request a request_id d =
     (Inr (), d\<lparr>lease_requests := update_rows (pending_request a request_id) (\<lambda>r. r\<lparr>lr_state := LConflict\<rparr>)
        (lease_requests d)\<rparr>)"

section \<open>Histories\<close>

datatype 'j billing_op =
    ProvisionBilling string string
  | ProvisionForDeletion string string
  | CompleteDetach string
  | FailDetach timestamp string
  | CompleteOffline string string
  | ReserveDelivery string string int
  | ReserveBatch timestamp batch_request
  | CompleteBatch timestamp string string string "string list"
  | CompleteDelivery timestamp string string
  | BeginLease timestamp string string "string option" string string
  | DenyLease timestamp string string string 'j
  | CompleteLease timestamp string string "int option" 'j
  | ConflictLease string string

fun billing_step :: "'j json \<Rightarrow> 'j billing_op \<Rightarrow> db \<Rightarrow> db" where
  "billing_step j (ProvisionBilling random a) d = snd (billing_account_id random a d)"
| "billing_step j (ProvisionForDeletion random a) d = snd (billing_account_id_for_deletion random a d)"
| "billing_step j (CompleteDetach b) d = snd (complete_billing_detach b d)"
| "billing_step j (FailDetach now b) d = snd (record_billing_detach_failure now b d)"
| "billing_step j (CompleteOffline a r) d = snd (complete_offline_recording_usage a r d)"
| "billing_step j (ReserveDelivery a e n) d = snd (reserve_recording_delivery a e n d)"
| "billing_step j (ReserveBatch now q) d = snd (reserve_recording_delivery_batch now q d)"
| "billing_step j (CompleteBatch now a b g es) d = snd (complete_recording_delivery_batch now a b g es d)"
| "billing_step j (CompleteDelivery now a e) d = snd (complete_recording_delivery now a e d)"
| "billing_step j (BeginLease now a r l i x) d = snd (begin_recording_lease_request now a r l i x d)"
| "billing_step j (DenyLease now a r c s) d = snd (deny_recording_lease_request j now a r c s d)"
| "billing_step j (CompleteLease now a r t s) d = snd (complete_recording_lease j now a r t s d)"
| "billing_step j (ConflictLease a r) d = snd (conflict_recording_lease_request a r d)"

end
