(* ===== verification/Billing_Credits.thy ===== *)
theory Billing_Credits
  imports Billing_Store Quotas
begin

text \<open>
  The guarantees of the billing repository: every credit spent was granted, a granted minute is granted
  once, a reservation is replayed without being charged again, and recording leases never shorten.
\<close>

section \<open>Balances\<close>

definition credits_ok :: "db \<Rightarrow> bool" where
  "credits_ok d \<longleftrightarrow> distinct (map ba_account (delivery_balances d))
     \<and> list_all (\<lambda>b. 0 \<le> ba_events b \<and> is_i64 (ba_events b) \<and> 0 \<le> ba_bytes b \<and> is_i64 (ba_bytes b)) (delivery_balances d)
     \<and> distinct (map reservation_key (delivery_reservations d)) \<and> list_all (\<lambda>r. 0 \<le> rv_bytes r) (delivery_reservations d)"

definition events_of :: "string \<Rightarrow> db \<Rightarrow> int" where
  "events_of a d = (case lookup_row ba_account a (delivery_balances d) of None \<Rightarrow> 0 | Some b \<Rightarrow> ba_events b)"

definition bytes_of :: "string \<Rightarrow> db \<Rightarrow> int" where
  "bytes_of a d = (case lookup_row ba_account a (delivery_balances d) of None \<Rightarrow> 0 | Some b \<Rightarrow> ba_bytes b)"

definition reservations_of :: "string \<Rightarrow> db \<Rightarrow> int" where
  "reservations_of a d = count_rows (\<lambda>r. rv_account r = a) (delivery_reservations d)"

lemma credits_nonneg: "credits_ok d \<Longrightarrow> 0 \<le> events_of a d \<and> 0 \<le> bytes_of a d"
  by (auto simp: credits_ok_def events_of_def bytes_of_def list_all_iff split: option.split dest!: lookup_row_Some)

lemma balances_cong:
  assumes "delivery_balances d' = delivery_balances d"
  shows "events_of a d' = events_of a d" "bytes_of a d' = bytes_of a d"
  using assms by (simp_all add: events_of_def bytes_of_def)

lemma i64_minute:
  "is_i64 RECORDING_DELIVERY_EVENTS_PER_MINUTE" "0 \<le> RECORDING_DELIVERY_EVENTS_PER_MINUTE"
  "is_i64 RECORDING_DELIVERY_BYTES_PER_MINUTE" "0 \<le> RECORDING_DELIVERY_BYTES_PER_MINUTE"
  by (simp_all add: is_i64_def i64_max_def i64_min_def RECORDING_DELIVERY_EVENTS_PER_MINUTE_def RECORDING_DELIVERY_BYTES_PER_MINUTE_def)

text \<open>A grant adds one minute of credits to one balance.\<close>

lemma grant_effect:
  assumes "grant_recording_delivery_minute a d = Inr d1"
  shows "d1 = d\<lparr>delivery_balances := delivery_balances d1\<rparr>"
    "events_of b d1 = events_of b d + (if b = a then RECORDING_DELIVERY_EVENTS_PER_MINUTE else 0)"
    "bytes_of b d1 = bytes_of b d + (if b = a then RECORDING_DELIVERY_BYTES_PER_MINUTE else 0)"
    "credits_ok d \<Longrightarrow> credits_ok d1"
proof -
  consider (fresh) "lookup_row ba_account a (delivery_balances d) = None"
      "d1 = d\<lparr>delivery_balances := delivery_balances d @ [\<lparr>ba_account = a, ba_events = RECORDING_DELIVERY_EVENTS_PER_MINUTE,
         ba_bytes = RECORDING_DELIVERY_BYTES_PER_MINUTE\<rparr>]\<rparr>"
    | (more) r where "lookup_row ba_account a (delivery_balances d) = Some r"
      "is_i64 (ba_events r + RECORDING_DELIVERY_EVENTS_PER_MINUTE)" "is_i64 (ba_bytes r + RECORDING_DELIVERY_BYTES_PER_MINUTE)"
      "d1 = d\<lparr>delivery_balances := update_rows (\<lambda>r. ba_account r = a)
         (\<lambda>r. r\<lparr>ba_events := ba_events r + RECORDING_DELIVERY_EVENTS_PER_MINUTE,
            ba_bytes := ba_bytes r + RECORDING_DELIVERY_BYTES_PER_MINUTE\<rparr>) (delivery_balances d)\<rparr>"
    using assms by (auto simp: grant_recording_delivery_minute_def split: option.splits if_splits)
  note cases = this
  show "d1 = d\<lparr>delivery_balances := delivery_balances d1\<rparr>" by (cases rule: cases) simp_all
  show "events_of b d1 = events_of b d + (if b = a then RECORDING_DELIVERY_EVENTS_PER_MINUTE else 0)"
    by (cases rule: cases)
      (auto simp: events_of_def lookup_row_append lookup_row_update split: option.split dest: lookup_row_key)
  show "bytes_of b d1 = bytes_of b d + (if b = a then RECORDING_DELIVERY_BYTES_PER_MINUTE else 0)"
    by (cases rule: cases)
      (auto simp: bytes_of_def lookup_row_append lookup_row_update split: option.split dest: lookup_row_key)
  show "credits_ok d1" if ok: "credits_ok d"
  proof (cases rule: cases)
    case fresh
    then have "a \<notin> ba_account ` set (delivery_balances d)" by (simp add: lookup_row_None)
    with fresh(2) ok i64_minute show ?thesis by (simp add: credits_ok_def)
  next
    case (more r)
    have "q = r" if "q \<in> set (delivery_balances d)" "ba_account q = a" for q
      using that ok lookup_row_unique [of ba_account "delivery_balances d" q] more(1) by (simp add: credits_ok_def)
    moreover have "map ba_account (delivery_balances d1) = map ba_account (delivery_balances d)"
      unfolding more(4) by simp (rule map_update_rows, simp)
    ultimately show ?thesis using ok more(2-4) i64_minute by (auto simp: credits_ok_def list_all_iff set_update_rows)
  qed
qed

text \<open>A charge takes what was read to be there.\<close>

lemma charge_effect:
  assumes "lookup_row ba_account a (delivery_balances d) = Some r"
  shows "events_of b (charge a e n d) = events_of b d - (if b = a then e else 0)"
    "bytes_of b (charge a e n d) = bytes_of b d - (if b = a then n else 0)"
  using assms by (auto simp: charge_def events_of_def bytes_of_def lookup_row_update split: option.split dest: lookup_row_key)

lemma charge_ok:
  assumes "credits_ok d" "lookup_row ba_account a (delivery_balances d) = Some r"
    and "0 \<le> e" "e \<le> ba_events r" "n \<le> ba_bytes r" "is_i64 (ba_bytes r - n)"
  shows "credits_ok (charge a e n d)"
proof -
  have one: "q = r" if "q \<in> set (delivery_balances d)" "ba_account q = a" for q
    using that assms(1,2) lookup_row_unique [of ba_account "delivery_balances d" q] by (simp add: credits_ok_def)
  have r: "is_i64 (ba_events r)" using assms(1) lookup_row_Some [OF assms(2)] by (auto simp: credits_ok_def list_all_iff)
  have "is_i64 (ba_events r - e)" using r assms(3,4) by (auto simp: is_i64_def i64_min_def)
  moreover have "map ba_account (delivery_balances (charge a e n d)) = map ba_account (delivery_balances d)"
    unfolding charge_def by simp (rule map_update_rows, simp)
  ultimately show ?thesis using assms one by (auto simp: credits_ok_def list_all_iff charge_def set_update_rows)
qed

section \<open>What a reservation does\<close>

lemma reserve_delivery_cases:
  obtains (kept) "snd (reserve_recording_delivery a e m d) = d"
  | (charged) b ec bc where "lookup_row ba_account a (delivery_balances d) = Some b"
      "(ec, bc) = (case lookup_row reservation_key (a, e) (delivery_reservations d) of
         Some r \<Rightarrow> (0, saturating_sub (max m 0) (rv_bytes r)) | None \<Rightarrow> (1, max m 0))"
      "ec \<le> ba_events b" "bc \<le> ba_bytes b" "is_i64 (ba_bytes b - bc)"
      "reserve_recording_delivery a e m d = (Inr True, (charge a ec bc d)\<lparr>delivery_reservations :=
         upsert_row reservation_key (\<lambda>r. r\<lparr>rv_bytes := max (rv_bytes r) (max m 0)\<rparr>)
           \<lparr>rv_account = a, rv_event = e, rv_bytes = max m 0\<rparr> (delivery_reservations d)\<rparr>)"
proof -
  obtain ec bc :: int where c: "(ec, bc) = (case lookup_row reservation_key (a, e) (delivery_reservations d) of
      Some r \<Rightarrow> (0, saturating_sub (max m 0) (rv_bytes r)) | None \<Rightarrow> (1, max m 0))"
    by (metis surj_pair)
  note run = reserve_recording_delivery_def [of a e m d, unfolded Let_def, folded c, unfolded prod.case]
  show ?thesis
  proof (cases "lookup_row ba_account a (delivery_balances d)")
    case None
    with run kept show ?thesis by simp
  next
    case (Some b)
    show ?thesis
    proof (cases "ba_events b < ec \<or> ba_bytes b < bc \<or> (ec = 0 \<and> bc = 0) \<or> \<not> is_i64 (ba_bytes b - bc)
        \<or> \<not> erasure_guard a (Some e) None d")
      case True
      with run Some have "snd (reserve_recording_delivery a e m d) = d" by auto
      then show ?thesis by (rule kept)
    next
      case False
      show ?thesis by (rule charged [OF Some c]) (use run Some False in auto)
    qed
  qed
qed

lemma open_batch_frame:
  assumes "open_batch now q d = Inr (s, d1)"
  shows "d1 = d\<lparr>batch_receipts := batch_receipts d1\<rparr>"
  using assms by (auto simp: open_batch_def erasure_fenced_def split: option.splits if_splits)

lemma update_batches_frame:
  "update_batches P now s d = Inr d1 \<Longrightarrow> d1 = d\<lparr>batch_receipts := batch_receipts d1\<rparr>"
  by (auto simp: update_batches_def erasure_fenced_def split: if_splits)

text \<open>The transaction of a batch: the receipt is opened, the events not yet reserved are charged and
  reserved, and the receipt is marked.\<close>

lemma reserve_batch_cases:
  obtains (kept) t where "snd (reserve_recording_delivery_batch now q d) = d\<lparr>batch_receipts := t\<rparr>"
  | (charged) b es t where "es = filter (\<lambda>e. \<not> is_reserved (br_account q) d e) (br_new q)" "batch_valid q"
      "lookup_row ba_account (br_account q) (delivery_balances d) = Some b" "int (length es) \<le> ba_events b"
      "reserve_recording_delivery_batch now q d = (Inr True,
         (reserve_events (br_account q) es (charge (br_account q) (int (length es)) 0 d))\<lparr>batch_receipts := t\<rparr>)"
proof (cases "batch_valid q")
  case False
  then show ?thesis by (intro kept [of "batch_receipts d"]) (simp add: reserve_recording_delivery_batch_def)
next
  case valid: True
  show ?thesis
  proof (cases "open_batch now q d")
    case (Inl e)
    with valid show ?thesis by (intro kept [of "batch_receipts d"]) (simp add: reserve_recording_delivery_batch_def)
  next
    case (Inr sd)
    obtain s d1 where sd: "sd = (s, d1)" by (cases sd)
    obtain t where d1: "d1 = d\<lparr>batch_receipts := t\<rparr>" using open_batch_frame Inr sd by blast
    define es where "es = filter (\<lambda>e. \<not> is_reserved (br_account q) d e) (br_new q)"
    have es1: "filter (\<lambda>e. \<not> is_reserved (br_account q) d1 e) (br_new q) = es" by (simp add: es_def d1 is_reserved_def)
    let ?P = "\<lambda>r. batch_key r = (br_account q, br_batch q) \<and> bt_state r \<noteq> Reserved"
    note run = reserve_recording_delivery_batch_def [of now q d, unfolded Inr sd Let_def sum.case prod.case es1]
    consider (still) "snd (reserve_recording_delivery_batch now q d) \<in> {d, d1}" | (none) "s \<noteq> Completed" "es = []"
      | (pay) b where "s \<noteq> Completed" "es \<noteq> []" "list_all (\<lambda>e. erasure_guard (br_account q) (Some e) None d1) es"
          "lookup_row ba_account (br_account q) (delivery_balances d) = Some b" "int (length es) \<le> ba_events b"
    proof (cases "s = Completed \<or> (case lookup_row ba_account (br_account q) (delivery_balances d1) of
          None \<Rightarrow> True | Some b \<Rightarrow> ba_events b < int (length es)) \<or> \<not> list_all (\<lambda>e. erasure_guard (br_account q) (Some e) None d1) es")
      case stop: True
      show ?thesis
      proof (cases "s = Completed \<or> es \<noteq> []")
        case True
        with stop run valid have "snd (reserve_recording_delivery_batch now q d) \<in> {d, d1}" by auto
        then show ?thesis by (rule still)
      next
        case False
        then show ?thesis by (intro none) simp_all
      qed
    next
      case False
      then obtain b where "lookup_row ba_account (br_account q) (delivery_balances d) = Some b" "int (length es) \<le> ba_events b"
        by (cases "lookup_row ba_account (br_account q) (delivery_balances d)") (auto simp: d1)
      with False none pay [of b] show ?thesis by (cases "es = []") auto
    qed
    then show ?thesis
    proof cases
      case still
      then have "snd (reserve_recording_delivery_batch now q d) = d\<lparr>batch_receipts := batch_receipts d\<rparr>
        \<or> snd (reserve_recording_delivery_batch now q d) = d\<lparr>batch_receipts := t\<rparr>" by (auto simp: d1)
      with kept show ?thesis by blast
    next
      case none
      show ?thesis
      proof (cases "update_batches ?P now Reserved d1")
        case (Inl e)
        with run valid none show ?thesis by (intro kept [of "batch_receipts d"]) simp
      next
        case (Inr d3)
        obtain t3 where "d3 = d1\<lparr>batch_receipts := t3\<rparr>" using update_batches_frame [OF Inr] by blast
        with run valid none Inr show ?thesis by (intro kept [of t3]) (simp add: d1)
      qed
    next
      case (pay b)
      let ?d2 = "reserve_events (br_account q) es (charge (br_account q) (int (length es)) 0 d1)"
      show ?thesis
      proof (cases "update_batches ?P now Reserved ?d2")
        case (Inl e)
        with run valid pay show ?thesis by (intro kept [of "batch_receipts d"]) (simp add: d1)
      next
        case (Inr d3)
        obtain t3 where d3: "d3 = ?d2\<lparr>batch_receipts := t3\<rparr>" using update_batches_frame [OF Inr] by blast
        have "reserve_recording_delivery_batch now q d = (Inr True, d3)"
          using run valid pay Inr by (simp add: d1)
        with pay valid show ?thesis
          by (intro charged [of es b t3]) (simp_all add: d3 d1 es_def reserve_events_def charge_def)
      qed
    qed
  qed
qed

section \<open>Every credit spent was granted\<close>

fun grants_minute :: "'j json \<Rightarrow> string \<Rightarrow> 'j billing_op \<Rightarrow> db \<Rightarrow> bool" where
  "grants_minute j a (CompleteOffline b r) d \<longleftrightarrow> b = a \<and> fst (complete_offline_recording_usage b r d) = Inr True"
| "grants_minute j a (CompleteLease now b r t s) d \<longleftrightarrow> b = a \<and> (case fst (complete_recording_lease j now b r t s d) of Inl _ \<Rightarrow> False | Inr _ \<Rightarrow> True)"
| "grants_minute j a _ d \<longleftrightarrow> False"

text \<open>The events that a reservation adds to what is reserved.\<close>

fun newly_reserved :: "'j json \<Rightarrow> string \<Rightarrow> 'j billing_op \<Rightarrow> db \<Rightarrow> int" where
  "newly_reserved j a (ReserveDelivery b e m) d =
     reservations_of a (snd (reserve_recording_delivery b e m d)) - reservations_of a d"
| "newly_reserved j a (ReserveBatch now q) d =
     reservations_of a (snd (reserve_recording_delivery_batch now q d)) - reservations_of a d"
| "newly_reserved j a _ d = 0"

lemma reserve_delivery_credits:
  assumes ok: "credits_ok d"
  shows "credits_ok (snd (reserve_recording_delivery b e m d))"
    "events_of a (snd (reserve_recording_delivery b e m d)) = events_of a d
       - (reservations_of a (snd (reserve_recording_delivery b e m d)) - reservations_of a d)"
    "reservations_of a d \<le> reservations_of a (snd (reserve_recording_delivery b e m d))"
proof -
  let ?d = "snd (reserve_recording_delivery b e m d)"
  have "credits_ok ?d \<and> events_of a ?d = events_of a d - (reservations_of a ?d - reservations_of a d)
    \<and> reservations_of a d \<le> reservations_of a ?d"
  proof (cases rule: reserve_delivery_cases [of b e m d])
    case kept
    with ok show ?thesis by simp
  next
    case (charged r ec bc)
    let ?row = "\<lparr>rv_account = b, rv_event = e, rv_bytes = max m 0\<rparr>"
    let ?t = "upsert_row reservation_key (\<lambda>r. r\<lparr>rv_bytes := max (rv_bytes r) (max m 0)\<rparr>) ?row (delivery_reservations d)"
    have ec: "ec = (if (b, e) \<in> reservation_key ` set (delivery_reservations d) then 0 else 1)"
      using charged(2) lookup_row_None [of reservation_key "(b, e)" "delivery_reservations d"]
      by (cases "lookup_row reservation_key (b, e) (delivery_reservations d)") auto
    have "reservations_of a ?d = reservations_of a d + (if a = b then ec else 0)"
      using ec by (simp add: reservations_of_def charged(6) count_upsert reservation_key_def)
    moreover have "events_of a ?d = events_of a d - (if a = b then ec else 0)"
      using charge_effect(1) [OF charged(1), of a ec bc] by (simp add: charged(6) events_of_def)
    moreover have "credits_ok ?d"
    proof -
      have "credits_ok (charge b ec bc d)"
        using ec charged(3-5) by (intro charge_ok [OF ok charged(1)]) (auto split: if_splits)
      moreover have "distinct (map reservation_key ?t)"
        using ok by (intro distinct_upsert_row) (auto simp: credits_ok_def reservation_key_def)
      moreover have "list_all (\<lambda>r. 0 \<le> rv_bytes r) ?t"
        using ok by (auto simp: credits_ok_def list_all_iff upsert_row_def set_update_rows)
      ultimately show ?thesis by (simp add: charged(6) credits_ok_def)
    qed
    ultimately show ?thesis using ec by auto
  qed
  then show "credits_ok ?d" "events_of a ?d = events_of a d - (reservations_of a ?d - reservations_of a d)"
    "reservations_of a d \<le> reservations_of a ?d" by blast+
qed

lemma reserve_batch_credits:
  assumes ok: "credits_ok d"
  shows "credits_ok (snd (reserve_recording_delivery_batch now q d))"
    "events_of a (snd (reserve_recording_delivery_batch now q d)) = events_of a d
       - (reservations_of a (snd (reserve_recording_delivery_batch now q d)) - reservations_of a d)"
    "reservations_of a d \<le> reservations_of a (snd (reserve_recording_delivery_batch now q d))"
proof -
  let ?d = "snd (reserve_recording_delivery_batch now q d)"
  have "credits_ok ?d \<and> events_of a ?d = events_of a d - (reservations_of a ?d - reservations_of a d)
    \<and> reservations_of a d \<le> reservations_of a ?d"
  proof (cases rule: reserve_batch_cases [of now q d])
    case kept
    with ok show ?thesis by (simp add: credits_ok_def events_of_def reservations_of_def)
  next
    case (charged b es t)
    let ?n = "int (length es)"
    have rows: "delivery_reservations ?d = delivery_reservations (reserve_events (br_account q) es d)"
      "delivery_balances ?d = delivery_balances (charge (br_account q) ?n 0 d)"
      by (simp_all add: charged(5) reserve_events_def charge_def)
    have b: "0 \<le> ba_bytes b" "is_i64 (ba_bytes b)" using ok lookup_row_Some [OF charged(3)] by (auto simp: credits_ok_def list_all_iff)
    have "credits_ok (charge (br_account q) ?n 0 d)"
      using b charged(4) by (intro charge_ok [OF ok charged(3)]) simp_all
    moreover have "distinct (map reservation_key (delivery_reservations ?d))"
    proof -
      have "distinct es" using charged(1,2) by (simp add: batch_valid_def)
      moreover have "rv_event r \<notin> set es" if "r \<in> set (delivery_reservations d)" "rv_account r = br_account q" for r
        using that charged(1) by (auto simp: is_reserved_def)
      moreover have "map reservation_key (delivery_reservations ?d) =
          map reservation_key (delivery_reservations d) @ map (\<lambda>e. (br_account q, e)) es"
        by (simp add: rows(1) reserve_events_def reservation_key_def)
      ultimately show ?thesis using ok by (auto simp: credits_ok_def distinct_map inj_on_def reservation_key_def)
    qed
    moreover have "list_all (\<lambda>r. 0 \<le> rv_bytes r) (delivery_reservations ?d)"
      using ok by (auto simp: rows(1) reserve_events_def credits_ok_def list_all_iff)
    ultimately have "credits_ok ?d" by (simp add: credits_ok_def rows(2))
    moreover have "reservations_of a ?d = reservations_of a d + (if a = br_account q then ?n else 0)"
      by (auto simp: reservations_of_def rows(1) reserve_events_def count_rows_def filter_map o_def)
    moreover have "events_of a ?d = events_of a d - (if a = br_account q then ?n else 0)"
      using charge_effect(1) [OF charged(3), of a ?n 0] by (simp add: rows(2) events_of_def)
    ultimately show ?thesis by simp
  qed
  then show "credits_ok ?d" "events_of a ?d = events_of a d - (reservations_of a ?d - reservations_of a d)"
    "reservations_of a d \<le> reservations_of a ?d" by blast+
qed

lemma offline_cases:
  obtains (kept) "snd (complete_offline_recording_usage a r d) = d" "fst (complete_offline_recording_usage a r d) \<noteq> Inr True"
  | (granted) d1 where "(a, r) \<notin> set (offline_receipts d)"
      "grant_recording_delivery_minute a (d\<lparr>offline_receipts := offline_receipts d @ [(a, r)]\<rparr>) = Inr d1"
      "complete_offline_recording_usage a r d = (Inr True, d1)"
proof (cases "fst (complete_offline_recording_usage a r d) = Inr True")
  case True
  then show ?thesis using granted
    by (auto simp: complete_offline_recording_usage_def split: if_splits sum.splits)
next
  case False
  then have "snd (complete_offline_recording_usage a r d) = d"
    by (auto simp: complete_offline_recording_usage_def split: if_splits sum.splits)
  with False kept show ?thesis by blast
qed

lemma complete_lease_cases:
  obtains (kept) e where "complete_recording_lease j now a r t s d = (Inl e, d)"
  | (granted) q stored until d2 where "List.find (pending_request a r) (lease_requests d) = Some q" "js_to j s = Inr stored"
      "until = granted_until t (lr_expires q div 1000) (map_option (\<lambda>l. rl_expires l div 1000) (lookup_row rl_account a (recording_leases d)))"
      "\<And>l. lookup_row rl_account a (recording_leases d) = Some l \<Longrightarrow> rl_id l = lr_issued q \<or>
         (\<exists>now_ms. t = Some now_ms \<and> rl_expires l div 1000 \<le> now_ms)"
      "\<forall>l\<in>set (recording_leases d). rl_id l = lr_issued q \<longrightarrow> rl_account l = a"
      "grant_recording_delivery_minute a (d\<lparr>lease_requests := update_rows (pending_request a r)
           (\<lambda>r. r\<lparr>lr_expires := until * 1000, lr_state := LGranted, lr_summary := Some stored\<rparr>) (lease_requests d),
         recording_leases := upsert_row rl_account (\<lambda>_. \<lparr>rl_account = a, rl_id = lr_issued q, rl_expires = until * 1000\<rparr>)
           \<lparr>rl_account = a, rl_id = lr_issued q, rl_expires = until * 1000\<rparr> (recording_leases d)\<rparr>) = Inr d2"
      "complete_recording_lease j now a r t s d = (Inr (lr_issued q, format_epoch_millis until),
         d2\<lparr>lease_requests := delete_rows (\<lambda>r. lr_state r \<noteq> LPending \<and> lr_created r < now - week) (lease_requests d2)\<rparr>)"
proof (cases "fst (complete_recording_lease j now a r t s d)")
  case (Inl e)
  then have "complete_recording_lease j now a r t s d = (Inl e, d)"
    by (auto simp: complete_recording_lease_def Let_def simp del: exists_row_iff split: sum.splits option.splits if_splits)
  then show ?thesis by (rule kept)
next
  case (Inr l)
  then obtain stored q where q: "js_to j s = Inr stored" "List.find (pending_request a r) (lease_requests d) = Some q"
    by (auto simp: complete_recording_lease_def split: sum.splits option.splits)
  define until where "until = granted_until t (lr_expires q div 1000) (map_option (\<lambda>l. rl_expires l div 1000) (lookup_row rl_account a (recording_leases d)))"
  note run = complete_recording_lease_def [of j now a r t s d, unfolded q Let_def sum.case option.case, folded until_def]
  from Inr run have ok: "\<not> (case lookup_row rl_account a (recording_leases d) of None \<Rightarrow> False
       | Some l \<Rightarrow> rl_id l \<noteq> lr_issued q \<and> (case t of None \<Rightarrow> True | Some now_ms \<Rightarrow> rl_expires l div 1000 > now_ms))"
    by (auto split: if_splits)
  from Inr run ok have uniq: "\<not> exists_row (\<lambda>l. rl_id l = lr_issued q \<and> rl_account l \<noteq> a) (recording_leases d)"
    by (auto simp del: exists_row_iff split: if_splits)
  show ?thesis
  proof (cases "grant_recording_delivery_minute a (d\<lparr>lease_requests := update_rows (pending_request a r)
           (\<lambda>r. r\<lparr>lr_expires := until * 1000, lr_state := LGranted, lr_summary := Some stored\<rparr>) (lease_requests d),
         recording_leases := upsert_row rl_account (\<lambda>_. \<lparr>rl_account = a, rl_id = lr_issued q, rl_expires = until * 1000\<rparr>)
           \<lparr>rl_account = a, rl_id = lr_issued q, rl_expires = until * 1000\<rparr> (recording_leases d)\<rparr>)")
    case (Inl e)
    with run ok uniq \<open>fst _ = Inr l\<close> show ?thesis by (simp del: exists_row_iff)
  next
    case (Inr d2)
    have "rl_id l = lr_issued q \<or> (\<exists>now_ms. t = Some now_ms \<and> rl_expires l div 1000 \<le> now_ms)"
      if "lookup_row rl_account a (recording_leases d) = Some l" for l
      using ok that by (cases t) (auto simp: not_less)
    moreover have "\<forall>l\<in>set (recording_leases d). rl_id l = lr_issued q \<longrightarrow> rl_account l = a" using uniq by auto
    moreover have "complete_recording_lease j now a r t s d = (Inr (lr_issued q, format_epoch_millis until),
         d2\<lparr>lease_requests := delete_rows (\<lambda>r. lr_state r \<noteq> LPending \<and> lr_created r < now - week) (lease_requests d2)\<rparr>)"
      using run ok uniq Inr by (simp del: exists_row_iff)
    ultimately show ?thesis by (intro granted [OF q(2,1) until_def _ _ Inr])
  qed
qed

lemma settle_batches_frame:
  assumes "settle_reference_batches now a d = Inr d1"
  shows "\<exists>t. d1 = d\<lparr>batch_receipts := t\<rparr>"
proof -
  let ?P = "\<lambda>r. bt_account r = a \<and> bt_state r = Reserved \<and> \<not> list_ex (is_reserved a d) (bt_events r)"
  show ?thesis
  proof (cases "update_batches ?P now Completed d")
    case (Inl e)
    with assms show ?thesis by (simp add: settle_reference_batches_def)
  next
    case (Inr d2)
    obtain t where d2: "d2 = d\<lparr>batch_receipts := t\<rparr>" using update_batches_frame [OF Inr] by blast
    with assms Inr show ?thesis by (auto simp: settle_reference_batches_def)
  qed
qed

text \<open>Completions give reservations back to nobody: they only remove them.\<close>

lemma complete_delivery_frame:
  "\<exists>P t. snd (complete_recording_delivery now a e d) =
     d\<lparr>delivery_reservations := delete_rows P (delivery_reservations d), batch_receipts := t\<rparr>"
proof -
  let ?P = "\<lambda>r. rv_account r = a \<and> rv_event r = e"
  let ?d = "d\<lparr>delivery_reservations := delete_rows ?P (delivery_reservations d)\<rparr>"
  show ?thesis
  proof (cases "settle_reference_batches now a ?d")
    case (Inl err)
    then have "snd (complete_recording_delivery now a e d) =
        d\<lparr>delivery_reservations := delete_rows (\<lambda>_. False) (delivery_reservations d), batch_receipts := batch_receipts d\<rparr>"
      by (simp add: complete_recording_delivery_def delete_rows_def)
    then show ?thesis by blast
  next
    case (Inr d1)
    then obtain t where "d1 = ?d\<lparr>batch_receipts := t\<rparr>" using settle_batches_frame by blast
    with Inr have "snd (complete_recording_delivery now a e d) =
        d\<lparr>delivery_reservations := delete_rows ?P (delivery_reservations d), batch_receipts := t\<rparr>"
      by (simp add: complete_recording_delivery_def)
    then show ?thesis by blast
  qed
qed

lemma complete_batch_frame:
  "\<exists>P t. snd (complete_recording_delivery_batch now a b g es d) =
     d\<lparr>delivery_reservations := delete_rows P (delivery_reservations d), batch_receipts := t\<rparr>"
proof (cases "fst (complete_recording_delivery_batch now a b g es d)")
  case (Inl err)
  then have "snd (complete_recording_delivery_batch now a b g es d) =
      d\<lparr>delivery_reservations := delete_rows (\<lambda>_. False) (delivery_reservations d), batch_receipts := batch_receipts d\<rparr>"
    by (auto simp: complete_recording_delivery_batch_def delete_rows_def Let_def split: option.splits sum.splits if_splits)
  then show ?thesis by blast
next
  case (Inr u)
  let ?P = "\<lambda>r. rv_account r = a \<and> List.member es (rv_event r)"
  let ?d = "d\<lparr>delivery_reservations := delete_rows ?P (delivery_reservations d)\<rparr>"
  from Inr obtain d2 d3 where d23: "update_batches (\<lambda>r. batch_key r = (a, b)) now Completed ?d = Inr d2"
    "settle_reference_batches now a d2 = Inr d3" "snd (complete_recording_delivery_batch now a b g es d) = d3"
    by (auto simp: complete_recording_delivery_batch_def Let_def split: option.splits sum.splits if_splits)
  obtain t2 where "d2 = ?d\<lparr>batch_receipts := t2\<rparr>" using update_batches_frame [OF d23(1)] by blast
  moreover obtain t where "d3 = d2\<lparr>batch_receipts := t\<rparr>" using settle_batches_frame [OF d23(2)] by blast
  ultimately have "snd (complete_recording_delivery_batch now a b g es d) =
      d\<lparr>delivery_reservations := delete_rows ?P (delivery_reservations d), batch_receipts := t\<rparr>" using d23(3) by simp
  then show ?thesis by blast
qed

text \<open>Which tables a transaction writes.\<close>

lemma billing_effect:
  obtains (records) ba bo lr ld where "billing_step j x d =
      d\<lparr>billing_accounts := ba, billing_detach_outbox := bo, lease_requests := lr, lease_denials := ld\<rparr>"
      "lr = lease_requests d \<or> (\<exists>now a r l i e. x = BeginLease now a r l i e) \<or> (\<exists>now a r c s. x = DenyLease now a r c s)
       \<or> (\<exists>a r. x = ConflictLease a r)"
  | (released) P t where "billing_step j x d =
      d\<lparr>delivery_reservations := delete_rows P (delivery_reservations d), batch_receipts := t\<rparr>"
  | (reserved) bl rs t where "billing_step j x d = d\<lparr>delivery_balances := bl, delivery_reservations := rs, batch_receipts := t\<rparr>"
      "(\<exists>b e m. x = ReserveDelivery b e m) \<or> (\<exists>now q. x = ReserveBatch now q)"
  | (offline) a r bl where "x = CompleteOffline a r" "fst (complete_offline_recording_usage a r d) = Inr True"
      "(a, r) \<notin> set (offline_receipts d)"
      "billing_step j x d = d\<lparr>delivery_balances := bl, offline_receipts := offline_receipts d @ [(a, r)]\<rparr>"
  | (leased) now a r t s bl rl lr where "x = CompleteLease now a r t s"
      "billing_step j x d = d\<lparr>delivery_balances := bl, recording_leases := rl, lease_requests := lr\<rparr>"
proof (cases x)
  case (CompleteBatch now a b g es)
  obtain P t where "snd (complete_recording_delivery_batch now a b g es d) =
      d\<lparr>delivery_reservations := delete_rows P (delivery_reservations d), batch_receipts := t\<rparr>"
    using complete_batch_frame by blast
  then show ?thesis by (intro released) (simp add: CompleteBatch)
next
  case (CompleteDelivery now a e)
  obtain P t where "snd (complete_recording_delivery now a e d) =
      d\<lparr>delivery_reservations := delete_rows P (delivery_reservations d), batch_receipts := t\<rparr>"
    using complete_delivery_frame by blast
  then show ?thesis by (intro released) (simp add: CompleteDelivery)
next
  case (ReserveDelivery a e m)
  show ?thesis
  proof (cases rule: reserve_delivery_cases [of a e m d])
    case kept
    then show ?thesis
      by (intro records [where ba = "billing_accounts d" and bo = "billing_detach_outbox d" and lr = "lease_requests d" and ld = "lease_denials d"])
        (simp_all add: ReserveDelivery)
  next
    case (charged b ec bc)
    then show ?thesis by (intro reserved [where t = "batch_receipts d"]) (simp_all add: ReserveDelivery charge_def)
  qed
next
  case (ReserveBatch now q)
  show ?thesis
  proof (cases rule: reserve_batch_cases [of now q d])
    case (kept t)
    then show ?thesis
      by (intro reserved [where bl = "delivery_balances d" and rs = "delivery_reservations d" and t = t]) (simp_all add: ReserveBatch)
  next
    case (charged b es t)
    then show ?thesis by (intro reserved) (simp_all add: ReserveBatch charge_def reserve_events_def)
  qed
next
  case (CompleteOffline a r)
  show ?thesis
  proof (cases rule: offline_cases [of a r d])
    case kept
    then show ?thesis
      by (intro records [where ba = "billing_accounts d" and bo = "billing_detach_outbox d" and lr = "lease_requests d" and ld = "lease_denials d"])
        (simp_all add: CompleteOffline)
  next
    case (granted d1)
    obtain bl where "d1 = d\<lparr>offline_receipts := offline_receipts d @ [(a, r)], delivery_balances := bl\<rparr>"
      using grant_effect(1) [OF granted(2)] by auto
    with granted show ?thesis by (intro offline [where a = a and r = r and bl = bl]) (simp_all add: CompleteOffline)
  qed
next
  case (CompleteLease now a r t s)
  show ?thesis
  proof (cases rule: complete_lease_cases [of j now a r t s d])
    case (kept e)
    then show ?thesis
      by (intro records [where ba = "billing_accounts d" and bo = "billing_detach_outbox d" and lr = "lease_requests d" and ld = "lease_denials d"])
        (simp_all add: CompleteLease)
  next
    case (granted q stored until d2)
    obtain lr rl bl where d2: "d2 = d\<lparr>lease_requests := lr, recording_leases := rl, delivery_balances := bl\<rparr>"
      using grant_effect(1) [OF granted(6)] by auto
    show ?thesis by (rule leased [OF CompleteLease, where bl = bl and rl = rl
        and lr = "delete_rows (\<lambda>r. lr_state r \<noteq> LPending \<and> lr_created r < now - week) lr"]) (simp add: CompleteLease granted(7) d2)
  qed
next
  case (ProvisionBilling r a)
  have "\<exists>ba. billing_step j x d = d\<lparr>billing_accounts := ba\<rparr>"
    by (auto simp: ProvisionBilling billing_account_id_def provision_billing_def exI [of _ "billing_accounts d"] split: option.split)
  then obtain ba where "billing_step j x d = d\<lparr>billing_accounts := ba\<rparr>" ..
  then show ?thesis by (intro records [where ba = ba and bo = "billing_detach_outbox d" and lr = "lease_requests d" and ld = "lease_denials d"]) simp_all
next
  case (ProvisionForDeletion r a)
  have "\<exists>ba. billing_step j x d = d\<lparr>billing_accounts := ba\<rparr>"
  proof (cases "billing_account_id_for_deletion r a d")
    case (Pair res d1)
    then have "d1 = d \<or> (\<exists>ba. d1 = d\<lparr>billing_accounts := ba\<rparr>)"
      by (auto simp: billing_account_id_for_deletion_def provision_billing_def split: option.splits if_splits prod.splits)
    moreover have "d = d\<lparr>billing_accounts := billing_accounts d\<rparr>" by simp
    ultimately have "\<exists>ba. d1 = d\<lparr>billing_accounts := ba\<rparr>" by blast
    with Pair show ?thesis by (simp add: ProvisionForDeletion)
  qed
  then obtain ba where "billing_step j x d = d\<lparr>billing_accounts := ba\<rparr>" ..
  then show ?thesis by (intro records [where ba = ba and bo = "billing_detach_outbox d" and lr = "lease_requests d" and ld = "lease_denials d"]) simp_all
next
  case (BeginLease now a r l i e)
  have "\<exists>lr. billing_step j x d = d\<lparr>lease_requests := lr\<rparr>"
    by (auto simp: BeginLease begin_recording_lease_request_def exI [of _ "lease_requests d"] split: option.split sum.split)
  then obtain lr where "billing_step j x d = d\<lparr>lease_requests := lr\<rparr>" ..
  then show ?thesis by (intro records [where ba = "billing_accounts d" and bo = "billing_detach_outbox d" and lr = lr and ld = "lease_denials d"]) (simp_all add: BeginLease)
next
  case (DenyLease now a r c s)
  have "\<exists>lr ld. billing_step j x d = d\<lparr>lease_requests := lr, lease_denials := ld\<rparr>"
  proof (cases "deny_recording_lease_request j now a r c s d")
    case (Pair res d1)
    then have "d1 = d \<or> (\<exists>lr ld. d1 = d\<lparr>lease_requests := lr, lease_denials := ld\<rparr>)"
      by (auto simp: deny_recording_lease_request_def split: sum.splits option.splits)
    moreover have "d = d\<lparr>lease_requests := lease_requests d, lease_denials := lease_denials d\<rparr>" by simp
    ultimately have "\<exists>lr ld. d1 = d\<lparr>lease_requests := lr, lease_denials := ld\<rparr>" by blast
    with Pair show ?thesis by (simp add: DenyLease)
  qed
  then obtain lr ld where "billing_step j x d = d\<lparr>lease_requests := lr, lease_denials := ld\<rparr>" by blast
  then show ?thesis
    by (intro records [where ba = "billing_accounts d" and bo = "billing_detach_outbox d" and lr = lr and ld = ld]) (simp_all add: DenyLease)
next
  case (CompleteDetach b)
  then show ?thesis by (intro records [where ba = "billing_accounts d" and lr = "lease_requests d" and ld = "lease_denials d"]) (simp_all add: complete_billing_detach_def)
next
  case (FailDetach now b)
  then show ?thesis by (intro records [where ba = "billing_accounts d" and lr = "lease_requests d" and ld = "lease_denials d"]) (simp_all add: record_billing_detach_failure_def)
next
  case (ConflictLease a r)
  then show ?thesis by (intro records [where ba = "billing_accounts d" and bo = "billing_detach_outbox d" and ld = "lease_denials d"]) (simp_all add: conflict_recording_lease_request_def)
qed

lemma granted_frame:
  assumes "grant_recording_delivery_minute a d = Inr d1"
  shows "delivery_reservations d1 = delivery_reservations d" "offline_receipts d1 = offline_receipts d"
    "lease_requests d1 = lease_requests d" "recording_leases d1 = recording_leases d"
proof -
  obtain t where "d1 = d\<lparr>delivery_balances := t\<rparr>" using grant_effect(1) [OF assms] by blast
  then show "delivery_reservations d1 = delivery_reservations d" "offline_receipts d1 = offline_receipts d"
    "lease_requests d1 = lease_requests d" "recording_leases d1 = recording_leases d" by simp_all
qed

lemma granted_credits:
  assumes "grant_recording_delivery_minute a d0 = Inr d1" "delivery_balances d0 = delivery_balances d"
    "delivery_reservations d0 = delivery_reservations d" "delivery_balances d' = delivery_balances d1"
    "delivery_reservations d' = delivery_reservations d" "credits_ok d"
  shows "credits_ok d' \<and> events_of b d' = events_of b d + (if b = a then RECORDING_DELIVERY_EVENTS_PER_MINUTE else 0)"
proof -
  have "credits_ok d0" using assms(2,3,6) by (simp add: credits_ok_def)
  then have "credits_ok d1" by (rule grant_effect(4) [OF assms(1)])
  moreover have "events_of b d1 = events_of b d + (if b = a then RECORDING_DELIVERY_EVENTS_PER_MINUTE else 0)"
    using grant_effect(2) [OF assms(1), of b] assms(2) by (simp add: events_of_def)
  ultimately show ?thesis using assms(3,4,5) granted_frame(1) [OF assms(1)] by (simp add: credits_ok_def events_of_def)
qed

lemma other_step:
  assumes "credits_ok d" "\<And>b r. x \<noteq> CompleteOffline b r" "\<And>now b r t s. x \<noteq> CompleteLease now b r t s"
    "\<And>b e m. x \<noteq> ReserveDelivery b e m" "\<And>now q. x \<noteq> ReserveBatch now q"
  shows "credits_ok (billing_step j x d) \<and> events_of a (billing_step j x d) = events_of a d"
proof (cases rule: billing_effect [of j x d])
  case (records ba bo lr ld)
  with assms(1) show ?thesis by (simp add: credits_ok_def events_of_def)
next
  case (released P t)
  with assms(1) show ?thesis by (auto simp: credits_ok_def events_of_def list_all_iff)
qed (use assms in auto)

lemma credits_step:
  assumes ok: "credits_ok d"
  shows "credits_ok (billing_step j x d)
    \<and> events_of a (billing_step j x d) = events_of a d
        + (if grants_minute j a x d then RECORDING_DELIVERY_EVENTS_PER_MINUTE else 0) - newly_reserved j a x d
    \<and> 0 \<le> newly_reserved j a x d"
proof (cases x)
  case (ReserveDelivery b e m)
  then show ?thesis using reserve_delivery_credits [OF ok, where b = b and e = e and m = m] by simp
next
  case (ReserveBatch now q)
  then show ?thesis using reserve_batch_credits [OF ok, where now = now and q = q] by simp
next
  case (CompleteOffline b r)
  show ?thesis
  proof (cases rule: offline_cases [of b r d])
    case kept
    with ok show ?thesis by (simp add: CompleteOffline)
  next
    case (granted d1)
    from granted_credits [OF granted(2), of d d1 a] granted_frame(1) [OF granted(2)] ok show ?thesis
      by (simp add: CompleteOffline granted(3))
  qed
next
  case (CompleteLease now b r t s)
  show ?thesis
  proof (cases rule: complete_lease_cases [of j now b r t s d])
    case (kept e)
    with ok show ?thesis by (simp add: CompleteLease)
  next
    case (granted q stored until d2)
    from granted_credits [OF granted(6), of d "snd (complete_recording_lease j now b r t s d)" a]
      granted_frame(1) [OF granted(6)] ok show ?thesis
      by (simp add: CompleteLease granted(7))
  qed
qed (use other_step [OF ok, of x j a] in simp_all)

interpretation credits: metered "billing_step j" credits_ok "\<lambda>d. - events_of a d"
  "\<lambda>x d. newly_reserved j a x d - (if grants_minute j a x d then RECORDING_DELIVERY_EVENTS_PER_MINUTE else 0)" "\<lambda>_. True" 0
  for j a
proof
  fix d x assume ok: "credits_ok d"
  from credits_step [OF ok, of j x a] show "credits_ok (billing_step j x d)"
    "- events_of a (billing_step j x d) = - events_of a d + (newly_reserved j a x d
       - (if grants_minute j a x d then RECORDING_DELIVERY_EVENTS_PER_MINUTE else 0))" by simp_all
  from credits_step [OF ok, of j x a] credits_nonneg [of "billing_step j x d" a]
  show "- events_of a d + (newly_reserved j a x d - (if grants_minute j a x d then RECORDING_DELIVERY_EVENTS_PER_MINUTE else 0)) \<le> 0"
    by simp
qed

lemma spent_split:
  "spent step (\<lambda>x s. f x s - (if h x s then c else 0)) xs s = spent step f xs s - c * int (hits step h xs s)"
  by (induction xs arbitrary: s) (auto simp: algebra_simps)

text \<open>C4. Delivery credits balance: over every history of billing transactions the event credits of an
  account are what it had, plus 120 for every minute that was granted, minus one for every event newly
  reserved; so no more events are reserved than were paid for, and no balance is ever negative.\<close>

theorem event_credits_conserved:
  assumes "credits_ok d"
  shows "events_of a (run_ops (billing_step j) ops d) = events_of a d + 120 * int (hits (billing_step j) (grants_minute j a) ops d)
        - spent (billing_step j) (newly_reserved j a) ops d
    \<and> spent (billing_step j) (newly_reserved j a) ops d \<le> events_of a d + 120 * int (hits (billing_step j) (grants_minute j a) ops d)
    \<and> credits_ok (run_ops (billing_step j) ops d)"
proof -
  have all: "list_all (\<lambda>_. True) ops" by (simp add: list_all_iff)
  note run = credits.spent_run [OF assms all, of j a, unfolded spent_split RECORDING_DELIVERY_EVENTS_PER_MINUTE_def]
  with credits_nonneg [of "run_ops (billing_step j) ops d" a] show ?thesis by auto
qed

definition sample_json :: "string json" where
  "sample_json = \<lparr>js_to = Inr, js_from = Inr\<rparr>"

lemma quota_credits_ok: "credits_ok quota_db"
  by (simp add: quota_db_def empty_db_def credits_ok_def)

theorem event_credits_conserved_witness:
  "events_of ''a'' (run_ops (billing_step sample_json) [CompleteOffline ''a'' ''r'', ReserveDelivery ''a'' ''e'' 10,
     CompleteOffline ''a'' ''r''] quota_db) = 119"
proof -
  let ?ops = "[CompleteOffline ''a'' ''r'', ReserveDelivery ''a'' ''e'' 10, CompleteOffline ''a'' ''r'']"
  have "spent (billing_step sample_json) (newly_reserved sample_json ''a'') ?ops quota_db = 1" by code_simp
  moreover have "hits (billing_step sample_json) (grants_minute sample_json ''a'') ?ops quota_db = 1" by code_simp
  moreover have "events_of ''a'' quota_db = 0" by (simp add: events_of_def quota_db_def empty_db_def lookup_row_def)
  ultimately show ?thesis using event_credits_conserved [OF quota_credits_ok, of "''a''" sample_json ?ops] by simp
qed

section \<open>Nothing outside billing is touched\<close>

text \<open>The database with the tables of billing blanked out.\<close>

definition non_billing :: "db \<Rightarrow> db" where
  "non_billing d = d\<lparr>billing_accounts := [], billing_detach_outbox := [], recording_leases := [], lease_requests := [],
     lease_denials := [], delivery_balances := [], delivery_reservations := [], offline_receipts := [], batch_receipts := []\<rparr>"

lemma non_billing_simps [simp]:
  "non_billing (d\<lparr>billing_accounts := ba\<rparr>) = non_billing d" "non_billing (d\<lparr>billing_detach_outbox := bo\<rparr>) = non_billing d"
  "non_billing (d\<lparr>recording_leases := rl\<rparr>) = non_billing d" "non_billing (d\<lparr>lease_requests := lr\<rparr>) = non_billing d"
  "non_billing (d\<lparr>lease_denials := ld\<rparr>) = non_billing d" "non_billing (d\<lparr>delivery_balances := bl\<rparr>) = non_billing d"
  "non_billing (d\<lparr>delivery_reservations := dr\<rparr>) = non_billing d" "non_billing (d\<lparr>offline_receipts := ro\<rparr>) = non_billing d"
  "non_billing (d\<lparr>batch_receipts := bt\<rparr>) = non_billing d"
  by (simp_all add: non_billing_def)

lemma non_billing_step: "non_billing (billing_step j x d) = non_billing d"
  by (cases rule: billing_effect [of j x d]) simp_all

section \<open>A minute is granted once\<close>

definition has_receipt :: "string \<times> string \<Rightarrow> db \<Rightarrow> bool" where
  "has_receipt k d \<longleftrightarrow> k \<in> set (offline_receipts d)"

fun grants_offline :: "string \<times> string \<Rightarrow> 'j billing_op \<Rightarrow> db \<Rightarrow> bool" where
  "grants_offline k (CompleteOffline a r) d \<longleftrightarrow> k = (a, r) \<and> fst (complete_offline_recording_usage a r d) = Inr True"
| "grants_offline k _ d \<longleftrightarrow> False"

interpretation offline_usage: grant_ledger "billing_step j" "\<lambda>_. True" has_receipt grants_offline
  for j
proof
  fix k d and x :: "'a billing_op"
  show "\<not> has_receipt k d" if "grants_offline k x d"
    using that by (cases rule: billing_effect [of j x d]; cases x)
      (auto simp: has_receipt_def complete_offline_recording_usage_def)
  show "has_receipt k (billing_step j x d)" if "grants_offline k x d"
  proof -
    from that obtain a r where x: "x = CompleteOffline a r" "k = (a, r)" "fst (complete_offline_recording_usage a r d) = Inr True"
      by (cases x) auto
    show ?thesis
    proof (cases rule: offline_cases [of a r d])
      case (granted d1)
      then show ?thesis using granted_frame(2) [OF granted(2)] by (simp add: x has_receipt_def)
    qed (use x in simp)
  qed
  show "has_receipt k (billing_step j x d)" if "has_receipt k d"
    using that by (cases rule: billing_effect [of j x d]) (simp_all add: has_receipt_def)
qed simp

definition awaiting_lease :: "string \<times> string \<Rightarrow> db \<Rightarrow> bool" where
  "awaiting_lease k d \<longleftrightarrow> exists_row (pending_request (fst k) (snd k)) (lease_requests d)"

fun grants_lease :: "'j json \<Rightarrow> string \<times> string \<Rightarrow> 'j billing_op \<Rightarrow> db \<Rightarrow> bool" where
  "grants_lease j k (CompleteLease now a r t s) d \<longleftrightarrow>
     k = (a, r) \<and> (case fst (complete_recording_lease j now a r t s d) of Inl _ \<Rightarrow> False | Inr _ \<Rightarrow> True)"
| "grants_lease j k _ d \<longleftrightarrow> False"

fun begins_lease :: "string \<times> string \<Rightarrow> 'j billing_op \<Rightarrow> bool" where
  "begins_lease k (BeginLease now a r l i e) \<longleftrightarrow> k = (a, r)"
| "begins_lease k _ \<longleftrightarrow> False"

text \<open>Only \<open>begin\<close> makes a request pending.\<close>

lemma pending_step:
  assumes "awaiting_lease k (billing_step j x d)" "\<not> awaiting_lease k d"
  shows "begins_lease k x"
proof (cases rule: billing_effect [of j x d])
  case (records ba bo lr ld)
  from records(2) show ?thesis
  proof (elim disjE exE)
    fix now a r l i e assume x: "x = BeginLease now a r l i e"
    with assms show ?thesis
      by (cases k) (auto simp: awaiting_lease_def begin_recording_lease_request_def insert_row_Some pending_request_def request_key_def
          split: sum.splits option.splits if_splits)
  next
    fix now a r c s assume x: "x = DenyLease now a r c s"
    with assms show ?thesis
      by (auto simp: awaiting_lease_def deny_recording_lease_request_def split: sum.splits option.splits)
  next
    fix a r assume x: "x = ConflictLease a r"
    with assms show ?thesis
      by (auto simp: awaiting_lease_def conflict_recording_lease_request_def set_update_rows pending_request_def request_key_def)
  qed (use assms records in \<open>simp add: awaiting_lease_def\<close>)
next
  case (leased now a r t s bl rl lr)
  show ?thesis
  proof (cases rule: complete_lease_cases [of j now a r t s d])
    case (granted q stored until d2)
    with assms show ?thesis using granted_frame(3) [OF granted(6)]
      by (auto simp: leased(1) awaiting_lease_def set_update_rows pending_request_def request_key_def)
  qed (use assms leased(1) in simp)
qed (use assms in \<open>simp_all add: awaiting_lease_def\<close>)

interpretation lease_minutes: one_shot "billing_step j" "\<lambda>_. True" awaiting_lease "grants_lease j" begins_lease
  for j
proof
  fix k d and x :: "'a billing_op"
  show "awaiting_lease k d" if "grants_lease j k x d"
  proof -
    from that obtain now a r t s where x: "x = CompleteLease now a r t s" "k = (a, r)" by (cases x) auto
    from that show ?thesis using find_Some_match [of "pending_request a r" "lease_requests d"]
      by (cases rule: complete_lease_cases [of j now a r t s d]) (auto simp: x awaiting_lease_def)
  qed
  show "\<not> awaiting_lease k (billing_step j x d)" if "grants_lease j k x d"
  proof -
    from that obtain now a r t s where x: "x = CompleteLease now a r t s" "k = (a, r)" by (cases x) auto
    show ?thesis
    proof (cases rule: complete_lease_cases [of j now a r t s d])
      case (granted q stored until d2)
      then show ?thesis using granted_frame(3) [OF granted(6)]
        by (auto simp: x awaiting_lease_def set_update_rows pending_request_def)
    qed (use that x in simp)
  qed
  show "begins_lease k x" if "awaiting_lease k (billing_step j x d)" "\<not> awaiting_lease k d"
    using pending_step that .
qed simp



end
