(* ===== verification/Billing_Leases.thy ===== *)
theory Billing_Leases
  imports Billing_Credits
begin

text \<open>
  What a billing request guarantees to its caller: a lease that is completed never shortens the one it
  extends, a reference batch that was reserved is replayed for nothing, and what a retried reservation
  does to the byte credits.
\<close>

section \<open>Leases\<close>

lemma lookup_upsert_const:
  assumes "key r = a"
  shows "lookup_row key b (upsert_row key (\<lambda>_. r) r t) = (if b = a then Some r else lookup_row key b t)"
proof (cases "lookup_row key a t")
  case None
  then have "a \<notin> key ` set t" by (simp add: lookup_row_None)
  with None assms show ?thesis by (auto simp: upsert_row_def lookup_row_append split: option.split)
next
  case (Some q)
  then have "a \<in> key ` set t" by (auto dest: lookup_row_Some)
  then have "upsert_row key (\<lambda>_. r) r t = update_rows (\<lambda>q. key q = a) (\<lambda>_. r) t" using assms by (simp add: upsert_row_def)
  then have "lookup_row key b (upsert_row key (\<lambda>_. r) r t) = map_option (\<lambda>q. if key q = a then r else q) (lookup_row key b t)"
    using lookup_row_update [of "\<lambda>q. key q = a" key "\<lambda>_. r" b t] assms by simp
  then show ?thesis using Some by (cases "lookup_row key b t") (auto dest: lookup_row_key)
qed

lemma saturate_le: "x \<le> i64_max \<Longrightarrow> x \<le> saturate x" "x \<le> i64_max \<Longrightarrow> 0 \<le> n \<Longrightarrow> x \<le> saturate (x + n)"
  "min i64_max x \<le> saturate x" "x \<le> y \<Longrightarrow> saturate x \<le> saturate y"
  by (auto simp: saturate_def i64_max_def i64_min_def)

lemma granted_until_bounds:
  assumes "\<And>t. act = Some t \<Longrightarrow> is_i64 t"
  shows "pend \<le> granted_until retry pend act" "act = Some t \<Longrightarrow> t \<le> granted_until retry pend act"
    "retry = Some n \<Longrightarrow> min i64_max (n + 60000) \<le> granted_until retry pend act"
proof -
  show "pend \<le> granted_until retry pend act" by (cases retry) (simp_all add: granted_until_def)
  show "t \<le> granted_until retry pend act" if "act = Some t"
  proof (cases retry)
    case (Some n)
    have "t \<le> saturate (t + RECORDING_LEASE_DURATION_MS)"
      using saturate_le(2) [of t] assms [OF that] by (simp add: is_i64_def RECORDING_LEASE_DURATION_MS_def)
    also have "\<dots> \<le> saturate (max n t + RECORDING_LEASE_DURATION_MS)" by (intro saturate_le) simp
    finally show ?thesis using that Some by (simp add: granted_until_def saturating_add_def le_max_iff_disj)
  qed (use that in \<open>simp add: granted_until_def\<close>)
  show "min i64_max (n + 60000) \<le> granted_until retry pend act" if "retry = Some n"
  proof -
    have "min i64_max (n + 60000) \<le> saturate (n + 60000)" by (rule saturate_le)
    also have "\<dots> \<le> saturate (max n (case act of None \<Rightarrow> i64_min | Some t \<Rightarrow> t) + 60000)" by (intro saturate_le) simp
    finally show ?thesis using that
      by (simp add: granted_until_def saturating_add_def RECORDING_LEASE_DURATION_MS_def le_max_iff_disj)
  qed
qed

text \<open>C16. A completed lease request gives the account the lease it issued, until at least the expiry that
  was pending, at least the expiry of the lease that was active, and on a retry at least a minute from
  the retry; a different active lease is replaced only when it has expired; leases of other accounts stay.\<close>

theorem lease_never_shortens:
  assumes "fst (complete_recording_lease j now a r retry s d) = Inr (lease, shown)"
    and "\<And>l. l \<in> set (recording_leases d) \<Longrightarrow> is_i64 (rl_expires l div 1000)"
  shows "\<exists>q until. q \<in> set (lease_requests d) \<and> pending_request a r q \<and> lease = lr_issued q
    \<and> lookup_row rl_account a (recording_leases (snd (complete_recording_lease j now a r retry s d)))
        = Some \<lparr>rl_account = a, rl_id = lease, rl_expires = until * 1000\<rparr>
    \<and> shown = format_epoch_millis until \<and> lr_expires q div 1000 \<le> until
    \<and> (\<forall>n. retry = Some n \<longrightarrow> min i64_max (n + 60000) \<le> until)
    \<and> (\<forall>l. lookup_row rl_account a (recording_leases d) = Some l \<longrightarrow> rl_expires l div 1000 \<le> until
          \<and> (rl_id l = lease \<or> (\<exists>n. retry = Some n \<and> rl_expires l div 1000 \<le> n)))
    \<and> (\<forall>b. b \<noteq> a \<longrightarrow> lookup_row rl_account b (recording_leases (snd (complete_recording_lease j now a r retry s d)))
          = lookup_row rl_account b (recording_leases d))"
proof (cases rule: complete_lease_cases [of j now a r retry s d])
  case (granted q stored until d2)
  let ?active = "map_option (\<lambda>l. rl_expires l div 1000) (lookup_row rl_account a (recording_leases d))"
  let ?lease = "\<lparr>rl_account = a, rl_id = lr_issued q, rl_expires = until * 1000\<rparr>"
  have i64: "is_i64 t" if "?active = Some t" for t using that assms(2) by (auto dest: lookup_row_Some)
  note bounds = granted_until_bounds [where act = ?active, OF i64, where retry = retry and pend = "lr_expires q div 1000", folded granted(3)]
  have leases: "recording_leases (snd (complete_recording_lease j now a r retry s d))
      = upsert_row rl_account (\<lambda>_. ?lease) ?lease (recording_leases d)"
    using granted_frame(4) [OF granted(6)] by (simp add: granted(7))
  have upsert: "lookup_row rl_account b (upsert_row rl_account (\<lambda>_. ?lease) ?lease t)
      = (if b = a then Some ?lease else lookup_row rl_account b t)" for b t
    by (rule lookup_upsert_const) simp
  have "lease = lr_issued q" "shown = format_epoch_millis until" using assms(1) by (simp_all add: granted(7))
  moreover have "q \<in> set (lease_requests d) \<and> pending_request a r q" using find_Some_match [OF granted(1)] .
  moreover have "rl_expires l div 1000 \<le> until \<and> (rl_id l = lr_issued q \<or> (\<exists>n. retry = Some n \<and> rl_expires l div 1000 \<le> n))"
    if "lookup_row rl_account a (recording_leases d) = Some l" for l
    using bounds(2) [where t = "rl_expires l div 1000"] granted(3) granted(4) [OF that] that by simp
  ultimately show ?thesis using bounds(1,3) by (intro exI [of _ q] exI [of _ until]) (simp add: leases upsert)
qed (use assms(1) in simp)

theorem lease_never_shortens_witness:
  "\<exists>until. lookup_row rl_account ''a'' (recording_leases (snd (complete_recording_lease sample_json 9 ''a'' ''r'' (Some 7) ''s''
      (billing_step sample_json (BeginLease 5 ''a'' ''r'' None ''l'' ''2026-01-01T00:00:00.000Z'') quota_db))))
     = Some \<lparr>rl_account = ''a'', rl_id = ''l'', rl_expires = until * 1000\<rparr> \<and> 60007 \<le> until"
proof -
  let ?d = "billing_step sample_json (BeginLease 5 ''a'' ''r'' None ''l'' ''2026-01-01T00:00:00.000Z'') quota_db"
  have "fst (complete_recording_lease sample_json 9 ''a'' ''r'' (Some 7) ''s'' ?d) = Inr (''l'', ''2026-01-01T00:00:00.000Z'')"
    by code_simp
  moreover have "recording_leases ?d = []" by code_simp
  ultimately show ?thesis
    using lease_never_shortens [of sample_json 9 "''a''" "''r''" "Some 7" "''s''" ?d "''l''" "''2026-01-01T00:00:00.000Z''"]
    by (auto simp: i64_max_def)
qed

section \<open>Replayed batches\<close>

lemma update_rows_absent: "\<not> exists_row P t \<Longrightarrow> update_rows P f t = t"
  by (induction t) (auto simp: update_rows_def)

definition batch_in :: "batch_state \<Rightarrow> batch_request \<Rightarrow> db \<Rightarrow> bool" where
  "batch_in st q d \<longleftrightarrow> (\<exists>r. lookup_row batch_key (br_account q, br_batch q) (batch_receipts d) = Some r
     \<and> batch_matches q r \<and> bt_state r = st)"

lemma open_batch_matches:
  assumes "open_batch now q d = Inr (st, d1)" "distinct (map batch_key (batch_receipts d))"
  shows "distinct (map batch_key (batch_receipts d1))" "batch_in st q d1"
proof -
  consider r where "lookup_row batch_key (br_account q, br_batch q) (batch_receipts d) = Some r" "batch_matches q r"
      "d1 = d" "st = bt_state r"
    | "lookup_row batch_key (br_account q, br_batch q) (batch_receipts d) = None" "st = AwaitingCredit"
      "d1 = d\<lparr>batch_receipts := batch_receipts d @ [new_batch now q]\<rparr>"
    using assms(1) by (auto simp: open_batch_def erasure_fenced_def split: option.splits if_splits)
  note cases = this
  have key: "batch_key (new_batch now q) = (br_account q, br_batch q)" "bt_state (new_batch now q) = AwaitingCredit"
    "batch_matches q (new_batch now q)" by (simp_all add: new_batch_def batch_key_def batch_matches_def)
  show "distinct (map batch_key (batch_receipts d1))"
    by (cases rule: cases) (use assms(2) key in \<open>auto simp: lookup_row_None\<close>)
  show "batch_in st q d1" by (cases rule: cases) (use key in \<open>simp_all add: batch_in_def lookup_row_append\<close>)
qed

lemma mark_batch:
  assumes mark: "update_batches (\<lambda>r. batch_key r = (br_account q, br_batch q) \<and> bt_state r \<noteq> Reserved) now Reserved d = Inr d1"
    and "distinct (map batch_key (batch_receipts d))" "batch_in st q d"
  shows "distinct (map batch_key (batch_receipts d1))" "batch_in Reserved q d1"
proof -
  have t: "batch_receipts d1 = update_rows (\<lambda>r. batch_key r = (br_account q, br_batch q) \<and> bt_state r \<noteq> Reserved)
      (\<lambda>r. r\<lparr>bt_state := Reserved, bt_updated := now\<rparr>) (batch_receipts d)"
    using mark by (auto simp: update_batches_def erasure_fenced_def split: if_splits)
  show "distinct (map batch_key (batch_receipts d1))" using assms(2) by (simp add: t map_update_rows batch_key_def)
  from assms(3) obtain r where r: "lookup_row batch_key (br_account q, br_batch q) (batch_receipts d) = Some r" "batch_matches q r"
    by (auto simp: batch_in_def)
  have "lookup_row batch_key (br_account q, br_batch q) (batch_receipts d1)
      = Some (if bt_state r \<noteq> Reserved then r\<lparr>bt_state := Reserved, bt_updated := now\<rparr> else r)"
    using lookup_row_key [OF r(1)] by (simp add: t lookup_row_update r(1) batch_key_def)
  with r(2) show "batch_in Reserved q d1" by (simp add: batch_in_def batch_matches_def)
qed

text \<open>A reserved batch all of whose new events hold reservations.\<close>

lemma replay_reserved:
  assumes "batch_valid q" "distinct (map batch_key (batch_receipts d))" "batch_in Reserved q d"
    "\<forall>e\<in>set (br_new q). is_reserved (br_account q) d e"
  shows "reserve_recording_delivery_batch now q d = (Inr True, d)"
proof -
  from assms(3) obtain r where r: "lookup_row batch_key (br_account q, br_batch q) (batch_receipts d) = Some r"
    "batch_matches q r" "bt_state r = Reserved" by (auto simp: batch_in_def)
  have one: "p = r" if "p \<in> set (batch_receipts d)" "batch_key p = (br_account q, br_batch q)" for p
    using key_unique [OF assms(2) that(1)] lookup_row_Some [OF r(1)] that(2) by simp
  let ?P = "\<lambda>p. batch_key p = (br_account q, br_batch q) \<and> bt_state p \<noteq> Reserved"
  have none: "\<not> exists_row ?P (batch_receipts d)" using one r(3) by auto
  then have guard: "\<not> exists_row (\<lambda>p. ?P p \<and> \<not> erasure_guard (bt_account p) None (Some (bt_stream p)) d) (batch_receipts d)" by auto
  have "update_batches ?P now Reserved d = Inr d"
    using guard update_rows_absent [OF none] by (simp add: update_batches_def del: exists_row_iff)
  moreover have "filter (\<lambda>e. \<not> is_reserved (br_account q) d e) (br_new q) = []" using assms(4) by (simp add: filter_empty_conv)
  moreover have "open_batch now q d = Inr (Reserved, d)" using r by (simp add: open_batch_def)
  ultimately show ?thesis using assms(1) by (simp add: reserve_recording_delivery_batch_def)
qed

lemma replay_completed:
  assumes "batch_valid q" "batch_in Completed q d" "br_new q = []"
  shows "reserve_recording_delivery_batch now q d = (Inr True, d)"
proof -
  have "open_batch now q d = Inr (Completed, d)" using assms(2) by (auto simp: batch_in_def open_batch_def)
  then show ?thesis using assms by (simp add: reserve_recording_delivery_batch_def)
qed

lemma is_reserved_frame:
  "delivery_reservations d' = delivery_reservations d \<Longrightarrow> is_reserved a d' e = is_reserved a d e"
  by (simp add: is_reserved_def)

lemma reserved_after: "is_reserved a (reserve_events a es d) e \<longleftrightarrow> is_reserved a d e \<or> e \<in> set es"
  by (simp add: is_reserved_def reserve_events_def bex_Un)

text \<open>What a reservation that succeeds on an open batch did.\<close>

lemma reserve_batch_paid:
  assumes valid: "batch_valid q" and "open_batch now q d = Inr (st, d1)" and st: "st \<noteq> Completed"
    and ok: "fst (reserve_recording_delivery_batch now q d) = Inr True"
  obtains d3 where "update_batches (\<lambda>r. batch_key r = (br_account q, br_batch q) \<and> bt_state r \<noteq> Reserved) now Reserved
      (if filter (\<lambda>e. \<not> is_reserved (br_account q) d1 e) (br_new q) = [] then d1
       else reserve_events (br_account q) (filter (\<lambda>e. \<not> is_reserved (br_account q) d1 e) (br_new q))
         (charge (br_account q) (int (length (filter (\<lambda>e. \<not> is_reserved (br_account q) d1 e) (br_new q)))) 0 d1)) = Inr d3"
    "snd (reserve_recording_delivery_batch now q d) = d3"
proof -
  let ?P = "\<lambda>r. batch_key r = (br_account q, br_batch q) \<and> bt_state r \<noteq> Reserved"
  define es where "es = filter (\<lambda>e. \<not> is_reserved (br_account q) d1 e) (br_new q)"
  define paid where "paid = (if es = [] then d1 else reserve_events (br_account q) es (charge (br_account q) (int (length es)) 0 d1))"
  define short where "short \<longleftrightarrow> (case lookup_row ba_account (br_account q) (delivery_balances d1) of
      None \<Rightarrow> True | Some b \<Rightarrow> ba_events b < int (length es))"
  note run = reserve_recording_delivery_batch_def [of now q d, unfolded assms(2) Let_def sum.case prod.case, folded es_def, folded short_def]
  have done_or: "es = [] \<or> \<not> short \<and> list_all (\<lambda>e. erasure_guard (br_account q) (Some e) None d1) es"
    using ok st valid by (auto simp: run erasure_fenced_def split: if_splits)
  have marked: "reserve_recording_delivery_batch now q d = (case update_batches ?P now Reserved paid of
      Inl e \<Rightarrow> (Inl e, d) | Inr d3 \<Rightarrow> (Inr True, d3))"
    using done_or st valid by (cases "es = []") (simp_all add: run paid_def)
  show ?thesis
  proof (cases "update_batches ?P now Reserved paid")
    case (Inl e)
    with marked ok show ?thesis by simp
  next
    case (Inr d3)
    with marked that [of d3] show ?thesis unfolding paid_def es_def by simp
  qed
qed

lemma paid_reserves:
  assumes "e \<in> set new"
  shows "is_reserved a (if filter (\<lambda>e. \<not> is_reserved a d e) new = [] then d
     else reserve_events a (filter (\<lambda>e. \<not> is_reserved a d e) new) (charge a n 0 d)) e"
proof (cases "filter (\<lambda>e. \<not> is_reserved a d e) new = []")
  case True
  then show ?thesis using assms by (simp add: filter_empty_conv)
next
  case False
  have "is_reserved a (charge a n 0 d) e = is_reserved a d e" by (rule is_reserved_frame) (simp add: charge_def)
  then show ?thesis using assms False by (auto simp: reserved_after)
qed

text \<open>C17. A batch reservation that succeeded can be repeated at any later time with the same answer: it charges
  nothing and changes nothing.\<close>

theorem batch_replay_free:
  assumes ok: "fst (reserve_recording_delivery_batch now q d) = Inr True"
    and dist: "distinct (map batch_key (batch_receipts d))"
  shows "reserve_recording_delivery_batch later q (snd (reserve_recording_delivery_batch now q d))
    = (Inr True, snd (reserve_recording_delivery_batch now q d))"
proof -
  from ok have valid: "batch_valid q" by (auto simp: reserve_recording_delivery_batch_def split: if_splits)
  from ok valid obtain st d1 where open1: "open_batch now q d = Inr (st, d1)"
    by (auto simp: reserve_recording_delivery_batch_def split: sum.splits)
  note start = open_batch_matches [OF open1 dist]
  let ?P = "\<lambda>r. batch_key r = (br_account q, br_batch q) \<and> bt_state r \<noteq> Reserved"
  let ?es = "filter (\<lambda>e. \<not> is_reserved (br_account q) d1 e) (br_new q)"
  let ?paid = "if ?es = [] then d1 else reserve_events (br_account q) ?es (charge (br_account q) (int (length ?es)) 0 d1)"
  note run = reserve_recording_delivery_batch_def [of now q d, unfolded open1 Let_def sum.case prod.case]
  show ?thesis
  proof (cases "st = Completed")
    case True
    with ok valid run have "br_new q = []" "snd (reserve_recording_delivery_batch now q d) = d1" by (auto split: if_splits)
    then show ?thesis using replay_completed [OF valid] start(2) True by simp
  next
    case False
    then obtain d3 where d3: "update_batches ?P now Reserved ?paid = Inr d3" "snd (reserve_recording_delivery_batch now q d) = d3"
      using ok by (rule reserve_batch_paid [OF valid open1])
    have same: "batch_receipts ?paid = batch_receipts d1" by (simp add: reserve_events_def charge_def)
    have all: "is_reserved (br_account q) ?paid e" if "e \<in> set (br_new q)" for e using that by (rule paid_reserves)
    have marked: "distinct (map batch_key (batch_receipts d3))" "batch_in Reserved q d3"
      using mark_batch [OF d3(1), of st] start same by (simp_all add: batch_in_def)
    obtain t where "d3 = ?paid\<lparr>batch_receipts := t\<rparr>" using update_batches_frame [OF d3(1)] by blast
    then have "delivery_reservations d3 = delivery_reservations ?paid" by simp
    with all have "\<forall>e\<in>set (br_new q). is_reserved (br_account q) d3 e" using is_reserved_frame by blast
    then show ?thesis using replay_reserved [OF valid marked] d3(2) by simp
  qed
qed

definition sample_batch :: batch_request where
  "sample_batch = \<lparr>br_account = ''a'', br_batch = replicate 64 CHR ''0'', br_digest = replicate 64 CHR ''1'', br_stream = ''s'',
     br_first = 0, br_last = 1, br_events = [''e'', ''f''], br_new = [''e'', ''f'']\<rparr>"

theorem batch_replay_free_witness:
  "reserve_recording_delivery_batch 9 sample_batch (snd (reserve_recording_delivery_batch 5 sample_batch
      (billing_step sample_json (CompleteOffline ''a'' ''r'') quota_db)))
   = (Inr True, snd (reserve_recording_delivery_batch 5 sample_batch (billing_step sample_json (CompleteOffline ''a'' ''r'') quota_db)))"
proof -
  let ?d = "billing_step sample_json (CompleteOffline ''a'' ''r'') quota_db"
  have "fst (reserve_recording_delivery_batch 5 sample_batch ?d) = Inr True" by code_simp
  moreover have "batch_receipts ?d = []" by code_simp
  ultimately show ?thesis using batch_replay_free [of 5 sample_batch ?d 9] by simp
qed

section \<open>Retried reservations\<close>

text \<open>C18. Retrying a reservation with fewer bytes than it holds pays byte credits out: the difference is added
  to the balance while the reservation keeps the larger size, so that repeating the call mints credits.\<close>

theorem shrunk_retry_refunds_bytes:
  assumes held: "lookup_row reservation_key (a, e) (delivery_reservations d) = Some r" "is_i64 (rv_bytes r)"
    and shrunk: "0 \<le> m" "m < rv_bytes r"
    and bal: "lookup_row ba_account a (delivery_balances d) = Some b" "0 \<le> ba_events b" "0 \<le> ba_bytes b"
    and fits: "is_i64 (ba_bytes b + (rv_bytes r - m))" and guard: "erasure_guard a (Some e) None d"
  shows "fst (reserve_recording_delivery a e m d) = Inr True
    \<and> bytes_of a (snd (reserve_recording_delivery a e m d)) = bytes_of a d + (rv_bytes r - m)
    \<and> lookup_row reservation_key (a, e) (delivery_reservations (snd (reserve_recording_delivery a e m d))) = Some r"
proof -
  have cost: "saturating_sub m (rv_bytes r) = m - rv_bytes r"
    using shrunk held(2) by (simp add: saturating_sub_def saturate_def is_i64_def i64_max_def i64_min_def)
  have run: "reserve_recording_delivery a e m d = (Inr True,
      (charge a 0 (m - rv_bytes r) d)\<lparr>delivery_reservations :=
         upsert_row reservation_key (\<lambda>r. r\<lparr>rv_bytes := max (rv_bytes r) m\<rparr>)
           \<lparr>rv_account = a, rv_event = e, rv_bytes = m\<rparr> (delivery_reservations d)\<rparr>)"
    using held shrunk bal fits guard by (simp add: reserve_recording_delivery_def cost algebra_simps)
  have "bytes_of a (snd (reserve_recording_delivery a e m d)) = bytes_of a d + (rv_bytes r - m)"
    using bal(1) lookup_row_key [OF bal(1)] by (simp add: run bytes_of_def charge_def lookup_row_update)
  moreover have "lookup_row reservation_key (a, e) (delivery_reservations (snd (reserve_recording_delivery a e m d))) = Some r"
    using held(1) shrunk by (simp add: run lookup_upsert_same reservation_key_def)
  ultimately show ?thesis by (simp add: run)
qed

theorem shrunk_retry_refunds_bytes_witness:
  "\<exists>d. bytes_of ''a'' (snd (reserve_recording_delivery ''a'' ''e'' 3 d)) = bytes_of ''a'' d + 7"
proof -
  let ?r = "\<lparr>rv_account = ''a'', rv_event = ''e'', rv_bytes = 10\<rparr>"
  let ?b = "\<lparr>ba_account = ''a'', ba_events = 4, ba_bytes = 20\<rparr>"
  let ?d = "quota_db\<lparr>delivery_reservations := [?r], delivery_balances := [?b]\<rparr>"
  have "erasure_guard ''a'' (Some ''e'') None ?d" by code_simp
  then show ?thesis using shrunk_retry_refunds_bytes [of "''a''" "''e''" ?d ?r 3 ?b]
    by (intro exI [of _ ?d]) (simp add: lookup_row_def reservation_key_def is_i64_def i64_max_def i64_min_def)
qed

end
