(* ===== verification/System.thy ===== *)
theory System
  imports Fleet Destinations Billing_Credits
begin

text \<open>
  The repositories together: a system history is any interleaving of account, ledger, delivery,
  notification, quota and billing transactions on the database they share. The invariants of the
  components hold together, and closing an account silences it in all of them.
\<close>

datatype 'j system_op =
    FleetOp fleet_op
  | DeliveryOp delivery_op
  | NotificationOp notification_op
  | QuotaOp quota_op
  | BillingOp "'j billing_op"

fun system_step :: "env \<Rightarrow> presenter \<Rightarrow> 'j json \<Rightarrow> 'j system_op \<Rightarrow> db \<Rightarrow> db" where
  "system_step v present j (FleetOp x) d = fleet_step v x d"
| "system_step v present j (DeliveryOp x) d = delivery_step present x d"
| "system_step v present j (NotificationOp x) d = notification_step x d"
| "system_step v present j (QuotaOp x) d = quota_step x d"
| "system_step v present j (BillingOp x) d = billing_step j x d"

section \<open>What the edge components keep of the account tables\<close>

text \<open>The database with the tables of delivery, notification, quota and billing blanked out.\<close>

definition core :: "db \<Rightarrow> db" where
  "core d = (non_billing d)\<lparr>webhook_channel := empty_channel, push_channel := empty_channel, webhook_subscriptions := [],
     push_installations := [], push_generations := 0, usage_daily := [], concurrency_leases := []\<rparr>"

lemma core_cong: "non_billing d' = non_billing d \<Longrightarrow> core d' = core d"
  by (simp add: core_def)

lemma core_simps [simp]:
  "core (d\<lparr>webhook_channel := w\<rparr>) = core d" "core (d\<lparr>push_channel := p\<rparr>) = core d"
  "core (d\<lparr>webhook_subscriptions := s\<rparr>) = core d" "core (d\<lparr>push_installations := i\<rparr>) = core d"
  "core (d\<lparr>push_generations := g\<rparr>) = core d" "core (d\<lparr>usage_daily := u\<rparr>) = core d"
  "core (d\<lparr>concurrency_leases := c\<rparr>) = core d"
  by (simp_all add: core_def non_billing_def)

lemma core_reads:
  "accounts (core d) = accounts d" "deleted_accounts (core d) = deleted_accounts d" "vertex_events (core d) = vertex_events d"
  "schema_ok (core d) = schema_ok d"
  by (simp_all add: core_def non_billing_def schema_ok_def identity_ok_def oauth_ok_def account_ids_def client_ids_def)

lemma core_same:
  assumes "core d' = core d"
  shows "accounts d' = accounts d" "vertex_events d' = vertex_events d" "schema_ok d' = schema_ok d" "life_of a d' = life_of a d"
    "account_active d' a = account_active d a"
proof -
  show acc: "accounts d' = accounts d" and "vertex_events d' = vertex_events d" and "schema_ok d' = schema_ok d"
    using assms core_reads by metis+
  have "deleted_accounts d' = deleted_accounts d" using assms core_reads by metis
  with acc show "life_of a d' = life_of a d" by (rule life_of_cong)
  from acc show "account_active d' a = account_active d a" by (simp add: account_active_def)
qed

lemma core_notification: "core (notification_step x d) = core d"
proof (cases x)
  case (UpsertPush now p)
  have gen: "core d1 = core d" if "registered_generation p d = Some (g, d1)" for g d1
    using that by (cases rule: generation_cases) simp_all
  show ?thesis by (cases rule: upsert_push_cases [of now p d]) (simp_all add: UpsertPush gen)
qed (auto simp: create_webhook_subscription_def disable_webhook_subscription_def delete_webhook_subscription_def
    delete_push_installation_def Let_def split: sum.split option.split)

lemma core_edge:
  "core (delivery_step present y d) = core d" "core (notification_step z d) = core d" "core (quota_step q d) = core d"
  "core (billing_step j b d) = core d"
proof -
  show "core (delivery_step present y d) = core d" by (subst delivery_frame) simp
  show "core (notification_step z d) = core d" by (rule core_notification)
  show "core (quota_step q d) = core d" by (subst quota_frame) simp
  show "core (billing_step j b d) = core d" by (rule core_cong) (rule non_billing_step)
qed

section \<open>What the account transactions do to the edge tables\<close>

record edge =
  eg_webhooks :: "(unit, webhook_request) channel"
  eg_pushes :: "(\<lparr>dl_handoff :: string, dl_collapse :: string\<rparr>, push_generation) channel"
  eg_subscriptions :: "webhook_row list"
  eg_installations :: "push_row list"
  eg_generations :: int
  eg_usage :: "usage_row list"
  eg_leases :: "lease_row list"
  eg_balances :: "balance_row list"
  eg_reservations :: "reservation_row list"

definition edge_of :: "db \<Rightarrow> edge" where
  "edge_of d = \<lparr>eg_webhooks = webhook_channel d, eg_pushes = push_channel d, eg_subscriptions = webhook_subscriptions d,
     eg_installations = push_installations d, eg_generations = push_generations d, eg_usage = usage_daily d,
     eg_leases = concurrency_leases d, eg_balances = delivery_balances d, eg_reservations = delivery_reservations d\<rparr>"

definition edge_ok :: "db \<Rightarrow> bool" where
  "edge_ok d \<longleftrightarrow> deliveries_ok d \<and> registry_ok d \<and> destinations_frozen d \<and> usage_ok d \<and> leases_ok d \<and> credits_ok d"

definition unfenced :: "string \<Rightarrow> db \<Rightarrow> bool" where
  "unfenced a d \<longleftrightarrow> (\<forall>f\<in>set (ch_fences (webhook_channel d)). fen_account f \<noteq> a)
     \<and> (\<forall>f\<in>set (ch_fences (push_channel d)). fen_account f \<noteq> a)"

lemma edge_cong:
  assumes "edge_of d' = edge_of d"
  shows "edge_ok d' = edge_ok d" "unfenced a d' = unfenced a d"
  using assms
  by (simp_all add: edge_of_def edge_ok_def deliveries_ok_def registry_ok_def destinations_frozen_def usage_ok_def leases_ok_def
      credits_ok_def unfenced_def)

lemma edge_oauth: "edge_of (oauth_step x d) = edge_of d"
  by (cases x; simp add: oauth_defs edge_of_def split: option.split sum.split)

lemma edge_create: "create_account now i e p s n d = (Inr k, d') \<Longrightarrow> edge_of d' = edge_of d"
  by (erule create_account_Inr) (simp add: edge_of_def)

lemma edge_identity: "edge_of (identity_step v y d) = edge_of d"
proof (cases y)
  case (LinkApple a g)
  then show ?thesis by (auto simp: link_apple_identity_def Let_def insert_identity_def touch_identity_def
      upsert_apple_credential_def edge_of_def split: option.split)
qed (auto simp: upsert_subject_account_def upsert_apple_account_def Let_def touch_identity_def set_account_email_def
      upsert_apple_credential_def edge_of_def split: option.split prod.split sum.split elim: create_account_Inr)

lemma edge_usage: "edge_of (usage_step sha x d) = edge_of d"
proof -
  obtain y z where "usage_step sha x d = d\<lparr>vertex_events := y, vertex_coverage := z\<rparr>"
    using ledger_frame_step [of d sha x] unfolding ledger_frame_def by blast
  then show ?thesis by (simp add: edge_of_def)
qed

lemma edge_operations: "only_operations d d' \<Longrightarrow> edge_of d' = edge_of d"
  by (auto simp: only_operations_def edge_of_def)

text \<open>Beginning and finalising a deletion are refused while the account has a fence.\<close>

lemma edge_lifecycle:
  obtains (same) "edge_of (lifecycle_step x d) = edge_of d"
  | (silenced) a where "unfenced a d" "edge_of (lifecycle_step x d) = edge_of (revoke_sessions a d)"
  | (erased) a where "unfenced a d" "edge_of (lifecycle_step x d) = edge_of (bury a d)"
proof (cases x)
  case (RequestDeletion now random a)
  have "edge_of (lifecycle_step x d) = edge_of d"
    by (cases rule: request_cases [of now random a d]) (auto simp: RequestDeletion only_operations_def edge_of_def)
  then show ?thesis by (rule same)
next
  case (BeginDeletion now random a)
  show ?thesis
  proof (cases rule: begin_guards [of now random a d])
    case (passed d1)
    have free: "unfenced a d" using passed(2) by (auto simp: refuse_open_provider_fences_def unfenced_def split: if_splits)
    have d1: "edge_of d1 = edge_of d" "edge_of (revoke_sessions a d1) = edge_of (revoke_sessions a d)"
      using refuse_uploads_frame(1) [OF passed(1)] by (simp_all add: edge_of_def revoke_sessions_def)
    show ?thesis
      by (cases rule: begin_rest_cases [of now random a d d1])
        (use same silenced [OF free] passed(5) d1 in \<open>auto simp: BeginDeletion dest: edge_operations\<close>)
  qed (use same in \<open>simp add: BeginDeletion\<close>)
next
  case (UpdateDeletion now a reason retry hard)
  then show ?thesis using update_status_frame [of d now a reason retry hard] edge_operations same by auto
next
  case (FinalizeDeletion now a)
  show ?thesis
  proof (cases rule: finalize_cases [of now a d])
    case (refused e)
    then show ?thesis using same by (simp add: FinalizeDeletion)
  next
    case (again p d1 d2)
    have "edge_of d1 = edge_of d" using refuse_uploads_frame(1) [OF again(1)] by (simp add: edge_of_def)
    then show ?thesis using same again(5) edge_operations [OF again(4)] by (simp add: FinalizeDeletion)
  next
    case (buried p d1 d2)
    have free: "unfenced a d" using buried(2) by (auto simp: refuse_open_provider_fences_def unfenced_def split: if_splits)
    have "edge_of (bury a d1) = edge_of (bury a d)"
      using refuse_uploads_frame(1) [OF buried(1)] by (simp add: edge_of_def bury_def Let_def delete_account_def)
    then show ?thesis using erased [OF free] buried(6) edge_operations [OF buried(5)] by (simp add: FinalizeDeletion)
  qed
next
  case (RevokeApple now a c)
  then show ?thesis using same by (simp add: mark_apple_credential_revoked_def Let_def edge_of_def)
qed

section \<open>The invariants hold together\<close>

lemma revoke_tables:
  "webhook_channel (revoke_sessions a d) = webhook_channel d" "push_channel (revoke_sessions a d) = push_channel d"
  "usage_daily (revoke_sessions a d) = usage_daily d" "concurrency_leases (revoke_sessions a d) = concurrency_leases d"
  "delivery_balances (revoke_sessions a d) = delivery_balances d" "delivery_reservations (revoke_sessions a d) = delivery_reservations d"
  "push_generations (revoke_sessions a d) = push_generations d"
  "webhook_subscriptions (revoke_sessions a d) =
     update_rows (\<lambda>r. wh_account r = a) (\<lambda>r. r\<lparr>wh_enabled := False\<rparr>) (webhook_subscriptions d)"
  "push_installations (revoke_sessions a d) =
     update_rows (\<lambda>r. pu_account r = a) (\<lambda>r. r\<lparr>pu_enabled := False\<rparr>) (push_installations d)"
  by (simp_all add: revoke_sessions_def)

lemma bury_tables:
  "webhook_channel (bury a d) = drop_deliveries a (webhook_channel d)" "push_channel (bury a d) = drop_deliveries a (push_channel d)"
  "usage_daily (bury a d) = delete_rows (\<lambda>r. us_account r = a) (usage_daily d)" "concurrency_leases (bury a d) = concurrency_leases d"
  "delivery_balances (bury a d) = delete_rows (\<lambda>r. ba_account r = a) (delivery_balances d)"
  "delivery_reservations (bury a d) = delete_rows (\<lambda>r. rv_account r = a) (delivery_reservations d)"
  "push_generations (bury a d) = push_generations d"
  "webhook_subscriptions (bury a d) = delete_rows (\<lambda>r. wh_account r = a) (webhook_subscriptions d)"
  "push_installations (bury a d) = delete_rows (\<lambda>r. pu_account r = a) (push_installations d)"
  by (simp_all add: bury_def Let_def delete_account_def)

lemma drop_deliveries_fences [simp]: "ch_fences (drop_deliveries a c) = ch_fences c" "ch_lane (drop_deliveries a c) = ch_lane c"
  by (simp_all add: drop_deliveries_def)

text \<open>Fences of other accounts find their destinations where they were.\<close>

lemma frozen_elsewhere:
  assumes "destinations_frozen d" "unfenced a d"
    "ch_fences (webhook_channel d') = ch_fences (webhook_channel d)" "ch_fences (push_channel d') = ch_fences (push_channel d)"
    "\<And>w. w \<in> set (webhook_subscriptions d) \<Longrightarrow> wh_account w \<noteq> a \<Longrightarrow> w \<in> set (webhook_subscriptions d')"
    "\<And>p. p \<in> set (push_installations d) \<Longrightarrow> pu_account p \<noteq> a \<Longrightarrow> p \<in> set (push_installations d')"
  shows "destinations_frozen d'"
proof -
  have "webhook_frozen f (webhook_subscriptions d')" if f: "f \<in> set (ch_fences (webhook_channel d))" for f
  proof (rule webhook_frozen_fence)
    show "webhook_frozen f (webhook_subscriptions d)" using assms(1) f by (simp add: destinations_frozen_iff)
  qed (use assms(2,5) f in \<open>auto simp: unfenced_def\<close>)
  moreover have "push_frozen f (push_installations d')" if f: "f \<in> set (ch_fences (push_channel d))" for f
  proof (rule push_frozen_fence)
    show "push_frozen f (push_installations d)" using assms(1) f by (simp add: destinations_frozen_iff)
  qed (use assms(2,6) f in \<open>auto simp: unfenced_def push_key_def\<close>)
  ultimately show ?thesis by (simp add: destinations_frozen_iff assms(3,4))
qed

lemma registry_ok_disabled:
  assumes "registry_ok d" "webhook_subscriptions d' = update_rows P (\<lambda>r. r\<lparr>wh_enabled := False\<rparr>) (webhook_subscriptions d)"
    "push_installations d' = update_rows Q (\<lambda>r. r\<lparr>pu_enabled := False\<rparr>) (push_installations d)" "push_generations d' = push_generations d"
  shows "registry_ok d'"
proof -
  have "map webhook_key (webhook_subscriptions d') = map webhook_key (webhook_subscriptions d)"
    by (simp add: assms(2) map_update_rows webhook_key_def)
  moreover have "map push_key (push_installations d') = map push_key (push_installations d)"
    "map device (push_installations d') = map device (push_installations d)"
    and g: "map pu_generation (push_installations d') = map pu_generation (push_installations d)"
    by (simp_all add: assms(3) map_update_rows push_key_def device_def)
  moreover have "list_all (\<lambda>p. 0 < pu_generation p \<and> pu_generation p \<le> n) t
      = list_all (\<lambda>g. 0 < g \<and> g \<le> n) (map pu_generation t)" for n and t :: "push_row list"
    by (simp add: list_all_iff)
  ultimately show ?thesis using assms(1,4) by (simp add: registry_ok_def)
qed

lemma edge_ok_silenced:
  assumes "edge_ok d" "unfenced a d"
  shows "edge_ok (revoke_sessions a d)"
proof -
  let ?d = "revoke_sessions a d"
  have "deliveries_ok ?d" "usage_ok ?d" "leases_ok ?d" "credits_ok ?d"
    using assms(1) by (simp_all add: edge_ok_def revoke_tables deliveries_ok_def usage_ok_def leases_ok_def credits_ok_def)
  moreover have "registry_ok ?d"
    using assms(1) by (intro registry_ok_disabled [OF _ revoke_tables(8,9,7)]) (simp add: edge_ok_def)
  moreover have "destinations_frozen ?d"
    by (rule frozen_elsewhere [OF _ assms(2)]) (use assms(1) in \<open>auto simp: edge_ok_def revoke_tables set_update_rows\<close>)
  ultimately show ?thesis by (simp add: edge_ok_def)
qed

lemma channel_ok_dropped:
  assumes "channel_ok item c" "\<forall>f\<in>set (ch_fences c). fen_account f \<noteq> a"
  shows "channel_ok item (drop_deliveries a c)"
proof -
  have "dl_account r \<noteq> a" if "r \<in> set (in_flight c)" for r
    using assms that by (auto simp: channel_ok_def own_fence_def)
  then have "in_flight (drop_deliveries a c) = in_flight c"
    by (auto simp: in_flight_def drop_deliveries_def delete_rows_def filter_filter in_flight_set intro!: filter_cong)
  then show ?thesis using assms(1)
    by (auto simp: channel_ok_def drop_deliveries_def lane_owner_def)
qed

lemma edge_ok_erased:
  assumes "edge_ok d" "unfenced a d"
  shows "edge_ok (bury a d)"
proof -
  let ?d = "bury a d"
  have "deliveries_ok ?d" unfolding deliveries_ok_def bury_tables
    using assms by (intro conjI channel_ok_dropped) (simp_all add: edge_ok_def deliveries_ok_def unfenced_def)
  moreover have "registry_ok ?d" "usage_ok ?d" "leases_ok ?d" "credits_ok ?d"
    using assms(1) by (simp_all add: edge_ok_def registry_ok_def usage_ok_def leases_ok_def credits_ok_def bury_tables list_all_iff)
  moreover have "destinations_frozen ?d"
    by (rule frozen_elsewhere [OF _ assms(2)]) (use assms(1) in \<open>auto simp: edge_ok_def bury_tables\<close>)
  ultimately show ?thesis by (simp add: edge_ok_def)
qed

lemma edge_ok_fleet:
  assumes "edge_ok d"
  shows "edge_ok (fleet_step v x d)"
proof (cases x)
  case (UsageOp y)
  then show ?thesis using assms edge_cong(1) [OF edge_usage] by simp
next
  case (ServiceOp y)
  show ?thesis
  proof (cases y)
    case (LifecycleOp z)
    have "edge_ok (lifecycle_step z d)"
    proof (cases rule: edge_lifecycle [of z d])
      case same
      with edge_cong(1) [OF same] assms show ?thesis by simp
    next
      case (silenced a)
      with edge_cong(1) [OF silenced(2)] edge_ok_silenced [OF assms] show ?thesis by simp
    next
      case (erased a)
      with edge_cong(1) [OF erased(2)] edge_ok_erased [OF assms] show ?thesis by simp
    qed
    then show ?thesis by (simp add: ServiceOp LifecycleOp)
  qed (use assms edge_cong(1) [OF edge_oauth, of _ d] edge_cong(1) [OF edge_identity, of v _ d] in \<open>simp_all add: ServiceOp\<close>)
qed

lemma notification_frame:
  "notification_step x d = d\<lparr>webhook_subscriptions := webhook_subscriptions (notification_step x d),
     push_installations := push_installations (notification_step x d), push_generations := push_generations (notification_step x d)\<rparr>"
proof (cases x)
  case (UpsertPush now p)
  have gen: "d1 = d\<lparr>push_generations := push_generations d1\<rparr>" if "registered_generation p d = Some (g, d1)" for g d1
    using that by (cases rule: generation_cases) simp_all
  show ?thesis
  proof (cases rule: upsert_push_cases [of now p d])
    case (late e g d1)
    obtain n where "d1 = d\<lparr>push_generations := n\<rparr>" using gen [OF late(2)] by blast
    then show ?thesis by (simp add: UpsertPush late(1))
  next
    case (registered g d1)
    obtain n where "d1 = d\<lparr>push_generations := n\<rparr>" using gen [OF registered(3)] by blast
    then show ?thesis by (simp add: UpsertPush registered(5))
  qed (simp add: UpsertPush)
next
  case (CreateWebhook w)
  then show ?thesis by (cases rule: create_webhook_cases [of w d]) simp_all
qed (auto simp: disable_webhook_subscription_def delete_webhook_subscription_def delete_push_installation_def Let_def
    split: sum.split option.split)

lemma edge_ok_notification:
  assumes "edge_ok d"
  shows "edge_ok (notification_step x d)"
proof -
  have "usage_ok (notification_step x d)" "leases_ok (notification_step x d)" "credits_ok (notification_step x d)"
    using assms by (subst notification_frame; simp add: edge_ok_def usage_ok_def leases_ok_def credits_ok_def)+
  then show ?thesis using assms registry_ok_step [of d x] frozen_notification_step [of d x]
    by (simp add: edge_ok_def deliveries_ok_def)
qed

text \<open>A delivery only ever disables an installation.\<close>

lemma installations_settled:
  obtains P where "push_installations (delivery_step present x d) =
    update_rows P (\<lambda>r. r\<lparr>pu_enabled := False\<rparr>) (push_installations d)"
proof -
  note pick = that
  have same: thesis if "push_installations (delivery_step present x d) = push_installations d"
    using that pick [of "\<lambda>_. False"] by (simp add: update_rows_def)
  show thesis
  proof (cases x)
    case (NextWebhook now a)
    then show ?thesis using next_webhook_result [of present now a d]
      by (intro same) (auto simp: prune_webhooks_def update_webhooks_def recover_expired_webhook_claims_def Let_def)
  next
    case (ClaimWebhook now t cand req lease)
    then show ?thesis by (cases rule: claim_webhook_cases [of now t cand req lease d]) (use same in simp_all)
  next
    case (SettleWebhook now cl w circuit)
    then show ?thesis by (cases rule: settle_webhook_cases [of now cl w circuit d]) (use same in simp_all)
  next
    case (CancelWebhooks now a s)
    then show ?thesis using cancel_result [of now a s d]
      by (intro same) (auto simp: update_webhooks_def recover_expired_webhook_claims_def)
  next
    case (NextPush now a)
    then show ?thesis
      by (intro same) (simp add: next_push_result prune_pushes_def update_pushes_def recover_expired_push_claims_def Let_def)
  next
    case (ClaimPush now t cand req lease)
    then show ?thesis by (cases rule: claim_push_cases [of now t cand req lease d]) (use same in simp_all)
  next
    case (SettlePush now cl w circuit)
    let ?off = "update_rows (\<lambda>p. pu_account p = pl_account cl \<and> pu_id p = pl_installation cl
        \<and> pu_generation p = fp_generation (pl_request cl)) (\<lambda>p. p\<lparr>pu_enabled := False\<rparr>) (push_installations d)"
    have "push_installations (delivery_step present x d) \<in> {push_installations d, ?off}"
      by (auto simp: SettlePush settle_push_def split: sum.split option.split)
    then show ?thesis using pick same by blast
  qed
qed

lemma edge_ok_delivery:
  assumes "edge_ok d"
  shows "edge_ok (delivery_step present x d)"
proof -
  let ?d = "delivery_step present x d"
  have same: "webhook_subscriptions ?d = webhook_subscriptions d" "push_generations ?d = push_generations d"
    "usage_ok ?d = usage_ok d" "leases_ok ?d = leases_ok d" "credits_ok ?d = credits_ok d"
    by (subst delivery_frame; simp add: usage_ok_def leases_ok_def credits_ok_def)+
  obtain P where "push_installations ?d = update_rows P (\<lambda>r. r\<lparr>pu_enabled := False\<rparr>) (push_installations d)"
    by (rule installations_settled)
  then have "registry_ok ?d"
    using assms same(1,2) registry_ok_disabled [where P = "\<lambda>_. False" and Q = P and d = d and d' = ?d]
    by (simp add: edge_ok_def update_rows_def)
  then show ?thesis using assms same(3-5) deliveries_ok_step [of d present x] frozen_delivery_step [of d present x]
    by (simp add: edge_ok_def)
qed

lemma usage_ok_step: "usage_ok d \<Longrightarrow> limits_i64 x \<Longrightarrow> usage_ok (quota_step x d)"
  by (cases x) (simp_all add: reserve_meter usage_cong [OF quota_tables(1)] usage_cong [OF quota_tables(2)])

lemma edge_ok_quota:
  assumes "edge_ok d" "limits_i64 x"
  shows "edge_ok (quota_step x d)"
proof -
  let ?d = "quota_step x d"
  have "deliveries_ok ?d = deliveries_ok d" "registry_ok ?d = registry_ok d" "destinations_frozen ?d = destinations_frozen d"
    "credits_ok ?d = credits_ok d"
    by (subst quota_frame; simp add: deliveries_ok_def registry_ok_def destinations_frozen_def credits_ok_def)+
  then show ?thesis using assms usage_ok_step leases_ok_step by (simp add: edge_ok_def)
qed

lemma edge_ok_billing:
  assumes "edge_ok d"
  shows "edge_ok (billing_step j x d)"
proof -
  let ?d = "billing_step j x d"
  have reads: "webhook_channel (non_billing e) = webhook_channel e" "push_channel (non_billing e) = push_channel e"
    "webhook_subscriptions (non_billing e) = webhook_subscriptions e" "push_installations (non_billing e) = push_installations e"
    "push_generations (non_billing e) = push_generations e" "usage_daily (non_billing e) = usage_daily e"
    "concurrency_leases (non_billing e) = concurrency_leases e" for e by (simp_all add: non_billing_def)
  have "webhook_channel ?d = webhook_channel d" "push_channel ?d = push_channel d"
    "webhook_subscriptions ?d = webhook_subscriptions d" "push_installations ?d = push_installations d"
    "push_generations ?d = push_generations d" "usage_daily ?d = usage_daily d" "concurrency_leases ?d = concurrency_leases d"
    using non_billing_step [of j x d] reads by metis+
  then have "deliveries_ok ?d = deliveries_ok d" "registry_ok ?d = registry_ok d" "destinations_frozen ?d = destinations_frozen d"
    "usage_ok ?d = usage_ok d" "leases_ok ?d = leases_ok d"
    by (simp_all add: deliveries_ok_def registry_ok_def destinations_frozen_def usage_ok_def leases_ok_def)
  then show ?thesis using assms credits_step [of d j x] by (simp add: edge_ok_def)
qed

definition system_ok :: "db \<Rightarrow> bool" where
  "system_ok d \<longleftrightarrow> fleet_ok d \<and> edge_ok d"

text \<open>Quota limits are 64-bit integers of the caller.\<close>

fun typed :: "'j system_op \<Rightarrow> bool" where
  "typed (QuotaOp x) \<longleftrightarrow> limits_i64 x"
| "typed _ \<longleftrightarrow> True"

lemma fleet_ok_core: "core d' = core d \<Longrightarrow> fleet_ok d' = fleet_ok d"
  using core_same [of d' d] by (simp add: fleet_ok_def events_ok_def)

lemma system_ok_step:
  assumes "system_ok d" "typed x"
  shows "system_ok (system_step v present j x d)"
proof (cases x)
  case (FleetOp y)
  then show ?thesis using assms fleet_ok_step edge_ok_fleet by (simp add: system_ok_def)
next
  case (DeliveryOp y)
  then show ?thesis using assms fleet_ok_core [OF core_edge(1)] edge_ok_delivery by (simp add: system_ok_def)
next
  case (NotificationOp y)
  then show ?thesis using assms fleet_ok_core [OF core_edge(2)] edge_ok_notification by (simp add: system_ok_def)
next
  case (QuotaOp y)
  then show ?thesis using assms fleet_ok_core [OF core_edge(3)] edge_ok_quota by (simp add: system_ok_def)
next
  case (BillingOp y)
  then show ?thesis using assms fleet_ok_core [OF core_edge(4), of j y d] edge_ok_billing [of d j y] by (simp add: system_ok_def)
qed

lemma system_ok_run: "system_ok d \<Longrightarrow> list_all typed ops \<Longrightarrow> system_ok (run_ops (system_step v present j) ops d)"
  by (induction ops arbitrary: d) (simp_all add: system_ok_step)

lemma closing_system_step: "closing (life_of a d) \<Longrightarrow> closing (life_of a (system_step v present j x d))"
  by (cases x) (simp_all add: closing_fleet_step core_same(4) [OF core_edge(1)] core_same(4) [OF core_edge(2)]
      core_same(4) [OF core_edge(3)] core_same(4) [OF core_edge(4)])

section \<open>Closing an account silences it\<close>

text \<open>Only a claim for an active account puts a fence up.\<close>

lemma webhook_fence_active:
  assumes ok: "channel_ok same_item (webhook_channel d)"
    and f: "f \<in> set (ch_fences (webhook_channel (delivery_step present x d)))"
  shows "f \<in> set (ch_fences (webhook_channel d)) \<or> account_active d (fen_account f)"
proof (cases rule: webhook_effect [of d present x])
  case quiet
  with f quiet_fences [OF quiet(1)] show ?thesis by blast
next
  case (claim now t cand req lease c)
  have "ch_fences (webhook_channel (delivery_step present x d)) = ch_fences c @ [claim_fence now t cand req lease]"
    using claim(4) by (rule publish_claim_Some) simp
  with f claim(7) quiet_fences [OF claim(2)] show ?thesis by (auto simp: claim_fence_def)
next
  case (settle now cl w circuit)
  have "ch_fences (webhook_channel (delivery_step present x d)) = []"
    using idle_fences [OF channel_ok_settle_webhook [OF ok settle(2)]]
      settle_rows(3) [OF ok settle(2) [unfolded webhook_settled_def] webhook_settlement_state [of w]] by simp
  with f show ?thesis by simp
qed

lemma push_fence_active:
  assumes ok: "channel_ok any_item (push_channel d)"
    and f: "f \<in> set (ch_fences (push_channel (delivery_step present x d)))"
  shows "f \<in> set (ch_fences (push_channel d)) \<or> account_active d (fen_account f)"
proof (cases rule: push_effect [of d present x])
  case quiet
  with f quiet_fences [OF quiet(1)] show ?thesis by blast
next
  case (claim now t cand req lease c)
  have "ch_fences (push_channel (delivery_step present x d)) = ch_fences c @ [push_fence now t cand req lease]"
    using claim(4) by (rule publish_claim_Some) simp
  with f claim(7) quiet_fences [OF claim(2)] show ?thesis by (auto simp: push_fence_def)
next
  case (settle now cl w circuit)
  with f settled_push_idle [OF ok settle(2)] show ?thesis by simp
qed

lemma unfenced_lifecycle: "unfenced b d \<Longrightarrow> unfenced b (lifecycle_step z d)"
proof -
  assume b: "unfenced b d"
  show ?thesis
  proof (cases rule: edge_lifecycle [of z d])
    case same
    with edge_cong(2) [OF same] b show ?thesis by simp
  next
    case (silenced a)
    with edge_cong(2) [OF silenced(2)] b show ?thesis by (simp add: unfenced_def revoke_tables)
  next
    case (erased a)
    with edge_cong(2) [OF erased(2)] b show ?thesis by (simp add: unfenced_def bury_tables)
  qed
qed

lemma unfenced_step:
  assumes "system_ok d" "closing (life_of a d)" "unfenced a d"
  shows "unfenced a (system_step v present j x d)"
proof (cases x)
  case (FleetOp y)
  show ?thesis
  proof (cases y)
    case (UsageOp z)
    then show ?thesis using assms(3) edge_cong(2) [OF edge_usage, of a "sha256 v" z d] by (simp add: FleetOp)
  next
    case (ServiceOp z)
    then show ?thesis
      using assms(3) edge_cong(2) [OF edge_oauth, of a _ d] edge_cong(2) [OF edge_identity, of a v _ d] unfenced_lifecycle [of a d]
      by (cases z) (simp_all add: FleetOp)
  qed
next
  case (DeliveryOp y)
  have "\<not> account_active d a" using assms not_active_when_closing by (auto simp: system_ok_def fleet_ok_def)
  moreover have "channel_ok same_item (webhook_channel d)" "channel_ok any_item (push_channel d)"
    using assms(1) by (simp_all add: system_ok_def edge_ok_def deliveries_ok_def)
  ultimately show ?thesis
    using assms(3) webhook_fence_active [of d _ present y] push_fence_active [of d _ present y]
    by (auto simp: unfenced_def DeliveryOp)
next
  case (NotificationOp y)
  then show ?thesis using assms(3) by (simp add: unfenced_def)
next
  case (QuotaOp y)
  have "webhook_channel (quota_step y d) = webhook_channel d" "push_channel (quota_step y d) = push_channel d"
    by (subst quota_frame; simp)+
  then show ?thesis using assms(3) by (simp add: unfenced_def QuotaOp)
next
  case (BillingOp y)
  have "webhook_channel (non_billing e) = webhook_channel e" "push_channel (non_billing e) = push_channel e" for e
    by (simp_all add: non_billing_def)
  then have "webhook_channel (billing_step j y d) = webhook_channel d" "push_channel (billing_step j y d) = push_channel d"
    using non_billing_step [of j y d] by metis+
  then show ?thesis using assms(3) by (simp add: unfenced_def BillingOp)
qed

text \<open>
  The transactions that act for an account towards the outside: a session or credential is given out, a
  provider may be called, a delivery is claimed, a destination is registered.
\<close>

fun registers :: "string \<Rightarrow> notification_op \<Rightarrow> db \<Rightarrow> bool" where
  "registers a (CreateWebhook s) d \<longleftrightarrow> ws_user s = a \<and> fst (create_webhook_subscription s d) = Inr ()"
| "registers a (UpsertPush now p) d \<longleftrightarrow> pi_user p = a \<and> (\<exists>q. fst (upsert_push_installation now p d) = Inr q)"
| "registers a _ d \<longleftrightarrow> False"

fun acts_for :: "env \<Rightarrow> string \<Rightarrow> 'j system_op \<Rightarrow> db \<Rightarrow> bool" where
  "acts_for v a (FleetOp (ServiceOp y)) d \<longleftrightarrow> admits v a y d"
| "acts_for v a (FleetOp (UsageOp y)) d \<longleftrightarrow> (\<exists>i. sends v (a, i) (UsageOp y) d)"
| "acts_for v a (DeliveryOp y) d \<longleftrightarrow> (\<exists>e. claims_webhook (a, e) y d \<or> claims_push (a, e) y d)"
| "acts_for v a (NotificationOp y) d \<longleftrightarrow> registers a y d"
| "acts_for v a _ d \<longleftrightarrow> False"

lemma registers_active: "registers a y d \<Longrightarrow> account_active d a"
proof (cases y)
  case (CreateWebhook s)
  then show "registers a y d \<Longrightarrow> account_active d a" by (cases rule: create_webhook_cases [of s d]) auto
next
  case (UpsertPush now p)
  then show "registers a y d \<Longrightarrow> account_active d a" by (cases rule: upsert_push_cases [of now p d]) auto
qed simp_all

lemma claims_active: "claims_webhook (a, e) y d \<or> claims_push (a, e) y d \<Longrightarrow> account_active d a"
  by (cases rule: webhook_effect [of d undefined y]; cases rule: push_effect [of d undefined y]) auto

lemma acts_open:
  assumes "system_ok d" "acts_for v a x d"
  shows "\<not> closing (life_of a d)"
proof -
  have ok: "schema_ok d" using assms(1) by (simp add: system_ok_def fleet_ok_def)
  from assms(2) ok show ?thesis
    using admits_open not_active_when_closing registers_active claims_active sends_attempt
    by (induction v a x d rule: acts_for.induct) (auto, blast+)
qed

lemma silent_run:
  assumes "system_ok d" "closing (life_of a d)" "list_all typed ops"
  shows "hits (system_step v present j) (acts_for v a) ops d = 0
    \<and> (unfenced a d \<longrightarrow> unfenced a (run_ops (system_step v present j) ops d))"
  using assms
proof (induction ops arbitrary: d)
  case (Cons x ops)
  have "\<not> acts_for v a x d" using acts_open Cons.prems by blast
  moreover have "system_ok (system_step v present j x d)" using Cons.prems by (simp add: system_ok_step)
  ultimately show ?case
    using Cons.IH Cons.prems closing_system_step [of a d v present j x] unfenced_step [of d a v present j x] by simp
qed simp

lemma begun_is_closed:
  assumes "fst (begin_account_deletion now random a d) = Inr (Some p)"
  shows "closing (life_of a (snd (begin_account_deletion now random a d)))" "unfenced a (snd (begin_account_deletion now random a d))"
proof -
  let ?d = "snd (begin_account_deletion now random a d)"
  obtain d1 where passed: "refuse_active_media_uploads now a d = (Inr (), d1)" "refuse_open_provider_fences a d = Inr ()"
      "begin_account_deletion now random a d = begin_rest now random a d d1"
    by (cases rule: begin_guards [of now random a d]) (use assms in auto)
  have life: "life_of a d1 = life_of a d" using passed(1) by (rule life_uploads)
  show "closing (life_of a ?d)"
  proof (cases rule: begin_rest_cases [of now random a d d1])
    case (began q d2)
    have "life_of a ?d = map_prod (map_option (\<lambda>_. Deleting)) id (life_of a d)"
      using only_operations_life [OF began(2), of a] began(3) life by (simp add: passed(3) life_revoke)
    then show ?thesis using began(1) by (simp add: closing_def life_of_def)
  next
    case (repeated q d2)
    then have "life_of a ?d = life_of a d" using only_operations_life [OF repeated(3), of a] life by (simp add: passed(3))
    then show ?thesis using repeated(1) by (auto simp: closing_def life_of_def tombstoned_def)
  qed (use assms passed(3) in simp_all)
  have "unfenced a d" using passed(2) by (auto simp: refuse_open_provider_fences_def unfenced_def split: if_splits)
  then show "unfenced a ?d" using unfenced_lifecycle [of a d "BeginDeletion now random a"] by simp
qed



lemma edge_ok_quiet:
  assumes "edge_of d = edge_of empty_db"
  shows "edge_ok d"
proof -
  have "edge_ok empty_db" by (simp add: edge_ok_def empty_db_def deliveries_ok_def registry_ok_def destinations_frozen_def
      usage_ok_def leases_ok_def credits_ok_def)
  then show ?thesis using edge_cong(1) [OF assms] by simp
qed

lemma closing_db_ok: "system_ok closing_db"
proof -
  have "schema_ok closing_db"
    by (simp add: closing_db_def sample_db_def empty_db_def schema_ok_def identity_ok_def oauth_ok_def child_ok_def
        account_ids_def client_ids_def)
  moreover have "events_ok closing_db" by (simp add: closing_db_def sample_db_def empty_db_def events_ok_def)
  moreover have "edge_of closing_db = edge_of empty_db" by (simp add: closing_db_def sample_db_def empty_db_def edge_of_def)
  ultimately show ?thesis by (simp add: system_ok_def fleet_ok_def edge_ok_quiet)
qed

definition sample_history :: "string system_op list" where
  "sample_history = [FleetOp (ServiceOp (OAuthOp (sample_rotate ''x''))), BillingOp (CompleteOffline ''a'' ''r''),
     DeliveryOp sample_claim_op, NotificationOp (UpsertPush 5 sample_install)]"

lemma sample_history_typed: "list_all typed sample_history"
  by (simp add: sample_history_def)



section \<open>At most one provider call per attempt\<close>

fun system_sends :: "env \<Rightarrow> string \<times> bytes \<Rightarrow> 'j system_op \<Rightarrow> db \<Rightarrow> bool" where
  "system_sends v k (FleetOp x) d \<longleftrightarrow> sends v k x d"
| "system_sends v k _ d \<longleftrightarrow> False"

lemma held_core: "core d' = core d \<Longrightarrow> attempt_held v k d' = attempt_held v k d"
  using core_same [of d' d] by (simp add: attempt_held_def)

lemma held_system:
  "fleet_ok d \<Longrightarrow> attempt_held v k d \<Longrightarrow> attempt_held v k (system_step v present j x d)"
  using egress.held_step [of d v k] by (cases x) (simp_all add: held_core [OF core_edge(1)] held_core [OF core_edge(2)]
      held_core [OF core_edge(3)] held_core [OF core_edge(4)])

lemma fleet_ok_system: "fleet_ok d \<Longrightarrow> fleet_ok (system_step v present j x d)"
  by (cases x) (simp_all add: fleet_ok_step fleet_ok_core [OF core_edge(1)] fleet_ok_core [OF core_edge(2)]
      fleet_ok_core [OF core_edge(3)] fleet_ok_core [OF core_edge(4)])

interpretation system_egress: grant_ledger "system_step v present j" fleet_ok "attempt_held v" "system_sends v"
  for v present j
proof
  fix d k and x :: "'a system_op"
  assume ok: "fleet_ok d"
  then show "fleet_ok (system_step v present j x d)" by (rule fleet_ok_system)
  show "\<not> attempt_held v k d" if "system_sends v k x d" using that egress.grant_fresh [OF ok] by (cases x) auto
  show "attempt_held v k (system_step v present j x d)" if "system_sends v k x d"
    using that egress.grant_held [OF ok] by (cases x) auto
  show "attempt_held v k (system_step v present j x d)" if "attempt_held v k d" using ok that by (rule held_system)
qed

text \<open>C7. One durable attempt identity authorises at most one provider call: over every interleaving of
  transactions at most one admission of it says \<open>Send\<close>, and none does once the account's deletion was
  requested.\<close>

theorem provider_called_at_most_once:
  assumes "fleet_ok d"
  shows "hits (system_step v present j) (system_sends v (a, i)) ops d \<le> 1
    \<and> (closing (life_of a d) \<longrightarrow> hits (system_step v present j) (system_sends v (a, i)) ops d = 0)"
proof -
  have "closing (life_of a d) \<Longrightarrow> attempt_held v (a, i) d" by (simp add: attempt_held_def)
  with system_egress.at_most_one_grant [OF assms] system_egress.no_grant_when_held [OF assms] show ?thesis by blast
qed

definition sample_attempt :: "timestamp \<Rightarrow> string system_op" where
  "sample_attempt now = FleetOp (UsageOp (BeginAttempt now ''a'' AudioWindow ''m'' ''l'' [] [1]))"

theorem provider_called_at_most_once_witness:
  "hits (system_step sample_env sample_present sample_json) (system_sends sample_env (''a'', [1]))
     [sample_attempt 5, BillingOp (CompleteOffline ''a'' ''r''), sample_attempt 6] usage_db \<le> 1
   \<and> system_sends sample_env (''a'', [1]) (sample_attempt 5) usage_db"
proof -
  have "schema_ok usage_db"
    by (simp add: usage_db_def empty_db_def schema_ok_def identity_ok_def oauth_ok_def)
  then have "fleet_ok usage_db" using usage_db_ok by (simp add: fleet_ok_def)
  moreover have "system_sends sample_env (''a'', [1]) (sample_attempt 5) usage_db"
    by (simp add: sample_attempt_def) code_simp
  ultimately show ?thesis using provider_called_at_most_once by blast
qed

end
