(* ===== verification/Spec2Isabelle.thy ===== *)
theory Spec2Isabelle
  imports Prelude Rust_Str Civil_Date Isotime Media_Planner Schema OAuth_Store Tokens Identity_Store
    Lifecycle_Store Service Model_Usage Usage_Ledger Fleet Delivery_Outbox Delivery_Channel Delivery_Safety
    Notification_Store Destinations Quotas Billing_Store Billing_Credits Billing_Leases System
begin

text \<open>
  A verification development for \<^verbatim>\<open>kioku-enclave\<close>, the backend of a personal-memory service that runs in a
  confidential virtual machine. HTTP handlers and workers under \<^verbatim>\<open>src/src/cp\<close> call repositories whose
  interfaces are the traits of \<^verbatim>\<open>src/src/persistence\<close> and whose transactions are the SQL of
  \<^verbatim>\<open>src/src/persistence/postgres\<close>. Many processes of the fleet share one PostgreSQL database; they are kept
  apart by row and advisory locks, so a transaction is one step on the database, and a history of the
  fleet is a list of transactions in some order. The development models the repositories that carry
  accounts, credentials, money and what leaves the system, and the pure helpers they and the media
  pipeline use.

  \<^bold>\<open>How the code is modelled.\<close> The database is the record \<open>db\<close> of \<open>Schema\<close>, one list of row records per table; the
  prelude has the SQL forms (\<open>insert_row\<close>, \<open>insert_ignore\<close>, \<open>upsert_row\<close>, \<open>update_rows\<close>, \<open>delete_rows\<close>) with the
  constraint violations and the cascades the schema declares. A transaction has the type
  \<open>'a tx = db \<Rightarrow> (enclave_error + 'a) \<times> db\<close>: an error value leaves the database as it was (rollback), and every
  early return and \<^verbatim>\<open>Err\<close> of the source is a branch. The clock reading and every random token a transaction
  draws are arguments. 64-bit integers are HOL integers with their range written out (\<open>is_i64\<close>,
  \<open>saturating_add\<close>, \<open>saturating_sub\<close>) where the source saturates, checks or lets the database raise;
  strings are byte strings. Code of crates is a parameter: SHA-256 and HMAC, the identifier derivation, the
  episode presenter and the JSON printer and parser.

  \<^bold>\<open>The theories.\<close>
  \<^item> \<open>Prelude\<close>, \<open>Rust_Str\<close>: errors (\<^verbatim>\<open>error.rs\<close>), integers, tables, histories (\<open>run_ops\<close>, \<open>hits\<close>, \<open>spent\<close>) and the
    contracts the components are instances of: \<open>one_shot\<close> (a credential is consumed at most once),
    \<open>grant_ledger\<close> (a key is granted at most once), \<open>metered\<close> and \<open>budget\<close> (what was spent is what the counter
    says and stays below the limit), \<open>tombstone\<close> (what was buried never comes back).
  \<^item> \<open>Civil_Date\<close>, \<open>Isotime\<close>: \<^verbatim>\<open>cp/isotime.rs\<close>. The civil-date conversions are inverse bijections; parsing a
    formatted instant returns it; normalisation is idempotent; nothing overflows.
  \<^item> \<open>Media_Planner\<close>: \<^verbatim>\<open>cp/media_planner.rs\<close>. Plans respect every limit, are anchored on the least candidate
    and do not depend on the order of reading; projected intervals cover a turn exactly.
  \<^item> \<open>Tokens\<close>: hex, derived identifiers and recording-retention leases of \<^verbatim>\<open>cp/tokens.rs\<close>: round trip,
    authenticity, shape.
  \<^item> \<open>Schema\<close>: the tables and their constraints. \<open>OAuth_Store\<close>, \<open>Identity_Store\<close>, \<open>Lifecycle_Store\<close>:
    \<^verbatim>\<open>persistence/postgres/oauth.rs\<close>, \<^verbatim>\<open>identity.rs\<close> and \<^verbatim>\<open>lifecycle.rs\<close>. A code is exchanged and a refresh token
    rotated at most once and stay bound to account and client; registration keeps clients in use; the
    signup budget holds; an identity never changes its account; a deletion is refused while work is open,
    and once finalised leaves tombstones and nothing else.
  \<^item> \<open>Service\<close>: any interleaving of the three. The account life cycle \<open>life_step\<close> is an abstract state machine
    that every transaction refines.
  \<^item> \<open>Model_Usage\<close>, \<open>Usage_Ledger\<close>: \<^verbatim>\<open>persistence/postgres/model_usage.rs\<close> with the digests and the normalisation
    of \<^verbatim>\<open>persistence/model_usage.rs\<close>: every ledger transaction refines the life of an event, a batch of the
    billing outbox is small, safe and disjoint, and the loop that fetches it ends.
  \<^item> \<open>Fleet\<close>: accounts and ledger together.
  \<^item> \<open>Delivery_Outbox\<close>, \<open>Delivery_Channel\<close>, \<open>Delivery_Safety\<close>: \<^verbatim>\<open>persistence/postgres/delivery_outbox.rs\<close> and the outcomes of
    \<^verbatim>\<open>persistence/work.rs\<close>. A channel has its deliveries, its disclosure fences and the lane of its provider;
    \<open>channel_ok\<close> says that at most one delivery is in flight, with its own fence and lane. Claims are
    authorised, counted, settled once; an unknown outcome is never sent again.
  \<^item> \<open>Notification_Store\<close>, \<open>Destinations\<close>: \<^verbatim>\<open>persistence/postgres/notification.rs\<close>. A device belongs to one installation,
    registries stay small, and the destination of everything in flight stays as it was claimed.
  \<^item> \<open>Quotas\<close>: \<^verbatim>\<open>persistence/entitlement.rs\<close>, \<^verbatim>\<open>postgres/entitlement.rs\<close>, \<^verbatim>\<open>postgres/admission.rs\<close>: daily token quotas
    with protected shares, and concurrency leases that expire.
  \<^item> \<open>Billing_Store\<close>, \<open>Billing_Credits\<close>, \<open>Billing_Leases\<close>: \<^verbatim>\<open>persistence/postgres/billing.rs\<close>. Credits are conserved, a
    minute is granted once, leases never shorten, batches replay for nothing; a retried reservation with
    fewer bytes pays byte credits out, which the code does not mean to do.
  \<^item> \<open>System\<close>: all repositories together. The invariants hold over every interleaving, beginning a deletion
    silences the account in every component, and a provider attempt is admitted at most once.

  \<^bold>\<open>Bounds and fuel.\<close> Nothing is cut off by fuel. The only loop that is not structural, \<open>pending_loop\<close>, is a total
  function by a measure, the number of claimable events; \<open>outbox_loop_terminates\<close> states the bound on its passes.

  \<^bold>\<open>Not modelled.\<close> Floating-point arithmetic: \<^verbatim>\<open>add_seconds\<close>, the token bucket of \<^verbatim>\<open>consume_rate\<close>, embeddings and voice
  scores. Crates: JWT, cryptography, regular expressions, Unicode segmentation, time zones. Network and process code:
  HTTP handlers, workers, attestation, TLS, storage. Of the modelled repositories: the morning e-mail (its
  digests, preference and schedule), the preflight report of a deletion, the reporting queries of billing and its
  reconciliation of coverage snapshots, the scheduler cursors. Not yet modelled: capture and media processing,
  memory formation and reconciliation, episode finalisation and deletion, recording retention, activation and the
  schema release, queries and playback.
\<close>

section \<open>Properties of the account-facing service\<close>

text \<open>Every interleaving of identity, OAuth and lifecycle transactions keeps the primary keys,
  unique constraints and foreign keys of the tables they share.\<close>

theorem service_history_keeps_schema:
  assumes "schema_ok d"
  shows "schema_ok (run_ops (service_step v) ops d)"
  using assms by (rule schema_ok_run)

theorem service_history_keeps_schema_witness:
  "schema_ok (run_ops (service_step sample_env)
     [IdentityOp (SignInSubject 5 ''s'' ''e'' 1), LifecycleOp (RequestDeletion 6 ''r'' ''a'')] empty_db)"
  by (rule service_history_keeps_schema [OF schema_ok_empty])

text \<open>C9. The service refines the account state machine: seen through its status and its tombstone,
  every account moves by sign-up, request, begin and burial only, in that order, under every history.\<close>

theorem service_refines_life:
  "life_step\<^sup>*\<^sup>* (life_of a d) (life_of a (run_ops (service_step v) ops d))
   \<and> life_step (life_of a d) (life_of a (service_step v x d))"
  using life_run life_refine_service by blast


definition active_db :: db where
  "active_db = sample_db\<lparr>auth_identities := [\<lparr>idn_provider = ''google'', idn_subject = ''s'',
     idn_account = ''a'', idn_email = ''e''\<rparr>]\<rparr>"

lemma active_db_ok: "schema_ok active_db"
  by (simp add: active_db_def sample_db_def empty_db_def schema_ok_def identity_ok_def oauth_ok_def child_ok_def
      account_ids_def client_ids_def)


text \<open>C20. Once an account is buried none of its identities can ever be linked or used to sign in
  again: after the burial, over every further history, the identity stays unlinked and a
  sign-in with it fails and changes nothing.\<close>

theorem buried_identity_never_signs_in:
  assumes "finalize_account_deletion now a d = (Inr p, d')" and "account_status_of d a = Some Deleting"
    and "i \<in> set (auth_identities d)" and "idn_account i = a"
    and "identity_ok d"
  shows "\<not> linked_identity (idn_provider i, idn_subject i) (run_ops (service_step v) ops d')
    \<and> buried_identity (idn_provider i, idn_subject i) (run_ops (service_step v) ops d')
    \<and> (idn_provider i = ''google'' \<longrightarrow>
        upsert_subject_account v now' (idn_subject i) e n (run_ops (service_step v) ops d') =
          (Inl (Auth ''account deleted''), run_ops (service_step v) ops d'))
    \<and> (idn_provider i = ''apple'' \<longrightarrow>
        upsert_apple_account v now' \<lparr>ag_subject = idn_subject i, ag_email = e, ag_client = c, ag_token = t\<rparr> n
            (run_ops (service_step v) ops d') =
          (Inl (Auth ''account deleted''), run_ops (service_step v) ops d'))"
proof -
  from burial [OF assms]
  have b: "buried_identity (idn_provider i, idn_subject i) d'" "\<not> linked_identity (idn_provider i, idn_subject i) d'"
    by simp_all
  have "buried_identity (idn_provider i, idn_subject i) (run_ops (service_step v) ops d')"
    using b(1) by (rule identities.dead_run)
  moreover have "\<not> linked_identity (idn_provider i, idn_subject i) (run_ops (service_step v) ops d')"
    using b by (rule identities.gone_for_good)
  ultimately show ?thesis
    by (auto simp: buried_identity_def upsert_subject_account_def upsert_apple_account_def deleted_account_or_identity_def Let_def)
qed

theorem buried_identity_never_signs_in_witness:
  "\<not> linked_identity (''google'', ''s'') (run_ops (service_step sample_env)
     [IdentityOp (SignInSubject 11 ''s'' ''e'' 9)] (snd (finalize_account_deletion 9 ''a'' buriable_db)))"
proof -
  obtain p d' where f: "finalize_account_deletion 9 ''a'' buriable_db = (Inr p, d')"
    by (simp add: finalize_account_deletion_def refuse_open_provider_fences_def refuse_active_media_uploads_def
        complete_operation_def bury_def delete_account_def require_operation_def load_operation_def
        deletion_operation_from_row_def buriable_db_def closing_db_def sample_db_def empty_db_def account_status_of_def
        lookup_row_def insert_ignore_def update_rows_def delete_rows_def count_rows_def)
  have s: "account_status_of buriable_db ''a'' = Some Deleting"
    by (simp add: buriable_db_def account_status_of_def lookup_row_def)
  have ok: "identity_ok buriable_db"
    by (simp add: buriable_db_def closing_db_def sample_db_def empty_db_def identity_ok_def child_ok_def account_ids_def)
  let ?i = "\<lparr>idn_provider = ''google'', idn_subject = ''s'', idn_account = ''a'', idn_email = ''e''\<rparr>"
  have "?i \<in> set (auth_identities buriable_db)" by (simp add: buriable_db_def closing_db_def)
  from buried_identity_never_signs_in [OF f s this _ ok, of sample_env "[IdentityOp (SignInSubject 11 ''s'' ''e'' 9)]"]
  show ?thesis by (simp add: f del: run_ops.simps)
qed

text \<open>The account of a reviewer fixture survives every history: it stays active and protected.\<close>

theorem reviewer_fixture_survives:
  assumes "a \<in> set (reviewer_fixtures d)" and "account_status_of d a = Some Active"
  shows "a \<in> set (reviewer_fixtures (run_ops (service_step v) ops d))
    \<and> account_status_of (run_ops (service_step v) ops d) a = Some Active"
proof -
  have "fixture_safe a (run_ops (service_step v) ops d)"
    using assms by (intro run_ops_invariant [where P = "fixture_safe a"] fixture_safe_step) (simp_all add: fixture_safe_def)
  then show ?thesis by (simp add: fixture_safe_def)
qed

theorem reviewer_fixture_survives_witness:
  "account_status_of (run_ops (service_step sample_env) [LifecycleOp (RequestDeletion 5 ''r'' ''a'')]
     (active_db\<lparr>reviewer_fixtures := [''a'']\<rparr>)) ''a'' = Some Active"
proof -
  have "''a'' \<in> set (reviewer_fixtures (active_db\<lparr>reviewer_fixtures := [''a'']\<rparr>))"
    "account_status_of (active_db\<lparr>reviewer_fixtures := [''a'']\<rparr>) ''a'' = Some Active"
    by (simp_all add: active_db_def sample_db_def account_status_of_def lookup_row_def)
  from reviewer_fixture_survives [OF this] show ?thesis by blast
qed

end
